(* ===== verification/Janus_Prelude.thy ===== *)
theory Janus_Prelude
  imports Complex_Main "HOL-Library.Word" "HOL-Library.Sublist"
begin

text \<open>
  The prelude of the development. It fixes how the C program's basic data are
  represented (identifiers, status codes, NUL-terminated strings, undefined
  behaviour) and proves the generic facts every component theory uses:
  \<^item> \<open>janus_id_t\<close> is a 64-bit word, the counters of the module are 32-bit words;
  \<^item> a \<open>char *\<close> that may be NULL is a \<open>string option\<close>; the text of a C string is
    the list of its bytes before the terminating NUL;
  \<^item> \<open>snprintf\<close>, \<open>strncat\<close>, \<open>strchr\<close>, \<open>strncasecmp\<close>, \<open>strtoull\<close> and the \<open>%u\<close> format
    of the C library are modelled to the extent the sources use them;
  \<^item> an operation whose C execution can be undefined returns \<open>'a cres\<close>: \<open>Inl\<close> names
    the undefined behaviour, \<open>Inr\<close> is the ordinary result. \<open>Inl OutOfFuel\<close> is not a behaviour of
    the program: it says that the fuel of a recursive definition was too small.
\<close>

named_theorems cstr_simps \<open>facts on the C string functions\<close>

section \<open>Identifiers, status codes, undefined behaviour\<close>

type_synonym janus_id_t = "64 word"
type_synonym u32 = "32 word"
type_synonym cstr = "string option"
type_synonym ptr = nat

datatype switch_status_t =
    SWITCH_STATUS_SUCCESS
  | SWITCH_STATUS_FALSE
  | SWITCH_STATUS_TERM
  | SWITCH_STATUS_SOCKERR
  | SWITCH_STATUS_NOTFOUND
  | SWITCH_STATUS_NOT_INITALIZED
  | SWITCH_STATUS_OTHER nat

datatype ub = NullDeref | InvalidPointer | FloatRange | IntRange | BufferOverflow | AssertFailed | OutOfFuel

type_synonym 'a cres = "ub + 'a"

definition cbind :: "'a cres \<Rightarrow> ('a \<Rightarrow> 'b cres) \<Rightarrow> 'b cres" where
  "cbind x f = (case x of Inl e \<Rightarrow> Inl e | Inr v \<Rightarrow> f v)"

lemma cbind_simps [simp]:
  "cbind (Inl e) f = Inl e"
  "cbind (Inr v) f = f v"
  by (simp_all add: cbind_def)

lemma cbind_Inr_iff: "cbind x f = Inr y \<longleftrightarrow> (\<exists>v. x = Inr v \<and> f v = Inr y)"
  by (cases x) auto

lemma cbind_Inl_iff: "cbind x f = Inl e \<longleftrightarrow> x = Inl e \<or> (\<exists>v. x = Inr v \<and> f v = Inl e)"
  by (cases x) auto

lemma cbind_assoc: "cbind (cbind x f) g = cbind x (\<lambda>v. cbind (f v) g)"
  by (cases x) auto

lemma cbind_cong [fundef_cong]:
  "x = y \<Longrightarrow> (\<And>v. y = Inr v \<Longrightarrow> f v = g v) \<Longrightarrow> cbind x f = cbind y g"
  by (cases y) auto

definition deref :: "'a option \<Rightarrow> 'a cres" where
  "deref p = (case p of None \<Rightarrow> Inl NullDeref | Some v \<Rightarrow> Inr v)"

lemma deref_simps [simp]: "deref None = Inl NullDeref" "deref (Some v) = Inr v"
  by (simp_all add: deref_def)

lemma deref_Inr_iff [simp]: "deref p = Inr v \<longleftrightarrow> p = Some v"
  by (cases p) auto

lemma deref_Inl_iff [simp]: "deref p = Inl e \<longleftrightarrow> p = None \<and> e = NullDeref"
  by (cases p) auto

definition cassert :: "bool \<Rightarrow> 'a cres \<Rightarrow> 'a cres" where
  "cassert b x = (if b then x else Inl AssertFailed)"

lemma cassert_simps [simp]: "cassert True x = x" "cassert False x = Inl AssertFailed"
  by (simp_all add: cassert_def)

section \<open>C strings\<close>

definition zstr :: "cstr \<Rightarrow> bool" where
  "zstr s = (case s of None \<Rightarrow> True | Some t \<Rightarrow> t = [])"

lemma zstr_simps [simp]: "zstr None" "zstr (Some t) \<longleftrightarrow> t = []"
  by (simp_all add: zstr_def)

definition c_tolower :: "char \<Rightarrow> char" where
  "c_tolower c = (let n = of_char c :: nat in if 65 \<le> n \<and> n \<le> 90 then char_of (n + 32) else c)"

definition strcasecmp_eq :: "string \<Rightarrow> string \<Rightarrow> bool" where
  "strcasecmp_eq a b \<longleftrightarrow> map c_tolower a = map c_tolower b"

definition strncasecmp_eq :: "nat \<Rightarrow> string \<Rightarrow> string \<Rightarrow> bool" where
  "strncasecmp_eq n a b \<longleftrightarrow> take n (map c_tolower a) = take n (map c_tolower b)"

definition strncmp_eq :: "nat \<Rightarrow> string \<Rightarrow> string \<Rightarrow> bool" where
  "strncmp_eq n a b \<longleftrightarrow> take n a = take n b"

text \<open>
  \<open>snprintf\<close> into a buffer of \<open>cap\<close> bytes returns the length of the whole text and
  leaves at most \<open>cap - 1\<close> of its bytes, NUL-terminated, in the buffer;
  \<open>switch_copy_string\<close> truncates the same way.
\<close>

definition snprintf_text :: "nat \<Rightarrow> string \<Rightarrow> string" where
  "snprintf_text cap s = take (cap - 1) s"

lemma snprintf_text_length: "0 < cap \<Longrightarrow> length (snprintf_text cap s) < cap"
  by (simp add: snprintf_text_def)

lemma snprintf_text_fits [cstr_simps]: "length s < cap \<Longrightarrow> snprintf_text cap s = s"
  by (simp add: snprintf_text_def)

text \<open>
  \<open>strncat(dst, src, n)\<close> on an array of \<open>cap\<close> bytes appends at most \<open>n\<close> bytes of \<open>src\<close>
  and then a NUL; \<open>n\<close> bounds the bytes appended and not the bytes left in \<open>dst\<close>, so the
  call overruns the array when old text, appended bytes and NUL exceed \<open>cap\<close>.
\<close>

definition strncat :: "nat \<Rightarrow> string \<Rightarrow> string \<Rightarrow> nat \<Rightarrow> string cres" where
  "strncat cap dst src n =
     (let r = dst @ take n src in if length r < cap then Inr r else Inl BufferOverflow)"

text \<open>\<open>strchr\<close>: the text before the first occurrence of a byte, and the text after it.\<close>

fun strchr_split :: "char \<Rightarrow> string \<Rightarrow> (string \<times> string) option" where
  "strchr_split c [] = None"
| "strchr_split c (x # xs) =
     (if x = c then Some ([], xs)
      else map_option (\<lambda>(a, b). (x # a, b)) (strchr_split c xs))"

lemma strchr_split_Some_iff:
  "strchr_split c s = Some (a, b) \<longleftrightarrow> s = a @ c # b \<and> c \<notin> set a"
proof (induction s arbitrary: a b)
  case Nil
  then show ?case by simp
next
  case (Cons x xs)
  show ?case by (cases a) (auto simp: Cons.IH)
qed

lemma strchr_split_None_iff: "strchr_split c s = None \<longleftrightarrow> c \<notin> set s"
  by (induction s) auto

lemma strchr_split_append [cstr_simps]: "c \<notin> set a \<Longrightarrow> strchr_split c (a @ c # b) = Some (a, b)"
  by (simp add: strchr_split_Some_iff)

text \<open>\<open>strstr\<close>: the text before the first occurrence of a needle, and the text after it.\<close>

fun strstr_split :: "string \<Rightarrow> string \<Rightarrow> (string \<times> string) option" where
  "strstr_split p [] = (if p = [] then Some ([], []) else None)"
| "strstr_split p (x # xs) =
     (if take (length p) (x # xs) = p then Some ([], drop (length p) (x # xs))
      else map_option (\<lambda>(a, b). (x # a, b)) (strstr_split p xs))"

lemma strstr_split_sound: "strstr_split p s = Some (a, b) \<Longrightarrow> s = a @ p @ b"
proof (induction p s arbitrary: a b rule: strstr_split.induct)
  case (1 p)
  then show ?case by (auto split: if_splits)
next
  case (2 p x xs)
  show ?case
  proof (cases "take (length p) (x # xs) = p")
    case True
    with 2(2) have "a = []" "b = drop (length p) (x # xs)" by auto
    then show ?thesis using True by (metis append_Nil append_take_drop_id)
  next
    case False
    with 2(2) obtain a' where "a = x # a'" "strstr_split p xs = Some (a', b)" by auto
    with 2(1)[OF False] show ?thesis by auto
  qed
qed

lemma strstr_split_None: "strstr_split p s = None \<Longrightarrow> s \<noteq> a @ p @ b"
proof (induction p s arbitrary: a rule: strstr_split.induct)
  case (1 p)
  then show ?case by (auto split: if_splits)
next
  case (2 p x xs)
  then have no: "take (length p) (x # xs) \<noteq> p" and rec: "strstr_split p xs = None"
    by (auto split: if_splits)
  show ?case
  proof (cases a)
    case Nil
    with no show ?thesis by (metis append_Nil append_eq_conv_conj)
  next
    case (Cons y ys)
    with 2(1)[OF no rec, of ys] show ?thesis by auto
  qed
qed

section \<open>Decimal text of unsigned integers\<close>

text \<open>The \<open>%u\<close> / \<open>%llu\<close> format.\<close>

definition digit_char :: "nat \<Rightarrow> char" where
  "digit_char d = char_of (48 + d)"

definition is_digit :: "char \<Rightarrow> bool" where
  "is_digit c \<longleftrightarrow> 48 \<le> (of_char c :: nat) \<and> (of_char c :: nat) \<le> 57"

definition digit_val :: "char \<Rightarrow> nat" where
  "digit_val c = of_char c - 48"

fun nat_str :: "nat \<Rightarrow> string" where
  "nat_str n = (if n < 10 then [digit_char n] else nat_str (n div 10) @ [digit_char (n mod 10)])"

declare nat_str.simps [simp del]

definition digits_val :: "string \<Rightarrow> nat" where
  "digits_val s = foldl (\<lambda>a c. 10 * a + digit_val c) 0 s"

lemma digit_char_literals:
  "digit_char 0 = CHR ''0''" "digit_char (Suc 0) = CHR ''1''" "digit_char 1 = CHR ''1''"
  "digit_char 2 = CHR ''2''" "digit_char 3 = CHR ''3''" "digit_char 4 = CHR ''4''"
  "digit_char 5 = CHR ''5''" "digit_char 6 = CHR ''6''" "digit_char 7 = CHR ''7''"
  "digit_char 8 = CHR ''8''" "digit_char 9 = CHR ''9''"
  by (simp_all add: digit_char_def char_of_def bit_iff_odd)

lemma digit_char_digit: "d < 10 \<Longrightarrow> is_digit (digit_char d)"
  by (simp add: is_digit_def digit_char_def of_char_of)

lemma digit_val_digit_char: "d < 10 \<Longrightarrow> digit_val (digit_char d) = d"
  by (simp add: digit_val_def digit_char_def of_char_of)

lemma nat_str_digits: "\<forall>c \<in> set (nat_str n). is_digit c"
proof (induction n rule: nat_str.induct)
  case (1 n)
  then show ?case
    by (subst nat_str.simps) (auto simp: digit_char_digit)
qed

lemma nat_str_not_Nil [simp]: "nat_str n \<noteq> []"
  by (subst nat_str.simps) simp

lemma digits_val_nat_str: "digits_val (nat_str n) = n"
proof (induction n rule: nat_str.induct)
  case (1 n)
  show ?case
  proof (cases "n < 10")
    case True
    then show ?thesis
      by (subst nat_str.simps) (simp add: digits_val_def digit_val_digit_char)
  next
    case False
    with 1 have "digits_val (nat_str (n div 10)) = n div 10" by simp
    then have "digits_val (nat_str (n div 10) @ [digit_char (n mod 10)]) = 10 * (n div 10) + n mod 10"
      by (simp add: digits_val_def digit_val_digit_char)
    with False show ?thesis by (subst nat_str.simps) simp
  qed
qed

lemma inj_nat_str: "inj nat_str"
  by (metis digits_val_nat_str injI)

lemma nat_str_eq_iff [simp]: "nat_str m = nat_str n \<longleftrightarrow> m = n"
  using inj_nat_str by (auto simp: inj_def)

lemma nat_str_no_char: "\<not> is_digit c \<Longrightarrow> c \<notin> set (nat_str n)"
  using nat_str_digits by blast

lemma length_nat_str: "n < 10 ^ k \<Longrightarrow> 0 < k \<Longrightarrow> length (nat_str n) \<le> k"
proof (induction n arbitrary: k rule: nat_str.induct)
  case (1 n)
  show ?case
  proof (cases "n < 10")
    case True
    with 1 show ?thesis by (subst nat_str.simps) simp
  next
    case False
    with 1(2) have k: "1 < k" by (cases k; cases "k - 1") auto
    then obtain j where j: "k = Suc j" "0 < j" by (cases k) auto
    with 1(2) have "n div 10 < 10 ^ j" by (simp add: div_less_iff_less_mult)
    with 1(1)[OF False] j have "length (nat_str (n div 10)) \<le> j" by blast
    with False j show ?thesis by (subst nat_str.simps) simp
  qed
qed

lemma length_nat_str_u64: "length (nat_str (unat (w :: 64 word))) \<le> 20"
proof -
  have "unat w < 2 ^ 64" using unsigned_less [of w] by simp
  then have "unat w < 10 ^ 20" by simp
  then show ?thesis by (rule length_nat_str) simp
qed

section \<open>Reading integers\<close>

text \<open>
  \<open>strtoull(s, &end, 10)\<close> and \<open>atoi\<close>: white space, an optional sign, digits. Without digits
  the result is 0 and \<open>end\<close> is the whole text; a value that is too large saturates, and a minus sign
  negates modulo \<open>2 ^ 64\<close>. \<open>atoi\<close> of a value outside \<open>int\<close> is undefined.
\<close>

definition is_space :: "char \<Rightarrow> bool" where
  "is_space c \<longleftrightarrow> (let n = of_char c :: nat in n = 32 \<or> (9 \<le> n \<and> n \<le> 13))"

definition int_prefix :: "string \<Rightarrow> bool \<times> string \<times> string" where
  "int_prefix s =
     (let t = dropWhile is_space s;
          (neg, u) = (case t of [] \<Rightarrow> (False, t)
                              | c # r \<Rightarrow> if c = CHR ''-'' then (True, r)
                                         else if c = CHR ''+'' then (False, r) else (False, t))
      in (neg, takeWhile is_digit u, dropWhile is_digit u))"

definition strtoull10 :: "string \<Rightarrow> 64 word \<times> string" where
  "strtoull10 s =
     (case int_prefix s of (neg, ds, rest) \<Rightarrow>
        if ds = [] then (0, s)
        else if 2 ^ 64 \<le> digits_val ds then (of_nat (2 ^ 64 - 1), rest)
        else (if neg then - of_nat (digits_val ds) else of_nat (digits_val ds), rest))"

definition atoi :: "string \<Rightarrow> int cres" where
  "atoi s =
     (case int_prefix s of (neg, ds, rest) \<Rightarrow>
        let v = (if neg then - int (digits_val ds) else int (digits_val ds)) in
        if - (2 ^ 31) \<le> v \<and> v < 2 ^ 31 then Inr v else Inl IntRange)"

lemma digits_val_Nil [simp]: "digits_val [] = 0"
  by (simp add: digits_val_def)

lemma is_digit_not_special:
  assumes "is_digit c"
  shows "\<not> is_space c" "c \<noteq> CHR ''-''" "c \<noteq> CHR ''+''"
  using assms by (auto simp: is_digit_def is_space_def Let_def)

lemma int_prefix_digits:
  assumes "\<forall>c \<in> set ds. is_digit c"
  shows "int_prefix ds = (False, ds, [])"
proof (cases ds)
  case (Cons c cs)
  with assms is_digit_not_special [of c] show ?thesis
    by (simp add: int_prefix_def takeWhile_eq_all_conv [THEN iffD2] dropWhile_eq_Nil_conv [THEN iffD2])
qed (simp add: int_prefix_def)

lemma strtoull10_nat_str: "n < 2 ^ 64 \<Longrightarrow> strtoull10 (nat_str n) = (of_nat n, [])"
  by (simp add: strtoull10_def int_prefix_digits nat_str_digits digits_val_nat_str)

lemma atoi_bounds: "atoi s = Inr v \<Longrightarrow> - (2 ^ 31) \<le> v \<and> v < 2 ^ 31"
  by (auto simp: atoi_def Let_def split: prod.splits if_splits)

end
