(* ===== verification/Auth.thy ===== *)
theory Auth
  imports Janus_Prelude
begin

text \<open>
  \<open>auth.c\<close>: HMAC-SHA1 signed tokens. \<open>HMAC(EVP_sha1(), ...)\<close> and \<open>EVP_EncodeBlock\<close> belong
  to OpenSSL and \<open>time(NULL)\<close> to the environment; they are the parameters \<open>hmac\<close> (\<open>None\<close>
  when the call fails, the bytes of the signature otherwise), \<open>b64\<close> (the text written) and
  \<open>now\<close>. The array \<open>ppDescriptors\<close> with its length \<open>ndesc\<close> is the list of its entries,
  \<open>None\<close> for the NULL array. Expiry times are unbounded integers here; the theorems state the range
  in which the program's \<open>long long\<close> holds them.
\<close>

definition AUTH_REALM :: string where
  "AUTH_REALM = ''janus''"

definition int_str :: "int \<Rightarrow> string" where
  "int_str z = (if z < 0 then CHR ''-'' # nat_str (nat (- z)) else nat_str (nat z))"

text \<open>The space reserved for the data part: every non-NULL descriptor is counted, even an empty one.\<close>

definition auth_dataCap :: "cstr list \<Rightarrow> nat" where
  "auth_dataCap descs =
     21 + 1 + length AUTH_REALM
     + sum_list (map (\<lambda>d. case d of None \<Rightarrow> 0 | Some t \<Rightarrow> 1 + length t) descs) + 1"

text \<open>
  The second loop: empty and NULL descriptors are skipped, the others appended with a comma; a text
  that would not fit fails the whole call.
\<close>

fun auth_append :: "nat \<Rightarrow> string \<Rightarrow> cstr list \<Rightarrow> string option" where
  "auth_append cap data [] = Some data"
| "auth_append cap data (None # ds) = auth_append cap data ds"
| "auth_append cap data (Some d # ds) =
     (if d = [] then auth_append cap data ds
      else let written = CHR '','' # d in
           if length written \<ge> cap - length data then None
           else auth_append cap (data @ written) ds)"

definition authSignToken ::
  "(string \<Rightarrow> string \<Rightarrow> string option) \<Rightarrow> (string \<Rightarrow> string) \<Rightarrow> int \<Rightarrow>
   cstr \<Rightarrow> int \<Rightarrow> cstr list option \<Rightarrow> cstr" where
  "authSignToken hmac b64 now pSecret ttlSeconds ppDescriptors =
     (if zstr pSecret \<or> ttlSeconds \<le> 0 then None
      else
        let descs = (case ppDescriptors of None \<Rightarrow> [] | Some ds \<Rightarrow> ds);
            dataCap = auth_dataCap descs;
            expiry = int_str (now + ttlSeconds) @ CHR '','' # AUTH_REALM
        in if length expiry \<ge> dataCap then None
           else case auth_append dataCap expiry descs of
             None \<Rightarrow> None
           | Some pData \<Rightarrow>
               (case hmac (the pSecret) pData of
                  None \<Rightarrow> None
                | Some sig \<Rightarrow>
                    if sig = [] then None
                    else let pB64 = b64 sig in
                      if pB64 = [] then None
                      else let total = length pData + 1 + length pB64 + 1;
                               pToken = pData @ CHR '':'' # pB64
                           in if length pToken \<ge> total then None else Some pToken))"

section \<open>The documented format\<close>

text \<open>
  The header of \<open>auth.c\<close> gives the format of a token as
  \<^verbatim>\<open><expiry>,janus[,desc...]:<base64(HMAC-SHA1(data,key))>\<close>. \<open>auth_data\<close> writes its data
  part, \<open>token_fields\<close> reads a token back: the text before the first colon, split at commas, and
  the text after it.
\<close>

definition auth_descs :: "cstr list \<Rightarrow> string list" where
  "auth_descs ds = [d. Some d \<leftarrow> ds, d \<noteq> []]"

definition auth_data :: "int \<Rightarrow> string list \<Rightarrow> string" where
  "auth_data expiry ds = int_str expiry @ concat (map (\<lambda>d. CHR '','' # d) (AUTH_REALM # ds))"

fun split_on :: "char \<Rightarrow> string \<Rightarrow> string list" where
  "split_on c [] = [[]]"
| "split_on c (x # xs) =
     (if x = c then [] # split_on c xs
      else case split_on c xs of [] \<Rightarrow> [[x]] | y # ys \<Rightarrow> (x # y) # ys)"

definition token_fields :: "string \<Rightarrow> (string list \<times> string) option" where
  "token_fields t = map_option (\<lambda>(d, s). (split_on CHR '','' d, s)) (strchr_split CHR '':'' t)"

lemma auth_descs_simps [simp]:
  "auth_descs [] = []"
  "auth_descs (None # ds) = auth_descs ds"
  "auth_descs (Some d # ds) = (if d = [] then auth_descs ds else d # auth_descs ds)"
  by (simp_all add: auth_descs_def)

lemma auth_append_fits:
  "length data + sum_list (map (\<lambda>d. case d of None \<Rightarrow> 0 | Some t \<Rightarrow> 1 + length t) ds) < cap \<Longrightarrow>
   auth_append cap data ds = Some (data @ concat (map (\<lambda>d. CHR '','' # d) (auth_descs ds)))"
  by (induction cap data ds rule: auth_append.induct) auto

lemma length_int_str: "\<bar>z\<bar> < 10 ^ 19 \<Longrightarrow> length (int_str z) \<le> 20"
proof -
  assume "\<bar>z\<bar> < 10 ^ 19"
  then have "nat (- z) < 10 ^ 19" "nat z < 10 ^ 19" by auto
  then have "length (nat_str (nat (- z))) \<le> 19" "length (nat_str (nat z)) \<le> 19"
    by (auto intro!: length_nat_str)
  then show ?thesis by (auto simp: int_str_def)
qed

lemma split_on_not_Nil: "split_on c s \<noteq> []"
  by (induction s) (auto split: list.splits)

lemma split_on_no: "c \<notin> set s \<Longrightarrow> split_on c s = [s]"
  by (induction s) auto

lemma split_on_append: "c \<notin> set s \<Longrightarrow> split_on c (s @ c # t) = s # split_on c t"
  by (induction s) auto

lemma split_on_concat:
  "c \<notin> set s \<Longrightarrow> \<forall>d \<in> set ds. c \<notin> set d \<Longrightarrow>
   split_on c (s @ concat (map (\<lambda>d. c # d) ds)) = s # ds"
proof (induction ds arbitrary: s)
  case Nil
  then show ?case by (simp add: split_on_no)
next
  case (Cons d ds)
  then have "split_on c (d @ concat (map (\<lambda>d. c # d) ds)) = d # ds" by simp
  with Cons.prems show ?case by (simp add: split_on_append)
qed

lemma int_str_no_char: "\<not> is_digit c \<Longrightarrow> c \<noteq> CHR ''-'' \<Longrightarrow> c \<notin> set (int_str z)"
  by (simp add: int_str_def nat_str_no_char)

lemma auth_buffer_enough:
  "\<bar>z\<bar> < 10 ^ 19 \<Longrightarrow>
   length (int_str z @ CHR '','' # AUTH_REALM)
     + sum_list (map (\<lambda>d. case d of None \<Rightarrow> 0 | Some t \<Rightarrow> 1 + length t) ds) < auth_dataCap ds"
  using length_int_str [of z] by (simp add: auth_dataCap_def)

lemma authSignToken_eq:
  assumes "\<bar>now + ttl\<bar> < 2 ^ 63"
  shows "authSignToken hmac b64 now secret ttl (Some ds) =
    (let data = auth_data (now + ttl) (auth_descs ds) in
     if zstr secret \<or> ttl \<le> 0 then None
     else case hmac (the secret) data of
            None \<Rightarrow> None
          | Some sig \<Rightarrow> if sig = [] \<or> b64 sig = [] then None else Some (data @ CHR '':'' # b64 sig))"
proof -
  have "\<bar>now + ttl\<bar> < 10 ^ 19" using assms by simp
  from auth_buffer_enough [OF this, of ds]
  have fits: "length (int_str (now + ttl) @ CHR '','' # AUTH_REALM) < auth_dataCap ds"
    and app: "auth_append (auth_dataCap ds) (int_str (now + ttl) @ CHR '','' # AUTH_REALM) ds =
      Some (auth_data (now + ttl) (auth_descs ds))"
    by (auto simp: auth_append_fits auth_data_def)
  show ?thesis
    using fits app by (auto simp: authSignToken_def Let_def split: option.splits)
qed

section \<open>Properties\<close>

text \<open>
  C11: the space \<open>authSignToken\<close> reserves is always enough. For every expiry a \<open>long long\<close>
  can hold, none of its truncation checks fires: the result is NULL exactly for a missing or empty
  secret, a TTL that is not positive, or a failure of HMAC or base64, and otherwise it is the data
  part of the documented format (expiry, realm, the non-empty descriptors in order), a colon and the
  base64 text of the signature of exactly that data part.
\<close>

theorem authSignToken_spec:
  assumes "\<bar>now + ttl\<bar> < 2 ^ 63"
  shows "authSignToken hmac b64 now secret ttl (Some ds) =
    (let data = auth_data (now + ttl) (auth_descs ds) in
     if zstr secret \<or> ttl \<le> 0 then None
     else case hmac (the secret) data of
            None \<Rightarrow> None
          | Some sig \<Rightarrow> if sig = [] \<or> b64 sig = [] then None else Some (data @ CHR '':'' # b64 sig))"
  by (rule authSignToken_eq [OF assms])

theorem authSignToken_spec_witness:
  "authSignToken (\<lambda>k d. Some ''sig'') (\<lambda>s. ''c2ln'') 1000 (Some ''key'') 300
     (Some [Some ''janus.plugin.audiobridge'', None, Some '''', Some ''room=7'']) =
   Some ''1300,janus,janus.plugin.audiobridge,room=7:c2ln''"
proof -
  have "nat_str 1300 = ''1300''" by code_simp
  then show ?thesis
    using authSignToken_spec [of 1000 300 "\<lambda>k d. Some ''sig''" "\<lambda>s. ''c2ln''" "Some ''key''"
        "[Some ''janus.plugin.audiobridge'', None, Some '''', Some ''room=7'']"]
    by (simp add: auth_data_def int_str_def AUTH_REALM_def)
qed

text \<open>
  A token can be read back. When no descriptor contains a comma or a colon, splitting the token
  at its first colon and its data part at the commas gives the expiry time, the realm \<open>janus\<close>,
  the non-empty descriptors in order, and the base64 text of the signature that was computed over the
  data part.
\<close>

theorem authSignToken_roundtrip:
  assumes "authSignToken hmac b64 now secret ttl (Some ds) = Some t"
    and "\<bar>now + ttl\<bar> < 2 ^ 63"
    and "\<forall>d \<in> set (auth_descs ds). CHR '','' \<notin> set d \<and> CHR '':'' \<notin> set d"
  shows "\<exists>sig. hmac (the secret) (auth_data (now + ttl) (auth_descs ds)) = Some sig
     \<and> token_fields t = Some (int_str (now + ttl) # ''janus'' # auth_descs ds, b64 sig)"
proof -
  let ?data = "auth_data (now + ttl) (auth_descs ds)"
  from assms(1) obtain sig where sig: "hmac (the secret) ?data = Some sig"
    and t: "t = ?data @ CHR '':'' # b64 sig"
    by (auto simp: authSignToken_eq [OF assms(2)] Let_def split: if_splits option.splits)
  have colon: "CHR '':'' \<notin> set ?data"
    using assms(3) by (auto simp: auth_data_def AUTH_REALM_def is_digit_def
        dest: int_str_no_char [THEN notE, rotated 2])
  have "split_on CHR '','' ?data = int_str (now + ttl) # AUTH_REALM # auth_descs ds"
    unfolding auth_data_def
    by (rule split_on_concat) (use assms(3) in \<open>auto simp: AUTH_REALM_def is_digit_def
        dest: int_str_no_char [THEN notE, rotated 2]\<close>)
  with colon t sig show ?thesis
    by (simp add: token_fields_def strchr_split_append AUTH_REALM_def)
qed

theorem authSignToken_roundtrip_witness:
  "\<exists>sig. Some ''sig'' = Some sig
     \<and> token_fields ''1300,janus,room=7:c2ln'' = Some ([''1300'', ''janus'', ''room=7''], ''c2ln'')"
proof -
  have n: "nat_str 1300 = ''1300''" by code_simp
  have tok: "authSignToken (\<lambda>k d. Some ''sig'') (\<lambda>s. ''c2ln'') 1000 (Some ''key'') 300
      (Some [Some ''room=7'']) = Some ''1300,janus,room=7:c2ln''"
    by (simp add: authSignToken_def auth_dataCap_def AUTH_REALM_def int_str_def n)
  show ?thesis
    using authSignToken_roundtrip [OF tok] by (simp add: int_str_def n)
qed

end
