(* ===== verification/Cjson.thy ===== *)
theory Cjson
  imports Janus_Prelude
begin

unbundle bit_operations_syntax

text \<open>
  \<open>cJSON.c\<close>: the JSON tree and the operations the module uses on it. The doubly linked list of
  children is a list, the pointer to an item that may be NULL is a \<open>cjson option\<close>, the type
  word with its flag bits is kept as a word. Adding to an object returns the updated object, or
  \<open>None\<close> where the C function returns NULL. Allocation is taken to succeed.

  A \<open>double\<close> is a rational number or an infinity: the module builds numbers from unsigned
  integers and reads numbers that \<open>strtod\<close> produced from digits, signs, points and exponents, so
  no NaN occurs. The conversion from a 64-bit integer rounds to 53 significant bits, half to even; the
  conversion back truncates and is undefined outside the range of the integer type.
\<close>

section \<open>Numbers\<close>

datatype double = DFin rat | DInf bool

definition INT_MAX :: int where "INT_MAX = 2147483647"
definition INT_MIN :: int where "INT_MIN = - 2147483648"

definition trunc_rat :: "rat \<Rightarrow> int" where
  "trunc_rat r = (if 0 \<le> r then \<lfloor>r\<rfloor> else \<lceil>r\<rceil>)"

definition double_to_u64 :: "double \<Rightarrow> janus_id_t cres" where
  "double_to_u64 d = (case d of
     DFin r \<Rightarrow> if - 1 < r \<and> r < 2 ^ 64 then Inr (word_of_int (trunc_rat r)) else Inl FloatRange
   | DInf _ \<Rightarrow> Inl FloatRange)"

fun nbits :: "nat \<Rightarrow> nat" where
  "nbits n = (if n = 0 then 0 else Suc (nbits (n div 2)))"

declare nbits.simps [simp del]

definition round53 :: "nat \<Rightarrow> nat" where
  "round53 n =
     (if n \<le> 2 ^ 53 then n
      else let e = nbits n - 53; q = n div 2 ^ e; r = n mod 2 ^ e; h = 2 ^ (e - 1) in
           (if h < r \<or> (h = r \<and> odd q) then q + 1 else q) * 2 ^ e)"

definition u64_to_double :: "janus_id_t \<Rightarrow> double" where
  "u64_to_double i = DFin (of_nat (round53 (unat i)))"

text \<open>The saturating \<open>valueint\<close> of \<open>parse_number\<close> and \<open>cJSON_CreateNumber\<close>.\<close>

definition valueint_of :: "double \<Rightarrow> int" where
  "valueint_of d = (case d of
     DInf neg \<Rightarrow> if neg then INT_MIN else INT_MAX
   | DFin r \<Rightarrow> if of_int INT_MAX \<le> r then INT_MAX
               else if r \<le> of_int INT_MIN then INT_MIN
               else trunc_rat r)"

section \<open>Items\<close>

datatype cjson =
  CJson (cj_type: "32 word") (valuestring: cstr) (valueint: int) (valuedouble: double)
        (cj_string: cstr) (child: "cjson list")

definition cJSON_Invalid :: "32 word" where "cJSON_Invalid = 0"
definition cJSON_False :: "32 word" where "cJSON_False = 1"
definition cJSON_True :: "32 word" where "cJSON_True = 2"
definition cJSON_NULL :: "32 word" where "cJSON_NULL = 4"
definition cJSON_Number :: "32 word" where "cJSON_Number = 8"
definition cJSON_String :: "32 word" where "cJSON_String = 16"
definition cJSON_Array :: "32 word" where "cJSON_Array = 32"
definition cJSON_Object :: "32 word" where "cJSON_Object = 64"
definition cJSON_Raw :: "32 word" where "cJSON_Raw = 128"
definition cJSON_StringIsConst :: "32 word" where "cJSON_StringIsConst = 512"

lemmas cJSON_types = cJSON_Invalid_def cJSON_False_def cJSON_True_def cJSON_NULL_def
  cJSON_Number_def cJSON_String_def cJSON_Array_def cJSON_Object_def cJSON_Raw_def
  cJSON_StringIsConst_def

definition cJSON_New_Item :: cjson where
  "cJSON_New_Item = CJson cJSON_Invalid None 0 (DFin 0) None []"

definition has_type :: "32 word \<Rightarrow> cjson option \<Rightarrow> bool" where
  "has_type t item = (case item of None \<Rightarrow> False | Some j \<Rightarrow> cj_type j AND 0xFF = t)"

definition cJSON_IsFalse :: "cjson option \<Rightarrow> bool" where
  "cJSON_IsFalse item = has_type cJSON_False item"
definition cJSON_IsTrue :: "cjson option \<Rightarrow> bool" where
  "cJSON_IsTrue item = has_type cJSON_True item"
definition cJSON_IsBool :: "cjson option \<Rightarrow> bool" where
  "cJSON_IsBool item =
     (case item of None \<Rightarrow> False | Some j \<Rightarrow> cj_type j AND (cJSON_True OR cJSON_False) \<noteq> 0)"
definition cJSON_IsNumber :: "cjson option \<Rightarrow> bool" where
  "cJSON_IsNumber item = has_type cJSON_Number item"
definition cJSON_IsString :: "cjson option \<Rightarrow> bool" where
  "cJSON_IsString item = has_type cJSON_String item"
definition cJSON_IsArray :: "cjson option \<Rightarrow> bool" where
  "cJSON_IsArray item = has_type cJSON_Array item"
definition cJSON_IsObject :: "cjson option \<Rightarrow> bool" where
  "cJSON_IsObject item = has_type cJSON_Object item"

lemmas cJSON_Is = cJSON_IsFalse_def cJSON_IsTrue_def cJSON_IsBool_def cJSON_IsNumber_def
  cJSON_IsString_def cJSON_IsArray_def cJSON_IsObject_def has_type_def

lemma cJSON_Is_None [simp]:
  "\<not> cJSON_IsFalse None" "\<not> cJSON_IsTrue None" "\<not> cJSON_IsBool None" "\<not> cJSON_IsNumber None"
  "\<not> cJSON_IsString None" "\<not> cJSON_IsArray None" "\<not> cJSON_IsObject None"
  by (simp_all add: cJSON_Is)

lemma number_not_string: "cJSON_IsNumber item \<Longrightarrow> \<not> cJSON_IsString item"
  by (auto simp: cJSON_Is cJSON_types split: option.splits)

section \<open>Lookup\<close>

definition case_insensitive_strcmp_eq :: "cstr \<Rightarrow> cstr \<Rightarrow> bool" where
  "case_insensitive_strcmp_eq a b =
     (case (a, b) of (Some x, Some y) \<Rightarrow> strcasecmp_eq x y | _ \<Rightarrow> False)"

fun find_cs :: "string \<Rightarrow> cjson list \<Rightarrow> cjson option" where
  "find_cs name [] = None"
| "find_cs name (e # es) =
     (case cj_string e of
        None \<Rightarrow> None
      | Some k \<Rightarrow> if name = k then Some e else find_cs name es)"

fun find_ci :: "string \<Rightarrow> cjson list \<Rightarrow> cjson option" where
  "find_ci name [] = None"
| "find_ci name (e # es) =
     (if case_insensitive_strcmp_eq (Some name) (cj_string e) then Some e else find_ci name es)"

definition get_object_item :: "cjson option \<Rightarrow> cstr \<Rightarrow> bool \<Rightarrow> cjson option" where
  "get_object_item object name case_sensitive =
     (case (object, name) of
        (Some j, Some k) \<Rightarrow> if case_sensitive then find_cs k (child j) else find_ci k (child j)
      | _ \<Rightarrow> None)"

definition cJSON_GetObjectItemCaseSensitive :: "cjson option \<Rightarrow> string \<Rightarrow> cjson option" where
  "cJSON_GetObjectItemCaseSensitive object name = get_object_item object (Some name) True"

abbreviation "getcs \<equiv> cJSON_GetObjectItemCaseSensitive"

lemma getcs_simps [simp]:
  "getcs None k = None"
  "getcs (Some j) k = find_cs k (child j)"
  by (simp_all add: cJSON_GetObjectItemCaseSensitive_def get_object_item_def)

section \<open>Construction\<close>

definition cJSON_CreateObject :: cjson where
  "cJSON_CreateObject = CJson cJSON_Object None 0 (DFin 0) None []"
definition cJSON_CreateFalse :: cjson where
  "cJSON_CreateFalse = CJson cJSON_False None 0 (DFin 0) None []"
definition cJSON_CreateBool :: "bool \<Rightarrow> cjson" where
  "cJSON_CreateBool b = CJson (if b then cJSON_True else cJSON_False) None 0 (DFin 0) None []"
definition cJSON_CreateNumber :: "double \<Rightarrow> cjson" where
  "cJSON_CreateNumber num = CJson cJSON_Number None (valueint_of num) num None []"
definition cJSON_CreateString :: "cstr \<Rightarrow> cjson option" where
  "cJSON_CreateString s =
     map_option (\<lambda>t. CJson cJSON_String (Some t) 0 (DFin 0) None []) s"
definition cJSON_CreateRaw :: "cstr \<Rightarrow> cjson option" where
  "cJSON_CreateRaw s =
     map_option (\<lambda>t. CJson cJSON_Raw (Some t) 0 (DFin 0) None []) s"

fun add_item_to_array :: "cjson option \<Rightarrow> cjson option \<Rightarrow> cjson option" where
  "add_item_to_array (Some (CJson t vs vi vd s cs)) (Some item) = Some (CJson t vs vi vd s (cs @ [item]))"
| "add_item_to_array _ _ = None"

fun set_key :: "32 word \<Rightarrow> cstr \<Rightarrow> cjson \<Rightarrow> cjson" where
  "set_key t' k (CJson t vs vi vd s cs) = CJson t' vs vi vd k cs"

definition add_item_to_object ::
  "cjson option \<Rightarrow> cstr \<Rightarrow> cjson option \<Rightarrow> bool \<Rightarrow> cjson option" where
  "add_item_to_object object name item constant_key =
     (case (object, name, item) of
        (Some j, Some k, Some it) \<Rightarrow>
          (let new_type = (if constant_key then cj_type it OR cJSON_StringIsConst
                           else cj_type it AND NOT cJSON_StringIsConst)
           in add_item_to_array (Some j) (Some (set_key new_type (Some k) it)))
      | _ \<Rightarrow> None)"

definition cJSON_AddItemToObject :: "cjson \<Rightarrow> string \<Rightarrow> cjson \<Rightarrow> cjson" where
  "cJSON_AddItemToObject object name item =
     (case add_item_to_object (Some object) (Some name) (Some item) False of
        None \<Rightarrow> object | Some j \<Rightarrow> j)"
definition cJSON_AddStringToObject :: "cjson \<Rightarrow> string \<Rightarrow> cstr \<Rightarrow> cjson option" where
  "cJSON_AddStringToObject object name s =
     add_item_to_object (Some object) (Some name) (cJSON_CreateString s) False"
definition cJSON_AddRawToObject :: "cjson \<Rightarrow> string \<Rightarrow> cstr \<Rightarrow> cjson option" where
  "cJSON_AddRawToObject object name s =
     add_item_to_object (Some object) (Some name) (cJSON_CreateRaw s) False"
definition cJSON_AddNumberToObject :: "cjson \<Rightarrow> string \<Rightarrow> double \<Rightarrow> cjson option" where
  "cJSON_AddNumberToObject object name num =
     add_item_to_object (Some object) (Some name) (Some (cJSON_CreateNumber num)) False"
definition cJSON_AddBoolToObject :: "cjson \<Rightarrow> string \<Rightarrow> bool \<Rightarrow> cjson option" where
  "cJSON_AddBoolToObject object name b =
     add_item_to_object (Some object) (Some name) (Some (cJSON_CreateBool b)) False"
definition cJSON_AddFalseToObject :: "cjson \<Rightarrow> string \<Rightarrow> cjson option" where
  "cJSON_AddFalseToObject object name =
     add_item_to_object (Some object) (Some name) (Some cJSON_CreateFalse) False"

lemmas cJSON_Create = cJSON_CreateObject_def cJSON_CreateFalse_def cJSON_CreateBool_def
  cJSON_CreateNumber_def cJSON_CreateString_def cJSON_CreateRaw_def
lemmas cJSON_Add = cJSON_AddItemToObject_def cJSON_AddStringToObject_def cJSON_AddRawToObject_def
  cJSON_AddNumberToObject_def cJSON_AddBoolToObject_def cJSON_AddFalseToObject_def

section \<open>Well-formed trees\<close>

text \<open>
  What \<open>cJSON_Parse\<close> and the constructors above guarantee: a string item has its text, the
  children of an object have names, and so for every item below.
\<close>

fun cj_wf :: "cjson \<Rightarrow> bool" where
  "cj_wf (CJson t vs vi vd s cs) \<longleftrightarrow>
     (t AND 0xFF = cJSON_String \<longrightarrow> vs \<noteq> None)
     \<and> (t AND 0xFF = cJSON_Object \<longrightarrow> (\<forall>c \<in> set cs. cj_string c \<noteq> None))
     \<and> (\<forall>c \<in> set cs. cj_wf c)"

lemma cj_wf_string: "cj_wf j \<Longrightarrow> cJSON_IsString (Some j) \<Longrightarrow> \<exists>t. valuestring j = Some t"
  by (cases j) (auto simp: cJSON_Is)

lemma cj_wf_no_text: "cj_wf j \<Longrightarrow> valuestring j = None \<Longrightarrow> \<not> cJSON_IsString (Some j)"
  by (cases j) (auto simp: cJSON_Is)

lemma cj_wf_child: "cj_wf j \<Longrightarrow> c \<in> set (child j) \<Longrightarrow> cj_wf c"
  by (cases j) auto

lemma find_cs_set: "find_cs k cs = Some e \<Longrightarrow> e \<in> set cs \<and> cj_string e = Some k"
  by (induction cs) (auto split: option.splits if_splits)

lemma cj_wf_getcs: "cj_wf j \<Longrightarrow> getcs (Some j) k = Some e \<Longrightarrow> cj_wf e"
  by (auto dest: find_cs_set cj_wf_child)

lemma cj_wf_find_cs: "cj_wf j \<Longrightarrow> find_cs k (child j) = Some e \<Longrightarrow> cj_wf e"
  using cj_wf_getcs by simp

lemma cj_wf_find_string:
  "cj_wf j \<Longrightarrow> find_cs k (child j) = Some e \<Longrightarrow> cJSON_IsString (Some e) \<Longrightarrow> valuestring e \<noteq> None"
  using cj_wf_find_cs cj_wf_string by fastforce

section \<open>An object as a map\<close>

definition all_named :: "cjson \<Rightarrow> bool" where
  "all_named j \<longleftrightarrow> (\<forall>c \<in> set (child j). cj_string c \<noteq> None)"

lemma find_cs_append:
  "\<forall>c \<in> set cs. cj_string c \<noteq> None \<Longrightarrow>
   find_cs k (cs @ ds) = (case find_cs k cs of None \<Rightarrow> find_cs k ds | Some e \<Rightarrow> Some e)"
  by (induction cs) (auto split: option.splits)

lemma child_add_item:
  "add_item_to_object (Some j) (Some k) (Some it) ck = Some j' \<Longrightarrow>
   child j' = child j @ [set_key (if ck then cj_type it OR cJSON_StringIsConst
       else cj_type it AND NOT cJSON_StringIsConst) (Some k) it]"
  by (cases j) (auto simp: add_item_to_object_def Let_def split: if_splits)

lemma cj_string_set_key [simp]: "cj_string (set_key t k j) = k"
  by (cases j) simp

lemma child_set_key [simp]: "child (set_key t k j) = child j"
  by (cases j) simp

lemma valuestring_set_key [simp]: "valuestring (set_key t k j) = valuestring j"
  by (cases j) simp

lemma cj_type_set_key [simp]: "cj_type (set_key t k j) = t"
  by (cases j) simp

lemma add_item_lookup:
  assumes "add_item_to_object (Some j) (Some k) (Some it) ck = Some j'" and "all_named j"
  shows "getcs (Some j') k' =
    (case getcs (Some j) k' of
       Some e \<Rightarrow> Some e
     | None \<Rightarrow> if k' = k then Some (set_key (if ck then cj_type it OR cJSON_StringIsConst
                   else cj_type it AND NOT cJSON_StringIsConst) (Some k) it) else None)"
  using child_add_item [OF assms(1)] assms(2)
  by (auto simp: find_cs_append all_named_def split: option.splits)

lemma add_item_named:
  "add_item_to_object (Some j) (Some k) (Some it) ck = Some j' \<Longrightarrow> all_named j \<Longrightarrow> all_named j'"
  by (auto simp: all_named_def dest!: child_add_item)

lemma add_item_succeeds: "\<exists>j'. add_item_to_object (Some j) (Some k) (Some it) ck = Some j'"
  by (cases j) (simp add: add_item_to_object_def)

section \<open>Building an object step by step\<close>

text \<open>
  Every \<open>cJSON_Add\<dots>ToObject\<close> call appends one named item, so that an object under construction is
  the list of the items pushed so far.
\<close>

fun push :: "cjson \<Rightarrow> cjson \<Rightarrow> cjson" where
  "push (CJson t vs vi vd s cs) it = CJson t vs vi vd s (cs @ [it])"

definition str_item :: "string \<Rightarrow> string \<Rightarrow> cjson" where
  "str_item k s = CJson cJSON_String (Some s) 0 (DFin 0) (Some k) []"
definition raw_item :: "string \<Rightarrow> string \<Rightarrow> cjson" where
  "raw_item k s = CJson cJSON_Raw (Some s) 0 (DFin 0) (Some k) []"
definition num_item :: "string \<Rightarrow> double \<Rightarrow> cjson" where
  "num_item k d = CJson cJSON_Number None (valueint_of d) d (Some k) []"
definition bool_item :: "string \<Rightarrow> bool \<Rightarrow> cjson" where
  "bool_item k b = CJson (if b then cJSON_True else cJSON_False) None 0 (DFin 0) (Some k) []"
definition named :: "string \<Rightarrow> cjson \<Rightarrow> cjson" where
  "named k j = set_key (cj_type j AND NOT cJSON_StringIsConst) (Some k) j"

lemma push_sel [simp]:
  "child (push j it) = child j @ [it]"
  "cj_type (push j it) = cj_type j"
  "cj_string (push j it) = cj_string j"
  "valuestring (push j it) = valuestring j"
  by (cases j; simp)+

lemma item_sel [simp]:
  "cj_string (str_item k s) = Some k" "valuestring (str_item k s) = Some s"
  "cj_string (raw_item k s) = Some k" "valuestring (raw_item k s) = Some s"
  "cj_string (num_item k d) = Some k" "valuedouble (num_item k d) = d"
  "cj_string (bool_item k b) = Some k" "cj_string (named k j) = Some k"
  "child (named k j) = child j" "valuestring (named k j) = valuestring j"
  "child cJSON_CreateObject = []" "child (str_item k s) = []"
  by (simp_all add: str_item_def raw_item_def num_item_def bool_item_def named_def
      cJSON_CreateObject_def)

lemma item_types [simp]:
  "cJSON_IsString (Some (str_item k s))"
  "cJSON_IsNumber (Some (num_item k d))"
  "cJSON_IsTrue (Some (bool_item k b)) \<longleftrightarrow> b"
  "\<not> cJSON_IsNumber (Some (str_item k s))"
  "\<not> cJSON_IsString (Some (num_item k d))"
  "\<not> cJSON_IsString (Some (bool_item k b))"
  by (simp_all add: cJSON_Is cJSON_types str_item_def num_item_def bool_item_def)

lemma add_to_object_push [simp]:
  "cJSON_AddStringToObject j k None = None"
  "cJSON_AddStringToObject j k (Some s) = Some (push j (str_item k s))"
  "cJSON_AddRawToObject j k (Some s) = Some (push j (raw_item k s))"
  "cJSON_AddNumberToObject j k d = Some (push j (num_item k d))"
  "cJSON_AddBoolToObject j k b = Some (push j (bool_item k b))"
  "cJSON_AddFalseToObject j k = Some (push j (bool_item k False))"
  "cJSON_AddItemToObject j k it = push j (named k it)"
  by (cases j; simp add: cJSON_Add cJSON_Create add_item_to_object_def cJSON_types str_item_def
      raw_item_def num_item_def bool_item_def named_def)+

text \<open>The text of a named string member, NULL when there is none.\<close>

definition jstr :: "cjson \<Rightarrow> string \<Rightarrow> cstr" where
  "jstr j k = (case getcs (Some j) k of
     None \<Rightarrow> None | Some e \<Rightarrow> if cJSON_IsString (Some e) then valuestring e else None)"

section \<open>Exactness of numbers\<close>

lemma trunc_rat_of_nat [simp]: "trunc_rat (of_nat n) = int n"
  by (simp add: trunc_rat_def)

lemma round53_exact: "n \<le> 2 ^ 53 \<Longrightarrow> round53 n = n"
  by (simp add: round53_def)

lemma round53_first_inexact: "round53 (2 ^ 53 + 1) = 2 ^ 53"
proof -
  have "nbits 9007199254740993 = 54" by (simp add: nbits.simps)
  then show ?thesis by (simp add: round53_def Let_def)
qed

lemma double_to_u64_nat:
  assumes "n < 2 ^ 64"
  shows "double_to_u64 (DFin (of_nat n)) = Inr (of_nat n)"
proof -
  have "(of_nat n :: rat) < of_nat (2 ^ 64)"
    using assms of_nat_less_iff by blast
  then have "(of_nat n :: rat) < 2 ^ 64" by simp
  moreover have "- 1 < (of_nat n :: rat)"
    by (rule less_le_trans [of _ 0]) simp_all
  ultimately show ?thesis by (simp add: double_to_u64_def)
qed

lemma double_u64_exact: "unat i \<le> 2 ^ 53 \<Longrightarrow> double_to_u64 (u64_to_double i) = Inr i"
  using double_to_u64_nat [of "unat i"] by (simp add: u64_to_double_def round53_exact)

end
