(* ===== verification/Message.thy ===== *)
theory Message
  imports Auth Cjson "HOL-Library.Monad_Syntax"
begin

unbundle bit_operations_syntax

text \<open>
  The first part of \<open>api.c\<close>: the message structure, \<open>encode\<close>, which turns a request into a
  JSON object, and \<open>decode\<close>, which reads a response or an event. \<open>encode\<close> returns
  \<open>None\<close> where the C function returns NULL; next to the object it returns the token it hands to
  the caller through \<open>pSignedTokenOut\<close>. Its parameter \<open>sign\<close> stands for the call of
  \<open>authSignToken\<close>, so that it is used with \<open>authSignToken hmac b64 now\<close>. The result of
  \<open>decode\<close> is \<open>Inr None\<close> for NULL and \<open>Inl\<close> for undefined behaviour, which a
  response can provoke with a number outside the range of a 64-bit identifier.

  Allocation may fail. The parameter \<open>M\<close> of type \<open>memory\<close> says for each object of a request and each member of it
  whether the allocations for it succeed; every member is added at most once, so that this covers every way in
  which they can fail. \<open>encode\<close> is \<open>encode_with\<close> when memory is plentiful.
\<close>

definition JANUS_STRING :: string where "JANUS_STRING = ''janus''"
definition JANUS_PLUGIN :: string where "JANUS_PLUGIN = ''janus.plugin.audiobridge''"
definition MAX_TOKEN_DESCRIPTORS :: nat where "MAX_TOKEN_DESCRIPTORS = 4"
definition API_HMAC_DEFAULT_CALL_TTL :: int where "API_HMAC_DEFAULT_CALL_TTL = 7200"
definition API_HMAC_DEFAULT_LIFECYCLE_TTL :: int where "API_HMAC_DEFAULT_LIFECYCLE_TTL = 300"

record message_t =
  m_pType :: cstr
  m_serverId :: janus_id_t
  m_pTransactionId :: cstr
  m_opaqueId :: cstr
  m_senderId :: janus_id_t
  m_isPlugin :: bool
  m_pSecret :: cstr
  m_pHmacSecret :: cstr
  m_hmacTokenTtl :: int
  m_pExtraDescriptors :: "cstr list"
  m_pSignedTokenOut :: bool
  m_pJsonBody :: "cjson option"
  m_pJsonJsep :: "cjson option"
  m_pCandidate :: cstr

text \<open>A message after \<open>memset\<close> or \<open>switch_zmalloc\<close>.\<close>

definition zero_message :: message_t where
  "zero_message = \<lparr>m_pType = None, m_serverId = 0, m_pTransactionId = None, m_opaqueId = None,
     m_senderId = 0, m_isPlugin = False, m_pSecret = None, m_pHmacSecret = None, m_hmacTokenTtl = 0,
     m_pExtraDescriptors = [], m_pSignedTokenOut = False, m_pJsonBody = None, m_pJsonJsep = None,
     m_pCandidate = None\<rparr>"

section \<open>encode\<close>

fun encode_descriptors :: "cstr list \<Rightarrow> cstr list \<Rightarrow> cstr list" where
  "encode_descriptors acc [] = acc"
| "encode_descriptors acc (e # es) =
     (if length acc \<le> MAX_TOKEN_DESCRIPTORS
      then encode_descriptors (if zstr e then acc else acc @ [e]) es
      else acc)"

datatype json_part = Request | Body | Jsep

type_synonym memory = "json_part \<Rightarrow> cstr \<Rightarrow> bool"

definition plenty :: memory where
  "plenty part k = True"

definition new_object :: "memory \<Rightarrow> json_part \<Rightarrow> cjson option" where
  "new_object M part = (if M part None then Some cJSON_CreateObject else None)"

definition if_memory :: "memory \<Rightarrow> json_part \<Rightarrow> string \<Rightarrow> cjson option \<Rightarrow> cjson option" where
  "if_memory M part k r = (if M part (Some k) then r else None)"

definition add_opt_string :: "memory \<Rightarrow> json_part \<Rightarrow> cjson \<Rightarrow> string \<Rightarrow> cstr \<Rightarrow> cjson option" where
  "add_opt_string M part j k s =
     (case s of None \<Rightarrow> Some j | Some _ \<Rightarrow> if_memory M part k (cJSON_AddStringToObject j k s))"

type_synonym signer = "cstr \<Rightarrow> int \<Rightarrow> cstr list option \<Rightarrow> cstr"

definition message_token :: "signer \<Rightarrow> message_t \<Rightarrow> cstr" where
  "message_token sign m =
     sign (m_pHmacSecret m)
       (if m_hmacTokenTtl m > 0 then m_hmacTokenTtl m else API_HMAC_DEFAULT_LIFECYCLE_TTL)
       (Some (encode_descriptors [Some JANUS_PLUGIN] (m_pExtraDescriptors m)))"

definition encode_token :: "memory \<Rightarrow> signer \<Rightarrow> message_t \<Rightarrow> cjson \<Rightarrow> (cjson \<times> cstr) option" where
  "encode_token M sign m j =
     (if m_pHmacSecret m = None then Some (j, None)
      else case message_token sign m of
             None \<Rightarrow> None
           | Some t \<Rightarrow>
               (case if_memory M Request ''token'' (cJSON_AddStringToObject j ''token'' (Some t)) of
                  None \<Rightarrow> None
                | Some j' \<Rightarrow> Some (j', if m_pSignedTokenOut m then Some t else None)))"

text \<open>A body or jsep object whose name cannot be allocated is left out without an error.\<close>

definition link_part :: "memory \<Rightarrow> cjson \<Rightarrow> string \<Rightarrow> cjson option \<Rightarrow> cjson" where
  "link_part M j k part =
     (case part of None \<Rightarrow> j | Some b \<Rightarrow> if M Request (Some k) then cJSON_AddItemToObject j k b else j)"

definition encode_with :: "memory \<Rightarrow> signer \<Rightarrow> message_t \<Rightarrow> (cjson \<times> cstr) option" where
  "encode_with M sign m = do {
     j \<leftarrow> new_object M Request;
     j \<leftarrow> if_memory M Request JANUS_STRING (cJSON_AddStringToObject j JANUS_STRING (m_pType m));
     j \<leftarrow> add_opt_string M Request j ''transaction'' (m_pTransactionId m);
     j \<leftarrow> add_opt_string M Request j ''apisecret'' (m_pSecret m);
     (j, token) \<leftarrow> encode_token M sign m j;
     j \<leftarrow> add_opt_string M Request j ''opaque_id'' (m_opaqueId m);
     j \<leftarrow> (if m_isPlugin m
          then if_memory M Request ''plugin'' (cJSON_AddStringToObject j ''plugin'' (Some JANUS_PLUGIN)) else Some j);
     j \<leftarrow> Some (link_part M j ''body'' (m_pJsonBody m));
     j \<leftarrow> Some (link_part M j ''jsep'' (m_pJsonJsep m));
     Some (j, token)
   }"

definition encode :: "signer \<Rightarrow> message_t \<Rightarrow> (cjson \<times> cstr) option" where
  "encode sign m = encode_with plenty sign m"

section \<open>decode\<close>

definition decode_candidate :: "cjson \<Rightarrow> cstr option" where
  "decode_candidate c =
     (case getcs (Some c) ''completed'' of
        Some d \<Rightarrow> if \<not> cJSON_IsBool (Some d) \<or> cJSON_IsFalse (Some d) then None else Some (Some '''')
      | None \<Rightarrow>
          (case getcs (Some c) ''candidate'' of
             Some d \<Rightarrow> if \<not> cJSON_IsString (Some d) then None else Some (valuestring d)
           | None \<Rightarrow> Some None))"

definition decode_plugindata :: "cjson \<Rightarrow> (cjson option \<times> cstr) option cres" where
  "decode_plugindata pd =
     (if cJSON_IsObject (Some pd) then
        (case getcs (Some pd) ''plugin'' of
           None \<Rightarrow> Inr None
         | Some p \<Rightarrow>
             if \<not> cJSON_IsString (Some p) then Inr None
             else cbind (deref (valuestring p)) (\<lambda>s.
               if s \<noteq> JANUS_PLUGIN then Inr None
               else let b = getcs (Some pd) ''data'' in
                    if \<not> cJSON_IsObject b then Inr None else Inr (Some (b, None))))
      else Inr None)"

definition decode_body :: "cjson \<Rightarrow> (cjson option \<times> cstr) option cres" where
  "decode_body j =
     (case getcs (Some j) ''data'' of
        Some b \<Rightarrow> if \<not> cJSON_IsObject (Some b) then Inr None else Inr (Some (Some b, None))
      | None \<Rightarrow>
          (case getcs (Some j) ''plugindata'' of
             Some pd \<Rightarrow> decode_plugindata pd
           | None \<Rightarrow>
               (case getcs (Some j) ''candidate'' of
                  Some c \<Rightarrow>
                    if cJSON_IsObject (Some c)
                    then Inr (map_option (\<lambda>cand. (None, cand)) (decode_candidate c))
                    else Inr None
                | None \<Rightarrow> Inr (Some (None, None)))))"

definition decode_str :: "cjson option \<Rightarrow> cstr option" where
  "decode_str item =
     (case item of
        None \<Rightarrow> Some None
      | Some s \<Rightarrow> if \<not> cJSON_IsString (Some s) then None else Some (valuestring s))"

definition decode_id :: "cjson option \<Rightarrow> janus_id_t option cres" where
  "decode_id item =
     (case item of
        None \<Rightarrow> Inr (Some 0)
      | Some n \<Rightarrow> if \<not> cJSON_IsNumber (Some n) then Inr None
                  else cbind (double_to_u64 (valuedouble n)) (\<lambda>i. Inr (Some i)))"

text \<open>\<open>nbind\<close> sequences the steps of \<open>decode\<close>: a NULL result returns at once.\<close>

definition nbind :: "'a option cres \<Rightarrow> ('a \<Rightarrow> 'b option cres) \<Rightarrow> 'b option cres" where
  "nbind x f = cbind x (\<lambda>v. case v of None \<Rightarrow> Inr None | Some a \<Rightarrow> f a)"

definition decode :: "cjson option \<Rightarrow> message_t option cres" where
  "decode pJsonResponse =
     (case pJsonResponse of
        None \<Rightarrow> Inr None
      | Some j \<Rightarrow>
          nbind (decode_body j) (\<lambda>(body, cand).
            let jsep = getcs (Some j) ''jsep'' in
            if jsep \<noteq> None \<and> \<not> cJSON_IsObject jsep then Inr None
            else nbind (Inr (decode_str (getcs (Some j) JANUS_STRING))) (\<lambda>ty.
                 nbind (Inr (decode_str (getcs (Some j) ''transaction''))) (\<lambda>txn.
                 nbind (decode_id (getcs (Some j) ''session_id'')) (\<lambda>sid.
                 nbind (decode_id (getcs (Some j) ''sender'')) (\<lambda>snd.
                   Inr (Some (zero_message\<lparr>m_pType := ty, m_serverId := sid,
                     m_pTransactionId := txn, m_senderId := snd, m_pJsonBody := body,
                     m_pJsonJsep := jsep, m_pCandidate := cand\<rparr>))))))))"

lemma nbind_simps [simp]:
  "nbind (Inl e) f = Inl e"
  "nbind (Inr None) f = Inr None"
  "nbind (Inr (Some a)) f = f a"
  by (simp_all add: nbind_def)

lemma nbind_Some_iff: "nbind x f = Inr (Some b) \<longleftrightarrow> (\<exists>a. x = Inr (Some a) \<and> f a = Inr (Some b))"
  by (cases x) (auto simp: nbind_def split: option.splits)

section \<open>What an encoded request holds\<close>

definition opt_item :: "string \<Rightarrow> cstr \<Rightarrow> cjson list" where
  "opt_item k s = (case s of None \<Rightarrow> [] | Some t \<Rightarrow> [str_item k t])"

definition opt_named :: "string \<Rightarrow> cjson option \<Rightarrow> cjson list" where
  "opt_named k b = (case b of None \<Rightarrow> [] | Some j \<Rightarrow> [named k j])"

definition request_token :: "signer \<Rightarrow> message_t \<Rightarrow> cstr" where
  "request_token sign m = (if m_pHmacSecret m = None then None else message_token sign m)"

definition request_items :: "signer \<Rightarrow> message_t \<Rightarrow> cjson list" where
  "request_items sign m =
     opt_item JANUS_STRING (m_pType m) @ opt_item ''transaction'' (m_pTransactionId m)
     @ opt_item ''apisecret'' (m_pSecret m) @ opt_item ''token'' (request_token sign m)
     @ opt_item ''opaque_id'' (m_opaqueId m)
     @ opt_item ''plugin'' (if m_isPlugin m then Some JANUS_PLUGIN else None)
     @ opt_named ''body'' (m_pJsonBody m) @ opt_named ''jsep'' (m_pJsonJsep m)"

definition encodable :: "signer \<Rightarrow> message_t \<Rightarrow> bool" where
  "encodable sign m \<longleftrightarrow>
     m_pType m \<noteq> None \<and> (m_pHmacSecret m = None \<or> message_token sign m \<noteq> None)"

fun push_all :: "cjson \<Rightarrow> cjson list \<Rightarrow> cjson" where
  "push_all j [] = j"
| "push_all j (it # its) = push_all (push j it) its"

lemma push_all_append: "push_all j (xs @ ys) = push_all (push_all j xs) ys"
  by (induction xs arbitrary: j) auto

lemma child_push_all [simp]: "child (push_all j its) = child j @ its"
  by (induction its arbitrary: j) auto

lemma cj_type_push_all [simp]: "cj_type (push_all j its) = cj_type j"
  by (induction its arbitrary: j) auto

lemma plenty_simps [simp]: "plenty part k" "new_object plenty part = Some cJSON_CreateObject" "if_memory plenty part l r = r"
  by (simp_all add: plenty_def new_object_def if_memory_def)

lemma add_opt_string_eq:
  "add_opt_string M part j k s = (if s = None \<or> M part (Some k) then Some (push_all j (opt_item k s)) else None)"
  by (cases s) (simp_all add: add_opt_string_def opt_item_def if_memory_def)

lemma encode_token_eq:
  "encode_token M sign m j =
     (if m_pHmacSecret m = None \<or> message_token sign m \<noteq> None \<and> M Request (Some ''token'')
      then Some (push_all j (opt_item ''token'' (request_token sign m)),
                 if m_pSignedTokenOut m then request_token sign m else None)
      else None)"
  by (auto simp: encode_token_def opt_item_def request_token_def if_memory_def split: option.splits)

definition linked :: "memory \<Rightarrow> message_t \<Rightarrow> message_t" where
  "linked M m = m\<lparr>m_pJsonBody := (if M Request (Some ''body'') then m_pJsonBody m else None),
     m_pJsonJsep := (if M Request (Some ''jsep'') then m_pJsonJsep m else None)\<rparr>"

definition request_memory :: "memory \<Rightarrow> message_t \<Rightarrow> bool" where
  "request_memory M m \<longleftrightarrow> M Request None \<and> M Request (Some ''janus'')
     \<and> (m_pTransactionId m \<noteq> None \<longrightarrow> M Request (Some ''transaction'')) \<and> (m_pSecret m \<noteq> None \<longrightarrow> M Request (Some ''apisecret''))
     \<and> (m_pHmacSecret m \<noteq> None \<longrightarrow> M Request (Some ''token'')) \<and> (m_opaqueId m \<noteq> None \<longrightarrow> M Request (Some ''opaque_id''))
     \<and> (m_isPlugin m \<longrightarrow> M Request (Some ''plugin''))"

lemma linked_token [simp]:
  "message_token sign (linked M m) = message_token sign m" "request_token sign (linked M m) = request_token sign m"
  "encodable sign (linked M m) = encodable sign m" "m_pSignedTokenOut (linked M m) = m_pSignedTokenOut m"
  unfolding linked_def request_token_def message_token_def encodable_def by simp_all

lemma encode_with_items:
  "encode_with M sign m =
     (if request_memory M m \<and> encodable sign m
      then Some (push_all cJSON_CreateObject (request_items sign (linked M m)),
                 if m_pSignedTokenOut m then request_token sign m else None)
      else None)"
proof -
  have part: "link_part M j k b = push_all j (opt_named k (if M Request (Some k) then b else None))" for j k b
    by (cases b) (simp_all add: link_part_def opt_named_def)
  have plug: "(if m_isPlugin m then if_memory M Request ''plugin'' (cJSON_AddStringToObject j ''plugin'' (Some JANUS_PLUGIN)) else Some j)
      = (if \<not> m_isPlugin m \<or> M Request (Some ''plugin'')
         then Some (push_all j (opt_item ''plugin'' (if m_isPlugin m then Some JANUS_PLUGIN else None))) else None)" for j
    by (simp add: opt_item_def if_memory_def)
  have janus: "if_memory M Request JANUS_STRING (cJSON_AddStringToObject j JANUS_STRING (m_pType m)) =
      (if m_pType m = None \<or> \<not> M Request (Some ''janus'') then None
       else Some (push_all j (opt_item JANUS_STRING (m_pType m))))" for j
    by (cases "m_pType m") (simp_all add: opt_item_def if_memory_def JANUS_STRING_def)
  have items: "request_items sign (linked M m) = opt_item JANUS_STRING (m_pType m) @ opt_item ''transaction'' (m_pTransactionId m)
     @ opt_item ''apisecret'' (m_pSecret m) @ opt_item ''token'' (request_token sign m) @ opt_item ''opaque_id'' (m_opaqueId m)
     @ opt_item ''plugin'' (if m_isPlugin m then Some JANUS_PLUGIN else None)
     @ opt_named ''body'' (if M Request (Some ''body'') then m_pJsonBody m else None)
     @ opt_named ''jsep'' (if M Request (Some ''jsep'') then m_pJsonJsep m else None)"
    unfolding request_items_def linked_token by (simp add: linked_def)
  show ?thesis
  proof (cases "request_memory M m \<and> encodable sign m")
    case True
    then have c: "M Request None" "m_pType m \<noteq> None" "M Request (Some ''janus'')"
      "m_pTransactionId m = None \<or> M Request (Some ''transaction'')" "m_pSecret m = None \<or> M Request (Some ''apisecret'')"
      "m_pHmacSecret m = None \<or> message_token sign m \<noteq> None \<and> M Request (Some ''token'')"
      "m_opaqueId m = None \<or> M Request (Some ''opaque_id'')" "\<not> m_isPlugin m \<or> M Request (Some ''plugin'')"
      by (auto simp: request_memory_def encodable_def)
    show ?thesis
      unfolding encode_with_def part plug janus new_object_def add_opt_string_eq encode_token_eq if_P [OF c(1)] if_P [OF c(4)]
        if_P [OF c(5)] if_P [OF c(6)] if_P [OF c(7)] if_P [OF c(8)]
      using c(2,3) True items
      by (simp only: push_all_append if_False simp_thms if_True Option.bind.simps prod.case HOL.not_not)
  next
    case False
    have "request_memory M m \<and> encodable sign m" if "encode_with M sign m = Some r" for r
      using that unfolding encode_with_def part plug janus new_object_def add_opt_string_eq encode_token_eq
      by (auto simp: bind_eq_Some_conv request_memory_def encodable_def simp del: not_None_eq split: if_splits)
    then have "encode_with M sign m = None" using False by (cases "encode_with M sign m") auto
    then show ?thesis using False by simp
  qed
qed

lemma linked_plenty [simp]: "linked plenty m = m"
  by (simp add: linked_def)

lemma encode_eq:
  "encode sign m =
     (if encodable sign m
      then Some (push_all cJSON_CreateObject (request_items sign m),
                 if m_pSignedTokenOut m then request_token sign m else None)
      else None)"
  by (simp add: encode_def encode_with_items request_memory_def)

text \<open>What memory decides: whether there is a request, and whether its body and jsep are linked into it.\<close>

lemma encode_with_eq: "encode_with M sign m = (if request_memory M m then encode sign (linked M m) else None)"
  by (simp add: encode_with_items encode_eq)

lemma find_cs_opt_item [simp]:
  "find_cs k (opt_item k' s @ cs) =
     (if k' = k \<and> s \<noteq> None then map_option (str_item k) s else find_cs k cs)"
  by (cases s) (simp_all add: opt_item_def)

lemma find_cs_opt_item_end [simp]:
  "find_cs k (opt_item k' s) = (if k' = k then map_option (str_item k) s else None)"
  by (cases s) (simp_all add: opt_item_def)

lemma find_cs_opt_named [simp]:
  "find_cs k (opt_named k' b @ cs) =
     (if k' = k \<and> b \<noteq> None then map_option (named k) b else find_cs k cs)"
  by (cases b) (simp_all add: opt_named_def)

lemma find_cs_opt_named_end [simp]:
  "find_cs k (opt_named k' b) = (if k' = k then map_option (named k) b else None)"
  by (cases b) (simp_all add: opt_named_def)

lemma encode_descriptors_bounded:
  "length acc \<le> Suc MAX_TOKEN_DESCRIPTORS \<Longrightarrow>
   length (encode_descriptors acc es) \<le> Suc MAX_TOKEN_DESCRIPTORS"
  by (induction acc es rule: encode_descriptors.induct) auto

lemma encode_descriptors_few:
  "length acc + length es \<le> Suc MAX_TOKEN_DESCRIPTORS \<Longrightarrow>
   encode_descriptors acc es = acc @ filter (\<lambda>e. \<not> zstr e) es"
  by (induction acc es rule: encode_descriptors.induct) auto

section \<open>What a decoded message guarantees\<close>

definition is_object_or_null :: "cjson option \<Rightarrow> bool" where
  "is_object_or_null b \<longleftrightarrow> b = None \<or> cJSON_IsObject b"

lemma decode_str_Some:
  "decode_str (getcs (Some j) k) = Some s \<Longrightarrow> s = jstr j k"
  by (auto simp: decode_str_def jstr_def split: option.splits if_splits)

lemma decode_plugindata_Some:
  assumes "decode_plugindata pd = Inr (Some (b, cand))"
  shows "cJSON_IsObject b \<and> cand = None \<and> jstr pd ''plugin'' = Some JANUS_PLUGIN"
  using assms
  by (auto simp: decode_plugindata_def Let_def cbind_Inr_iff jstr_def split: if_splits option.splits)

lemma decode_body_Some:
  assumes "decode_body j = Inr (Some (b, cand))"
  shows "is_object_or_null b \<and> (b \<noteq> None \<longrightarrow> cand = None)"
  using assms
  by (auto simp: decode_body_def is_object_or_null_def split: option.splits if_splits
      dest: decode_plugindata_Some)

lemma decode_body_plugin:
  assumes "decode_body j = Inr (Some (b, cand))" and "getcs (Some j) ''data'' = None"
    and "getcs (Some j) ''plugindata'' = Some pd"
  shows "jstr pd ''plugin'' = Some JANUS_PLUGIN \<and> cJSON_IsObject b"
  using assms by (auto simp: decode_body_def dest: decode_plugindata_Some)

lemma decode_SomeD:
  assumes "decode (Some j) = Inr (Some m)"
  obtains body cand where "decode_body j = Inr (Some (body, cand))"
    and "m_pJsonBody m = body" and "m_pCandidate m = cand"
    and "m_pJsonJsep m = getcs (Some j) ''jsep''" and "is_object_or_null (getcs (Some j) ''jsep'')"
    and "decode_str (getcs (Some j) JANUS_STRING) = Some (m_pType m)"
    and "decode_str (getcs (Some j) ''transaction'') = Some (m_pTransactionId m)"
    and "decode_id (getcs (Some j) ''session_id'') = Inr (Some (m_serverId m))"
    and "decode_id (getcs (Some j) ''sender'') = Inr (Some (m_senderId m))"
  using assms
  by (auto simp: decode_def nbind_Some_iff Let_def is_object_or_null_def split: if_splits)

lemma decode_plugindata_no_ub: "cj_wf pd \<Longrightarrow> decode_plugindata pd \<noteq> Inl e"
  by (auto simp: decode_plugindata_def Let_def cbind_Inl_iff split: option.splits if_splits
      dest: cj_wf_find_string)

lemma decode_body_no_ub: "cj_wf j \<Longrightarrow> decode_body j \<noteq> Inl e"
  by (auto simp: decode_body_def decode_plugindata_no_ub split: option.splits
      dest: cj_wf_find_cs)

lemma decode_id_ub:
  "decode_id item = Inl e \<Longrightarrow>
   \<exists>n. item = Some n \<and> cJSON_IsNumber (Some n) \<and> double_to_u64 (valuedouble n) = Inl e"
  by (auto simp: decode_id_def cbind_Inl_iff split: option.splits if_splits)

lemma double_to_u64_Inl: "double_to_u64 d = Inl e \<Longrightarrow> e = FloatRange"
  by (auto simp: double_to_u64_def split: double.splits if_splits)

lemma nbind_Inl_iff: "nbind x f = Inl e \<longleftrightarrow> x = Inl e \<or> (\<exists>a. x = Inr (Some a) \<and> f a = Inl e)"
  by (cases x) (auto simp: nbind_def split: option.splits)

section \<open>Properties\<close>

definition opt_name :: "bool \<Rightarrow> string \<Rightarrow> string list" where
  "opt_name b k = (if b then [k] else [])"

definition request_names :: "message_t \<Rightarrow> string list" where
  "request_names m = ''janus'' # opt_name (m_pTransactionId m \<noteq> None) ''transaction'' @ opt_name (m_pSecret m \<noteq> None) ''apisecret''
     @ opt_name (m_pHmacSecret m \<noteq> None) ''token'' @ opt_name (m_opaqueId m \<noteq> None) ''opaque_id''
     @ opt_name (m_isPlugin m) ''plugin'' @ opt_name (m_pJsonBody m \<noteq> None) ''body'' @ opt_name (m_pJsonJsep m \<noteq> None) ''jsep''"

lemma set_opt_name [simp]: "set (opt_name b k) = {x. b \<and> x = k}"
  by (simp add: opt_name_def)

lemma map_name_opt:
  "map cj_string (opt_item k s) = map Some (opt_name (s \<noteq> None) k)"
  "map cj_string (opt_named k b) = map Some (opt_name (b \<noteq> None) k)"
  by (cases s; simp add: opt_item_def opt_name_def str_item_def) (cases b; simp add: opt_named_def opt_name_def named_def)

text \<open>
  C1: what an encoded request holds. When \<open>encode\<close> succeeds, the object it returns has exactly the members
  \<open>janus\<close>, \<open>transaction\<close>, \<open>apisecret\<close>, \<open>token\<close>, \<open>opaque_id\<close>, \<open>plugin\<close>, \<open>body\<close> and \<open>jsep\<close>, each once, in this
  order, and each only when its field is set; the texts are those of the message, \<open>token\<close> is the freshly
  signed token in signing mode, the body and jsep trees are unchanged but for their names; the token handed back
  through \<open>pSignedTokenOut\<close> is the one that was sent. Nothing else of the structure is sent: the session and the
  handle of a request travel in its URL or are added by the WebSocket transport.
\<close>

theorem encode_fields:
  assumes "encode sign m = Some (j, tok)"
  shows "map cj_string (child j) = map Some (request_names m)
    \<and> jstr j ''janus'' = m_pType m
    \<and> jstr j ''transaction'' = m_pTransactionId m
    \<and> jstr j ''apisecret'' = m_pSecret m
    \<and> jstr j ''token'' = (if m_pHmacSecret m = None then None else message_token sign m)
    \<and> jstr j ''opaque_id'' = m_opaqueId m
    \<and> jstr j ''plugin'' = (if m_isPlugin m then Some ''janus.plugin.audiobridge'' else None)
    \<and> getcs (Some j) ''body'' = map_option (named ''body'') (m_pJsonBody m)
    \<and> getcs (Some j) ''jsep'' = map_option (named ''jsep'') (m_pJsonJsep m)
    \<and> tok = (if m_pSignedTokenOut m then jstr j ''token'' else None)"
proof -
  have j: "child j = request_items sign m"
    and tok: "tok = (if m_pSignedTokenOut m then request_token sign m else None)" and e: "encodable sign m"
    using assms by (auto simp: encode_eq split: if_splits)
  have "map cj_string (child j) = map Some (request_names m)"
  proof -
    have "opt_name (m_pType m \<noteq> None) JANUS_STRING = [''janus'']" "request_token sign m \<noteq> None \<longleftrightarrow> m_pHmacSecret m \<noteq> None"
      using e by (auto simp: encodable_def opt_name_def request_token_def JANUS_STRING_def)
    then show ?thesis unfolding j request_items_def map_append map_name_opt request_names_def by (simp del: not_None_eq)
  qed
  then show ?thesis
    unfolding tok jstr_def getcs_simps j request_items_def
    by (auto simp: JANUS_STRING_def JANUS_PLUGIN_def request_token_def split: option.splits)
qed

theorem encode_fields_witness:
  "\<exists>j. encode (\<lambda>_ _ _. Some ''1300,janus:x'')
       (zero_message\<lparr>m_pType := Some ''create'', m_pTransactionId := Some ''t1'',
          m_pHmacSecret := Some ''k''\<rparr>) = Some (j, None)
     \<and> jstr j ''janus'' = Some ''create'' \<and> jstr j ''token'' = Some ''1300,janus:x''"
proof -
  let ?m = "zero_message\<lparr>m_pType := Some ''create'', m_pTransactionId := Some ''t1'',
          m_pHmacSecret := Some ''k''\<rparr>"
  let ?s = "\<lambda>_ _ _. Some ''1300,janus:x''"
  have enc: "encode ?s ?m = Some (push_all cJSON_CreateObject (request_items ?s ?m), None)"
    by (simp add: encode_eq encodable_def message_token_def zero_message_def)
  show ?thesis
    using encode_fields [OF enc] enc by (auto simp: zero_message_def message_token_def)
qed

text \<open>
  C2: when \<open>encode\<close> returns NULL. It does so exactly when the message has no type, when the token of a signing server
  cannot be signed, or when an allocation fails: that of the request object or that of a member it has to add, the
  body and the jsep excepted. So in signing mode no request leaves without its token. A body or jsep whose name
  cannot be allocated is no error: the request is returned without it.
\<close>

theorem encode_fails_iff:
  "(encode_with M sign m = None \<longleftrightarrow>
     m_pType m = None \<or> (m_pHmacSecret m \<noteq> None \<and> message_token sign m = None)
     \<or> \<not> M Request None
     \<or> (\<exists>k \<in> set (request_names m). k \<notin> {''body'', ''jsep''} \<and> \<not> M Request (Some k)))
   \<and> (\<forall>j tok. encode_with M sign m = Some (j, tok) \<longrightarrow>
       getcs (Some j) ''body'' = (if M Request (Some ''body'') then map_option (named ''body'') (m_pJsonBody m) else None)
       \<and> getcs (Some j) ''jsep'' = (if M Request (Some ''jsep'') then map_option (named ''jsep'') (m_pJsonJsep m) else None))"
proof
  have fails: "encode_with M sign m = None \<longleftrightarrow> \<not> (request_memory M m \<and> encodable sign m)" by (simp add: encode_with_items)
  have mem: "request_memory M m \<longleftrightarrow> M Request None
      \<and> (\<forall>k \<in> set (request_names m). k \<notin> {''body'', ''jsep''} \<longrightarrow> M Request (Some k))"
    unfolding request_memory_def request_names_def by (simp add: ball_Un del: not_None_eq)
  have missing: "(\<exists>k \<in> K. P k \<and> \<not> Q k) \<longleftrightarrow> \<not> (\<forall>k \<in> K. P k \<longrightarrow> Q k)" for K :: "string set" and P Q by blast
  show "encode_with M sign m = None \<longleftrightarrow>
     m_pType m = None \<or> (m_pHmacSecret m \<noteq> None \<and> message_token sign m = None)
     \<or> \<not> M Request None \<or> (\<exists>k \<in> set (request_names m). k \<notin> {''body'', ''jsep''} \<and> \<not> M Request (Some k))"
    unfolding fails mem encodable_def missing by argo
  show "\<forall>j tok. encode_with M sign m = Some (j, tok) \<longrightarrow>
       getcs (Some j) ''body'' = (if M Request (Some ''body'') then map_option (named ''body'') (m_pJsonBody m) else None)
       \<and> getcs (Some j) ''jsep'' = (if M Request (Some ''jsep'') then map_option (named ''jsep'') (m_pJsonJsep m) else None)"
    by (auto simp: encode_with_items request_items_def linked_def JANUS_STRING_def split: if_splits)
qed

theorem encode_fails_iff_witness:
  "encode_with (\<lambda>part k. k \<noteq> Some ''transaction'') (\<lambda>_ _ _. None)
     (zero_message\<lparr>m_pType := Some ''create'', m_pTransactionId := Some ''t1''\<rparr>) = None"
  using encode_fails_iff [of "\<lambda>part k. k \<noteq> Some ''transaction''" "\<lambda>_ _ _. None"
      "zero_message\<lparr>m_pType := Some ''create'', m_pTransactionId := Some ''t1''\<rparr>"]
  by (simp add: request_names_def zero_message_def)

text \<open>
  The descriptors of a signed token fit the array of \<open>MAX_TOKEN_DESCRIPTORS + 1\<close> entries that
  \<open>encode\<close> collects them in, for any number of extra descriptors; the plugin package comes first,
  and up to \<open>MAX_TOKEN_DESCRIPTORS\<close> extra descriptors are all kept, in order, without the empty ones.
\<close>

theorem encode_descriptors_safe:
  "length (encode_descriptors [Some JANUS_PLUGIN] es) \<le> MAX_TOKEN_DESCRIPTORS + 1
   \<and> (length es \<le> MAX_TOKEN_DESCRIPTORS \<longrightarrow>
        encode_descriptors [Some JANUS_PLUGIN] es =
          Some JANUS_PLUGIN # filter (\<lambda>e. \<not> zstr e) es)"
  using encode_descriptors_bounded [of "[Some JANUS_PLUGIN]" es]
  by (auto simp: encode_descriptors_few)

theorem encode_descriptors_safe_witness:
  "encode_descriptors [Some JANUS_PLUGIN] [Some '''', Some ''room=7'', None] =
     [Some JANUS_PLUGIN, Some ''room=7'']"
  using encode_descriptors_safe [of "[Some '''', Some ''room=7'', None]"]
  by (simp add: MAX_TOKEN_DESCRIPTORS_def)

text \<open>
  C3: round trip. Reading an encoded request with \<open>decode\<close> succeeds and gives back its type,
  its transaction and its jsep object.
\<close>

theorem decode_encode:
  assumes "encode sign m = Some (j, tok)" and "is_object_or_null (m_pJsonJsep m)"
  shows "\<exists>r. decode (Some j) = Inr (Some r)
     \<and> m_pType r = m_pType m \<and> m_pTransactionId r = m_pTransactionId m
     \<and> m_pJsonJsep r = map_option (named ''jsep'') (m_pJsonJsep m)"
proof -
  have j: "child j = request_items sign m"
    using assms by (auto simp: encode_eq split: if_splits)
  have str: "decode_str (map_option (str_item k) s) = Some s" for k s
    by (cases s) (simp_all add: decode_str_def)
  have obj: "cJSON_IsObject (Some (named k x)) = cJSON_IsObject (Some x)" for k x
    by (simp add: cJSON_Is named_def cJSON_types and.assoc)
  have "decode_body j = Inr (Some (None, None))"
    by (simp add: decode_body_def j request_items_def JANUS_STRING_def)
  moreover have "decode_str (getcs (Some j) JANUS_STRING) = Some (m_pType m)"
    "decode_str (getcs (Some j) ''transaction'') = Some (m_pTransactionId m)"
    "decode_id (getcs (Some j) ''session_id'') = Inr (Some 0)"
    "decode_id (getcs (Some j) ''sender'') = Inr (Some 0)"
    by (auto simp: j request_items_def JANUS_STRING_def str decode_id_def decode_str_def)
  moreover have "getcs (Some j) ''jsep'' = map_option (named ''jsep'') (m_pJsonJsep m)"
    by (simp add: j request_items_def JANUS_STRING_def)
  moreover have "\<not> (map_option (named ''jsep'') (m_pJsonJsep m) \<noteq> None
      \<and> \<not> cJSON_IsObject (map_option (named ''jsep'') (m_pJsonJsep m)))"
    using assms(2) by (cases "m_pJsonJsep m") (auto simp: is_object_or_null_def obj)
  ultimately show ?thesis by (auto simp: decode_def Let_def simp del: getcs_simps)
qed

theorem decode_encode_witness:
  "\<exists>j r. encode (\<lambda>_ _ _. None) (zero_message\<lparr>m_pType := Some ''claim'', m_pTransactionId := Some ''t1''\<rparr>)
        = Some (j, None)
     \<and> decode (Some j) = Inr (Some r) \<and> m_pType r = Some ''claim'' \<and> m_pTransactionId r = Some ''t1''"
proof -
  let ?m = "zero_message\<lparr>m_pType := Some ''claim'', m_pTransactionId := Some ''t1''\<rparr>"
  let ?s = "\<lambda>_ _ _. None"
  have enc: "encode ?s ?m = Some (push_all cJSON_CreateObject (request_items ?s ?m), None)"
    by (simp add: encode_eq encodable_def zero_message_def)
  show ?thesis
    using decode_encode [OF enc] enc by (auto simp: is_object_or_null_def zero_message_def)
qed

definition read_id :: "cjson \<Rightarrow> string \<Rightarrow> janus_id_t \<Rightarrow> bool" where
  "read_id j k i \<longleftrightarrow> (case getcs (Some j) k of
     None \<Rightarrow> i = 0 | Some n \<Rightarrow> cJSON_IsNumber (Some n) \<and> double_to_u64 (valuedouble n) = Inr i)"

text \<open>Where the body comes from, and the candidate when there is neither \<open>data\<close> nor \<open>plugindata\<close>.\<close>

definition read_body :: "cjson \<Rightarrow> cjson option \<Rightarrow> bool" where
  "read_body j b \<longleftrightarrow> (case (getcs (Some j) ''data'', getcs (Some j) ''plugindata'') of
     (Some d, _) \<Rightarrow> cJSON_IsObject (Some d) \<and> b = Some d
   | (None, Some pd) \<Rightarrow> cJSON_IsObject (Some pd) \<and> jstr pd ''plugin'' = Some ''janus.plugin.audiobridge''
       \<and> cJSON_IsObject b \<and> b = getcs (Some pd) ''data''
   | (None, None) \<Rightarrow> b = None)"

definition read_candidate :: "cjson \<Rightarrow> cstr \<Rightarrow> bool" where
  "read_candidate j s \<longleftrightarrow>
     (if getcs (Some j) ''data'' \<noteq> None \<or> getcs (Some j) ''plugindata'' \<noteq> None then s = None
      else case getcs (Some j) ''candidate'' of
        None \<Rightarrow> s = None
      | Some c \<Rightarrow> cJSON_IsObject (Some c) \<and>
          (if getcs (Some c) ''completed'' \<noteq> None then cJSON_IsBool (getcs (Some c) ''completed'') \<and> \<not> cJSON_IsFalse (getcs (Some c) ''completed'') \<and> s = Some ''''
           else s = jstr c ''candidate'' \<and> (getcs (Some c) ''candidate'' \<noteq> None \<longrightarrow> cJSON_IsString (getcs (Some c) ''candidate''))))"

lemma decode_candidate_read:
  assumes "decode_candidate c = Some s"
  shows "if getcs (Some c) ''completed'' \<noteq> None then cJSON_IsBool (getcs (Some c) ''completed'') \<and> \<not> cJSON_IsFalse (getcs (Some c) ''completed'') \<and> s = Some ''''
    else s = jstr c ''candidate'' \<and> (getcs (Some c) ''candidate'' \<noteq> None \<longrightarrow> cJSON_IsString (getcs (Some c) ''candidate''))"
  using assms by (auto simp: decode_candidate_def jstr_def split: option.splits if_splits)

lemma decode_body_read:
  assumes "decode_body j = Inr (Some (b, s))"
  shows "read_body j b \<and> read_candidate j s"
proof -
  have pd: "cJSON_IsObject (Some pd) \<and> cJSON_IsObject b \<and> b = getcs (Some pd) ''data''
      \<and> jstr pd ''plugin'' = Some ''janus.plugin.audiobridge'' \<and> s = None" if "decode_plugindata pd = Inr (Some (b, s))" for pd
    using that by (auto simp: decode_plugindata_def Let_def cbind_Inr_iff jstr_def JANUS_PLUGIN_def split: if_splits option.splits)
  show ?thesis
    using assms decode_candidate_read
    by (auto simp: decode_body_def read_body_def read_candidate_def simp del: getcs_simps split: option.splits if_splits dest!: pd)
qed

lemma decode_str_present:
  "decode_str (getcs (Some j) k) = Some s \<Longrightarrow> s = jstr j k \<and> (getcs (Some j) k \<noteq> None \<longrightarrow> cJSON_IsString (getcs (Some j) k))"
  by (auto simp: decode_str_def jstr_def split: option.splits if_splits)

lemma decode_id_read: "decode_id (getcs (Some j) k) = Inr (Some i) \<Longrightarrow> read_id j k i"
  by (auto simp: decode_id_def read_id_def cbind_Inr_iff split: option.splits if_splits)

text \<open>
  C4: a message that \<open>decode\<close> accepts reports the members of the response. Its type and transaction are the texts of
  \<open>janus\<close> and \<open>transaction\<close>, its session and handle the numbers \<open>session_id\<close> and \<open>sender\<close> or 0, its jsep the
  object \<open>jsep\<close>; its body is the object \<open>data\<close>, or else the object \<open>data\<close> inside \<open>plugindata\<close> of the audiobridge plugin and
  no other; a candidate is reported only without either, as the text \<open>candidate\<close> inside \<open>candidate\<close> or, when that is
  marked \<open>completed\<close>, as the empty text. A member that is present has the type it has to have, and every other field
  of the message is zero.
\<close>

theorem decode_sound:
  assumes "decode (Some j) = Inr (Some m)"
  shows "m_pType m = jstr j ''janus'' \<and> (getcs (Some j) ''janus'' \<noteq> None \<longrightarrow> cJSON_IsString (getcs (Some j) ''janus''))
    \<and> m_pTransactionId m = jstr j ''transaction''
    \<and> (getcs (Some j) ''transaction'' \<noteq> None \<longrightarrow> cJSON_IsString (getcs (Some j) ''transaction''))
    \<and> read_id j ''session_id'' (m_serverId m) \<and> read_id j ''sender'' (m_senderId m)
    \<and> m_pJsonJsep m = getcs (Some j) ''jsep'' \<and> is_object_or_null (m_pJsonJsep m)
    \<and> read_body j (m_pJsonBody m) \<and> read_candidate j (m_pCandidate m)
    \<and> m = zero_message\<lparr>m_pType := m_pType m, m_serverId := m_serverId m, m_pTransactionId := m_pTransactionId m,
        m_senderId := m_senderId m, m_pJsonBody := m_pJsonBody m, m_pJsonJsep := m_pJsonJsep m, m_pCandidate := m_pCandidate m\<rparr>"
proof -
  obtain body cand where body: "decode_body j = Inr (Some (body, cand))"
    and m: "m_pJsonBody m = body" "m_pCandidate m = cand"
      "m_pJsonJsep m = getcs (Some j) ''jsep''" "is_object_or_null (getcs (Some j) ''jsep'')"
      "decode_str (getcs (Some j) JANUS_STRING) = Some (m_pType m)"
      "decode_str (getcs (Some j) ''transaction'') = Some (m_pTransactionId m)"
      "decode_id (getcs (Some j) ''session_id'') = Inr (Some (m_serverId m))"
      "decode_id (getcs (Some j) ''sender'') = Inr (Some (m_senderId m))"
    by (rule decode_SomeD [OF assms])
  have z: "m = zero_message\<lparr>m_pType := m_pType m, m_serverId := m_serverId m, m_pTransactionId := m_pTransactionId m,
      m_senderId := m_senderId m, m_pJsonBody := m_pJsonBody m, m_pJsonJsep := m_pJsonJsep m, m_pCandidate := m_pCandidate m\<rparr>"
    using assms by (auto simp: decode_def nbind_Some_iff Let_def zero_message_def split: if_splits)
  show ?thesis
    using m decode_body_read [OF body] decode_str_present [OF m(5)] decode_str_present [OF m(6)]
      decode_id_read [OF m(7)] decode_id_read [OF m(8)] z
    unfolding JANUS_STRING_def by metis
qed

theorem decode_sound_witness:
  "\<exists>m. decode (Some (push_all cJSON_CreateObject [str_item ''janus'' ''event'', num_item ''session_id'' (DFin 5),
        num_item ''sender'' (DFin 6)])) = Inr (Some m)
     \<and> m_pType m = Some ''event'' \<and> m_serverId m = 5 \<and> m_senderId m = 6"
proof -
  let ?j = "push_all cJSON_CreateObject [str_item ''janus'' ''event'', num_item ''session_id'' (DFin 5), num_item ''sender'' (DFin 6)]"
  have n: "double_to_u64 (DFin 5) = Inr 5" "double_to_u64 (DFin 6) = Inr 6"
    using double_to_u64_nat [of 5] double_to_u64_nat [of 6] by simp_all
  have dec: "decode (Some ?j) = Inr (Some (zero_message\<lparr>m_pType := Some ''event'', m_serverId := 5, m_senderId := 6\<rparr>))"
    by (simp add: decode_def decode_body_def decode_str_def decode_id_def JANUS_STRING_def zero_message_def n)
  show ?thesis using decode_sound [OF dec] dec by (simp add: jstr_def read_id_def n)
qed

text \<open>
  The only undefined behaviour a response can provoke in \<open>decode\<close> is a \<open>session_id\<close>
  or \<open>sender\<close> number that does not fit 64 bits: on a well-formed tree there is no NULL dereference,
  and identifiers in range make the result defined.
\<close>

theorem decode_undefined_only_range:
  assumes "cj_wf j" and "decode (Some j) = Inl e"
  shows "e = FloatRange \<and> (\<exists>k \<in> {''session_id'', ''sender''}. \<exists>n.
     getcs (Some j) k = Some n \<and> cJSON_IsNumber (Some n) \<and> double_to_u64 (valuedouble n) = Inl FloatRange)"
proof -
  from assms(2) decode_body_no_ub [OF assms(1)]
  have "decode_id (getcs (Some j) ''session_id'') = Inl e \<or> decode_id (getcs (Some j) ''sender'') = Inl e"
    by (auto simp: decode_def nbind_Inl_iff Let_def simp del: getcs_simps split: if_splits)
  then show ?thesis
    by (auto simp del: getcs_simps dest!: decode_id_ub dest: double_to_u64_Inl)
qed

theorem decode_undefined_only_range_witness:
  "FloatRange = FloatRange \<and> (\<exists>k \<in> {''session_id'', ''sender''}. \<exists>n.
     getcs (Some (push cJSON_CreateObject (num_item ''sender'' (DInf False)))) k = Some n
     \<and> cJSON_IsNumber (Some n) \<and> double_to_u64 (valuedouble n) = Inl FloatRange)"
proof -
  let ?j = "push cJSON_CreateObject (num_item ''sender'' (DInf False))"
  have wf: "cj_wf ?j" by (simp add: cJSON_CreateObject_def num_item_def cJSON_types)
  have "decode (Some ?j) = Inl FloatRange"
    by (simp add: decode_def decode_body_def decode_str_def decode_id_def JANUS_STRING_def
        double_to_u64_def)
  from decode_undefined_only_range [OF wf this] show ?thesis .
qed

end
