(* ===== verification/Dispatch.thy ===== *)
theory Dispatch
  imports Message
begin

text \<open>
  The event dispatcher of \<open>api.c\<close>: \<open>api_dispatch_participants\<close> and
  \<open>api_dispatch_poll_event\<close>, which decode one Janus event and call the module's callbacks. The
  function pointers are the record \<open>'s callbacks\<close> over a state \<open>'s\<close> of the
  module; a callback returns its status and the new state, or undefined behaviour. A status only
  decides what is logged. Pointers that the dispatcher tests for NULL are options.

  The second half is the abstract view: \<open>event_calls\<close> maps a decoded message to the list of
  callback invocations it stands for, and the dispatcher is shown to run exactly that list.
\<close>

record 's callbacks =
  pJoinedFunc ::
    "janus_id_t \<Rightarrow> janus_id_t \<Rightarrow> janus_id_t \<Rightarrow> janus_id_t \<Rightarrow> 's \<Rightarrow> (switch_status_t \<times> 's) cres"
  pAcceptedFunc :: "janus_id_t \<Rightarrow> janus_id_t \<Rightarrow> cstr \<Rightarrow> 's \<Rightarrow> (switch_status_t \<times> 's) cres"
  pTrickleFunc :: "janus_id_t \<Rightarrow> janus_id_t \<Rightarrow> cstr \<Rightarrow> 's \<Rightarrow> (switch_status_t \<times> 's) cres"
  pAnswerOnWebrtcupFunc :: "(janus_id_t \<Rightarrow> janus_id_t \<Rightarrow> 's \<Rightarrow> bool) option"
  pAnsweredFunc :: "janus_id_t \<Rightarrow> janus_id_t \<Rightarrow> 's \<Rightarrow> (switch_status_t \<times> 's) cres"
  pHungupFunc :: "janus_id_t \<Rightarrow> janus_id_t \<Rightarrow> cstr \<Rightarrow> 's \<Rightarrow> (switch_status_t \<times> 's) cres"
  pParticipantFunc ::
    "(janus_id_t \<Rightarrow> janus_id_t \<Rightarrow> cstr \<Rightarrow> bool \<Rightarrow> bool \<Rightarrow> 's \<Rightarrow> (switch_status_t \<times> 's) cres) option"

definition run_cb :: "(switch_status_t \<times> 's) cres \<Rightarrow> 's cres" where
  "run_cb r = cbind r (\<lambda>(st, s). Inr s)"

section \<open>The dispatcher\<close>

definition id_text :: "janus_id_t \<Rightarrow> string" where
  "id_text i = snprintf_text 64 (nat_str (unat i))"

fun participant_items ::
  "(cstr \<Rightarrow> bool \<Rightarrow> bool \<Rightarrow> 's \<Rightarrow> (switch_status_t \<times> 's) cres) \<Rightarrow> cjson list \<Rightarrow> 's \<Rightarrow> 's cres" where
  "participant_items f [] s = Inr s"
| "participant_items f (pItem # rest) s =
     (let pId = getcs (Some pItem) ''id''; setup = cJSON_IsTrue (getcs (Some pItem) ''setup'') in
      if cJSON_IsString pId then
        cbind (run_cb (f (valuestring (the pId)) False setup s)) (participant_items f rest)
      else if cJSON_IsNumber pId then
        cbind (double_to_u64 (valuedouble (the pId))) (\<lambda>i.
        cbind (run_cb (f (Some (id_text i)) False setup s)) (participant_items f rest))
      else participant_items f rest s)"

definition api_dispatch_participants ::
  "'s callbacks \<Rightarrow> message_t \<Rightarrow> cjson option \<Rightarrow> 's \<Rightarrow> 's cres" where
  "api_dispatch_participants cb m pParticipants s =
     (case pParticipantFunc cb of
        None \<Rightarrow> Inr s
      | Some f \<Rightarrow>
          if \<not> cJSON_IsArray pParticipants then Inr s
          else participant_items (f (m_serverId m) (m_senderId m)) (child (the pParticipants)) s)"

text \<open>An identifier that is a number or, in rooms with string identifiers, a string.\<close>

definition room_or_participant_id :: "cjson \<Rightarrow> janus_id_t option cres" where
  "room_or_participant_id j =
     (if cJSON_IsNumber (Some j) then cbind (double_to_u64 (valuedouble j)) (\<lambda>i. Inr (Some i))
      else if cJSON_IsString (Some j) then Inr (Some 0)
      else Inr None)"

definition dispatch_joined :: "'s callbacks \<Rightarrow> message_t \<Rightarrow> 's \<Rightarrow> 's cres" where
  "dispatch_joined cb m s =
     (let body = m_pJsonBody m; sid = m_serverId m; hid = m_senderId m in
      case getcs body ''room'' of
        None \<Rightarrow> Inr s
      | Some room \<Rightarrow>
          cbind (room_or_participant_id room) (\<lambda>r.
          case r of
            None \<Rightarrow> Inr s
          | Some roomId \<Rightarrow>
              (case getcs body ''id'' of
                 Some pid \<Rightarrow>
                   cbind (room_or_participant_id pid) (\<lambda>q.
                   case q of
                     None \<Rightarrow> Inr s
                   | Some participantId \<Rightarrow>
                       cbind (run_cb (pJoinedFunc cb sid hid roomId participantId s)) (\<lambda>s.
                       cbind (case pParticipantFunc cb of
                                None \<Rightarrow> Inr s
                              | Some f \<Rightarrow>
                                  if cJSON_IsString (Some pid)
                                  then (if valuestring pid = None then Inr s
                                        else run_cb (f sid hid (valuestring pid) True True s))
                                  else run_cb (f sid hid (Some (id_text participantId)) True True s))
                             (api_dispatch_participants cb m (getcs body ''participants''))))
               | None \<Rightarrow> api_dispatch_participants cb m (getcs body ''participants'') s)))"

definition dispatch_result_ok :: "'s callbacks \<Rightarrow> message_t \<Rightarrow> 's \<Rightarrow> 's cres" where
  "dispatch_result_ok cb m s =
     (let sid = m_serverId m; hid = m_senderId m; ty = getcs (m_pJsonJsep m) ''type'' in
      if \<not> cJSON_IsString ty then Inr s
      else cbind (deref (valuestring (the ty))) (\<lambda>t.
        if t \<noteq> ''answer'' then Inr s
        else let sdp = getcs (m_pJsonJsep m) ''sdp'' in
          if \<not> cJSON_IsString sdp then Inr s
          else cbind (run_cb (pAcceptedFunc cb sid hid (valuestring (the sdp)) s)) (\<lambda>s.
            if (case pAnswerOnWebrtcupFunc cb of None \<Rightarrow> True | Some f \<Rightarrow> \<not> f sid hid s)
            then run_cb (pAnsweredFunc cb sid hid s) else Inr s)))"

definition dispatch_room_event :: "'s callbacks \<Rightarrow> message_t \<Rightarrow> 's \<Rightarrow> 's cres" where
  "dispatch_room_event cb m s =
     (let body = m_pJsonBody m; sid = m_serverId m; hid = m_senderId m in
      case getcs body ''result'' of
        Some r \<Rightarrow>
          if \<not> cJSON_IsString (Some r) then Inr s
          else cbind (deref (valuestring r)) (\<lambda>t.
               if t \<noteq> ''ok'' then Inr s else dispatch_result_ok cb m s)
      | None \<Rightarrow>
      (case getcs body ''leaving'' of
        Some l \<Rightarrow> Inr s
      | None \<Rightarrow>
          let code = getcs body ''error_code''; err = getcs body ''error'' in
          if code \<noteq> None \<and> err \<noteq> None then
            (if \<not> cJSON_IsNumber code \<or> \<not> cJSON_IsString err then Inr s
             else run_cb (pHungupFunc cb sid hid (valuestring (the err)) s))
          else if cJSON_IsArray (getcs body ''participants'') then
            api_dispatch_participants cb m (getcs body ''participants'') s
          else Inr s))"

definition dispatch_plugin_event :: "'s callbacks \<Rightarrow> message_t \<Rightarrow> 's \<Rightarrow> 's cres" where
  "dispatch_plugin_event cb m s =
     (let ty = getcs (m_pJsonBody m) ''audiobridge'' in
      if \<not> cJSON_IsString ty then Inr s
      else cbind (deref (valuestring (the ty))) (\<lambda>t.
        if t = ''joined'' then dispatch_joined cb m s
        else if t = ''event'' then dispatch_room_event cb m s
        else Inr s))"

definition dispatch_message :: "'s callbacks \<Rightarrow> cjson option \<Rightarrow> message_t \<Rightarrow> 's \<Rightarrow> 's cres" where
  "dispatch_message cb pEvent m s =
     (let sid = m_serverId m; hid = m_senderId m in
      cbind (deref (m_pType m)) (\<lambda>ty.
        if ty = ''keepalive'' then Inr s
        else if ty = ''ack'' then Inr s
        else if ty = ''hangup'' then
          (let reason = getcs pEvent ''reason'' in
           if \<not> cJSON_IsString reason then Inr s
           else run_cb (pHungupFunc cb sid hid (valuestring (the reason)) s))
        else if ty = ''detached'' then run_cb (pHungupFunc cb sid hid None s)
        else if ty = ''webrtcup'' then
          (if (case pAnswerOnWebrtcupFunc cb of None \<Rightarrow> False | Some f \<Rightarrow> f sid hid s)
           then run_cb (pAnsweredFunc cb sid hid s) else Inr s)
        else if ty = ''media'' then Inr s
        else if ty = ''trickle'' then run_cb (pTrickleFunc cb sid hid (m_pCandidate m) s)
        else if ty = ''event'' then dispatch_plugin_event cb m s
        else Inr s))"

definition api_dispatch_poll_event :: "'s callbacks \<Rightarrow> cjson option \<Rightarrow> 's \<Rightarrow> 's cres" where
  "api_dispatch_poll_event cb pEvent s =
     cbind (decode pEvent) (\<lambda>r.
       case r of None \<Rightarrow> Inr s | Some m \<Rightarrow> dispatch_message cb pEvent m s)"

text \<open>The loop of \<open>apiPoll\<close> over the children of a long-poll response.\<close>

fun dispatch_events :: "'s callbacks \<Rightarrow> cjson list \<Rightarrow> 's \<Rightarrow> 's cres" where
  "dispatch_events cb [] s = Inr s"
| "dispatch_events cb (e # es) s =
     cbind (api_dispatch_poll_event cb (Some e) s) (dispatch_events cb es)"

section \<open>The calls an event stands for\<close>

datatype call =
    Joined janus_id_t janus_id_t
  | Accepted cstr
  | Trickled cstr
  | AnswerUnlessWebrtcup
  | AnswerIfWebrtcup
  | Hungup cstr
  | Participant cstr bool bool
  | Undefined ub

fun run_call :: "'s callbacks \<Rightarrow> janus_id_t \<Rightarrow> janus_id_t \<Rightarrow> call \<Rightarrow> 's \<Rightarrow> 's cres" where
  "run_call cb sid hid (Joined r p) s = run_cb (pJoinedFunc cb sid hid r p s)"
| "run_call cb sid hid (Accepted sdp) s = run_cb (pAcceptedFunc cb sid hid sdp s)"
| "run_call cb sid hid (Trickled c) s = run_cb (pTrickleFunc cb sid hid c s)"
| "run_call cb sid hid AnswerUnlessWebrtcup s =
     (if (case pAnswerOnWebrtcupFunc cb of None \<Rightarrow> True | Some f \<Rightarrow> \<not> f sid hid s)
      then run_cb (pAnsweredFunc cb sid hid s) else Inr s)"
| "run_call cb sid hid AnswerIfWebrtcup s =
     (if (case pAnswerOnWebrtcupFunc cb of None \<Rightarrow> False | Some f \<Rightarrow> f sid hid s)
      then run_cb (pAnsweredFunc cb sid hid s) else Inr s)"
| "run_call cb sid hid (Hungup reason) s = run_cb (pHungupFunc cb sid hid reason s)"
| "run_call cb sid hid (Participant p self setup) s =
     (case pParticipantFunc cb of None \<Rightarrow> Inr s | Some f \<Rightarrow> run_cb (f sid hid p self setup s))"
| "run_call cb sid hid (Undefined e) s = Inl e"

fun run_calls :: "'s callbacks \<Rightarrow> janus_id_t \<Rightarrow> janus_id_t \<Rightarrow> call list \<Rightarrow> 's \<Rightarrow> 's cres" where
  "run_calls cb sid hid [] s = Inr s"
| "run_calls cb sid hid (c # cs) s = cbind (run_call cb sid hid c s) (run_calls cb sid hid cs)"

definition with_id :: "cjson \<Rightarrow> (janus_id_t \<Rightarrow> call list) \<Rightarrow> call list" where
  "with_id j f =
     (if cJSON_IsNumber (Some j)
      then (case double_to_u64 (valuedouble j) of Inl e \<Rightarrow> [Undefined e] | Inr i \<Rightarrow> f i)
      else if cJSON_IsString (Some j) then f 0 else [])"

definition participant_call :: "cjson \<Rightarrow> call list" where
  "participant_call j =
     (case getcs (Some j) ''id'' of
        None \<Rightarrow> []
      | Some i \<Rightarrow>
          let setup = cJSON_IsTrue (getcs (Some j) ''setup'') in
          if cJSON_IsString (Some i) then [Participant (valuestring i) False setup]
          else if cJSON_IsNumber (Some i)
          then (case double_to_u64 (valuedouble i) of
                  Inl e \<Rightarrow> [Undefined e] | Inr n \<Rightarrow> [Participant (Some (id_text n)) False setup])
          else [])"

definition participant_calls :: "cjson option \<Rightarrow> call list" where
  "participant_calls body =
     (case getcs body ''participants'' of
        None \<Rightarrow> []
      | Some a \<Rightarrow> if cJSON_IsArray (Some a) then concat (map participant_call (child a)) else [])"

definition joined_calls :: "cjson option \<Rightarrow> call list" where
  "joined_calls body =
     (case getcs body ''room'' of
        None \<Rightarrow> []
      | Some room \<Rightarrow> with_id room (\<lambda>r.
          case getcs body ''id'' of
            None \<Rightarrow> participant_calls body
          | Some pid \<Rightarrow> with_id pid (\<lambda>p.
              Joined r p
              # (if cJSON_IsNumber (Some pid) then [Participant (Some (id_text p)) True True]
                 else if valuestring pid = None then []
                 else [Participant (valuestring pid) True True])
              @ participant_calls body)))"

definition string_is :: "cjson option \<Rightarrow> string \<Rightarrow> call list \<Rightarrow> call list" where
  "string_is item t calls =
     (case item of
        None \<Rightarrow> []
      | Some j \<Rightarrow> if \<not> cJSON_IsString (Some j) then []
                  else (case valuestring j of
                          None \<Rightarrow> [Undefined NullDeref]
                        | Some u \<Rightarrow> if u = t then calls else []))"

definition room_event_calls :: "cjson option \<Rightarrow> cjson option \<Rightarrow> call list" where
  "room_event_calls body jsep =
     (if getcs body ''result'' \<noteq> None then
        string_is (getcs body ''result'') ''ok'' (
        string_is (getcs jsep ''type'') ''answer'' (
          case getcs jsep ''sdp'' of
            None \<Rightarrow> []
          | Some sdp \<Rightarrow> if cJSON_IsString (Some sdp)
                        then [Accepted (valuestring sdp), AnswerUnlessWebrtcup] else []))
      else if getcs body ''leaving'' \<noteq> None then []
      else case (getcs body ''error_code'', getcs body ''error'') of
             (Some c, Some e) \<Rightarrow>
               if cJSON_IsNumber (Some c) \<and> cJSON_IsString (Some e) then [Hungup (valuestring e)] else []
           | _ \<Rightarrow> participant_calls body)"

definition plugin_event_calls :: "cjson option \<Rightarrow> cjson option \<Rightarrow> call list" where
  "plugin_event_calls body jsep =
     (case getcs body ''audiobridge'' of
        None \<Rightarrow> []
      | Some a \<Rightarrow>
          if \<not> cJSON_IsString (Some a) then []
          else (case valuestring a of
                  None \<Rightarrow> [Undefined NullDeref]
                | Some t \<Rightarrow> if t = ''joined'' then joined_calls body
                            else if t = ''event'' then room_event_calls body jsep
                            else []))"

definition event_calls :: "cjson option \<Rightarrow> message_t \<Rightarrow> call list" where
  "event_calls pEvent m =
     (case m_pType m of
        None \<Rightarrow> [Undefined NullDeref]
      | Some ty \<Rightarrow>
          if ty = ''hangup'' then
            (case getcs pEvent ''reason'' of
               None \<Rightarrow> []
             | Some r \<Rightarrow> if cJSON_IsString (Some r) then [Hungup (valuestring r)] else [])
          else if ty = ''detached'' then [Hungup None]
          else if ty = ''webrtcup'' then [AnswerIfWebrtcup]
          else if ty = ''trickle'' then [Trickled (m_pCandidate m)]
          else if ty = ''event'' then plugin_event_calls (m_pJsonBody m) (m_pJsonJsep m)
          else [])"

lemma run_calls_append:
  "run_calls cb sid hid (xs @ ys) s = cbind (run_calls cb sid hid xs s) (run_calls cb sid hid ys)"
  by (induction xs arbitrary: s) (auto simp: cbind_assoc intro!: cbind_cong)

lemma cbind_run_calls_Nil [simp]: "cbind x (run_calls cb sid hid []) = x"
  by (cases x) auto

lemma run_calls_single [simp]: "run_calls cb sid hid [c] s = run_call cb sid hid c s"
  by (cases "run_call cb sid hid c s") auto

lemma participant_items_calls:
  assumes "pParticipantFunc cb = Some f"
  shows "participant_items (f sid hid) its s = run_calls cb sid hid (concat (map participant_call its)) s"
proof (induction its arbitrary: s)
  case Nil
  then show ?case by simp
next
  case (Cons it its)
  show ?case
  proof (cases "getcs (Some it) ''id''")
    case None
    then show ?thesis
      by (simp add: Cons.IH participant_call_def Let_def del: getcs_simps)
  next
    case (Some i)
    then show ?thesis
      by (auto simp: Cons.IH participant_call_def Let_def assms run_calls_append cbind_assoc
          simp del: getcs_simps split: sum.splits intro!: cbind_cong)
  qed
qed

lemma api_dispatch_participants_calls:
  assumes "pParticipantFunc cb = Some f"
  shows "api_dispatch_participants cb m (getcs (m_pJsonBody m) ''participants'') s =
     run_calls cb (m_serverId m) (m_senderId m) (participant_calls (m_pJsonBody m)) s"
  by (cases "getcs (m_pJsonBody m) ''participants''")
    (auto simp: api_dispatch_participants_def assms participant_calls_def
      participant_items_calls [of cb, OF assms] simp del: getcs_simps)

lemma with_id_calls:
  "cbind (room_or_participant_id j) (\<lambda>r. case r of None \<Rightarrow> Inr s | Some i \<Rightarrow> g i) =
     run_calls cb sid hid (with_id j f) s"
  if "\<And>i. room_or_participant_id j = Inr (Some i) \<Longrightarrow> g i = run_calls cb sid hid (f i) s"
  using that by (auto simp: room_or_participant_id_def with_id_def split: sum.splits)

lemma dispatch_joined_calls:
  assumes "pParticipantFunc cb = Some f"
  shows "dispatch_joined cb m s =
     run_calls cb (m_serverId m) (m_senderId m) (joined_calls (m_pJsonBody m)) s"
proof (cases "getcs (m_pJsonBody m) ''room''")
  case None
  then show ?thesis by (simp add: dispatch_joined_def joined_calls_def del: getcs_simps)
next
  case (Some room)
  show ?thesis
    unfolding dispatch_joined_def joined_calls_def Let_def Some option.case
    apply (rule with_id_calls)
    apply (cases "getcs (m_pJsonBody m) ''id''")
     apply (simp add: api_dispatch_participants_calls [OF assms] del: getcs_simps)
    apply (simp only: option.case)
    apply (rule with_id_calls)
    apply (auto simp: assms api_dispatch_participants_calls [OF assms] room_or_participant_id_def
        simp del: getcs_simps split: if_splits intro!: cbind_cong dest: number_not_string)
    done
qed

lemma string_is_calls:
  "(if \<not> cJSON_IsString item then Inr s
    else cbind (deref (valuestring (the item))) (\<lambda>u. if u \<noteq> t then Inr s else r)) =
   run_calls cb sid hid (string_is item t calls) s"
  if "r = run_calls cb sid hid calls s"
  using that by (cases item) (auto simp: string_is_def split: option.splits)

lemma dispatch_result_ok_calls:
  "dispatch_result_ok cb m s =
     run_calls cb (m_serverId m) (m_senderId m)
       (string_is (getcs (m_pJsonJsep m) ''type'') ''answer'' (
          case getcs (m_pJsonJsep m) ''sdp'' of
            None \<Rightarrow> []
          | Some sdp \<Rightarrow> if cJSON_IsString (Some sdp)
                        then [Accepted (valuestring sdp), AnswerUnlessWebrtcup] else [])) s"
  unfolding dispatch_result_ok_def Let_def
  by (rule string_is_calls)
    (auto simp del: getcs_simps split: option.splits intro!: cbind_cong)

lemma dispatch_room_event_calls:
  assumes "pParticipantFunc cb = Some f"
  shows "dispatch_room_event cb m s =
     run_calls cb (m_serverId m) (m_senderId m) (room_event_calls (m_pJsonBody m) (m_pJsonJsep m)) s"
proof (cases "getcs (m_pJsonBody m) ''result''")
  case None
  have "\<not> cJSON_IsArray (getcs (m_pJsonBody m) ''participants'') \<Longrightarrow> participant_calls (m_pJsonBody m) = []"
    by (auto simp: participant_calls_def simp del: getcs_simps split: option.splits)
  with None show ?thesis
    by (auto simp: dispatch_room_event_def room_event_calls_def Let_def
        api_dispatch_participants_calls [OF assms] simp del: getcs_simps split: option.splits)
next
  case (Some r)
  show ?thesis
    using string_is_calls [OF dispatch_result_ok_calls, of "Some r" s "''ok''" cb m]
    by (auto simp: dispatch_room_event_def room_event_calls_def Let_def Some simp del: getcs_simps
        split: if_splits)
qed

lemma dispatch_plugin_event_calls:
  assumes "pParticipantFunc cb = Some f"
  shows "dispatch_plugin_event cb m s =
     run_calls cb (m_serverId m) (m_senderId m) (plugin_event_calls (m_pJsonBody m) (m_pJsonJsep m)) s"
  by (cases "getcs (m_pJsonBody m) ''audiobridge''")
    (auto simp: dispatch_plugin_event_def plugin_event_calls_def Let_def
      dispatch_joined_calls [OF assms] dispatch_room_event_calls [OF assms]
      simp del: getcs_simps split: option.splits)

lemma dispatch_message_calls:
  assumes "pParticipantFunc cb = Some f"
  shows "dispatch_message cb ev m s = run_calls cb (m_serverId m) (m_senderId m) (event_calls ev m) s"
  by (auto simp: dispatch_message_def event_calls_def Let_def dispatch_plugin_event_calls [OF assms]
      simp del: getcs_simps split: option.splits)

section \<open>When the dispatcher is defined\<close>

text \<open>Every number of the tree can be converted to an identifier.\<close>

fun nums_ok :: "cjson \<Rightarrow> bool" where
  "nums_ok (CJson t vs vi vd s cs) \<longleftrightarrow>
     (t AND 0xFF = cJSON_Number \<longrightarrow> (case double_to_u64 vd of Inl _ \<Rightarrow> False | Inr _ \<Rightarrow> True))
     \<and> (\<forall>c \<in> set cs. nums_ok c)"

lemma nums_ok_child: "nums_ok j \<Longrightarrow> c \<in> set (child j) \<Longrightarrow> nums_ok c"
  by (cases j) auto

lemma nums_ok_number: "nums_ok j \<Longrightarrow> cJSON_IsNumber (Some j) \<Longrightarrow> double_to_u64 (valuedouble j) \<noteq> Inl e"
  by (cases j) (auto simp: cJSON_Is split: sum.splits)

definition sane :: "cjson option \<Rightarrow> bool" where
  "sane item = (case item of None \<Rightarrow> True | Some j \<Rightarrow> cj_wf j \<and> nums_ok j)"

lemma sane_simps [simp]: "sane None" "sane (Some j) \<longleftrightarrow> cj_wf j \<and> nums_ok j"
  by (simp_all add: sane_def)

lemma sane_getcs: "sane j \<Longrightarrow> sane (getcs j k)"
  by (cases j; cases "getcs j k")
    (auto dest: find_cs_set cj_wf_child nums_ok_child)

lemma sane_getcs_Some: "sane j \<Longrightarrow> getcs j k = Some e \<Longrightarrow> cj_wf e \<and> nums_ok e"
  using sane_getcs [of j k] by simp

lemma with_id_undefined:
  "Undefined e \<in> set (with_id j f) \<Longrightarrow> nums_ok j \<Longrightarrow> \<exists>i. Undefined e \<in> set (f i)"
  by (auto simp: with_id_def dest: nums_ok_number split: sum.splits if_splits)

lemma string_is_undefined:
  "Undefined e \<in> set (string_is item t calls) \<Longrightarrow> sane item \<Longrightarrow> Undefined e \<in> set calls"
  by (cases item) (auto simp: string_is_def cj_wf_no_text split: option.splits if_splits)

lemma participant_calls_defined:
  assumes "sane body"
  shows "Undefined e \<notin> set (participant_calls body)"
proof -
  have "Undefined e \<notin> set (participant_call c)" if "sane (Some c)" for c
    using sane_getcs [OF that, of "''id''"]
    by (cases "getcs (Some c) ''id''")
      (auto simp: participant_call_def Let_def simp del: getcs_simps
        split: sum.splits dest: nums_ok_number)
  then show ?thesis
    using sane_getcs [OF assms, of "''participants''"]
    by (cases "getcs body ''participants''")
      (auto simp: participant_calls_def simp del: getcs_simps dest: cj_wf_child nums_ok_child)
qed

lemma joined_calls_defined:
  assumes "sane body"
  shows "Undefined e \<notin> set (joined_calls body)"
  using participant_calls_defined [OF assms] sane_getcs [OF assms, of "''room''"]
    sane_getcs [OF assms, of "''id''"]
  by (cases "getcs body ''room''"; cases "getcs body ''id''")
    (auto simp: joined_calls_def simp del: getcs_simps split: if_splits dest!: with_id_undefined)

lemma room_event_calls_defined:
  assumes "sane body" and "sane jsep"
  shows "Undefined e \<notin> set (room_event_calls body jsep)"
  using participant_calls_defined [OF assms(1)] sane_getcs [OF assms(1)] sane_getcs [OF assms(2)]
  by (cases "getcs jsep ''sdp''")
    (auto simp: room_event_calls_def simp del: getcs_simps split: option.splits if_splits
      dest!: string_is_undefined)

lemma plugin_event_calls_defined:
  assumes "sane body" and "sane jsep"
  shows "Undefined e \<notin> set (plugin_event_calls body jsep)"
  using joined_calls_defined [OF assms(1)] room_event_calls_defined [OF assms]
    sane_getcs [OF assms(1), of "''audiobridge''"]
  by (cases "getcs body ''audiobridge''")
    (auto simp: plugin_event_calls_def cj_wf_no_text simp del: getcs_simps split: option.splits)

lemma decode_body_sane:
  assumes "decode_body j = Inr (Some (b, cand))" and "sane (Some j)"
  shows "sane b"
  using assms sane_getcs [of "Some j"] sane_getcs [of "getcs (Some j) ''plugindata''"]
  by (auto simp: decode_body_def decode_plugindata_def cbind_Inr_iff Let_def simp del: getcs_simps
      split: option.splits if_splits)

section \<open>Shape of the call lists\<close>

lemma participant_call_only:
  "c \<in> set (participant_call j) \<Longrightarrow> (\<exists>p b. c = Participant p False b) \<or> (\<exists>e. c = Undefined e)"
  by (cases "getcs (Some j) ''id''")
    (auto simp: participant_call_def Let_def simp del: getcs_simps split: if_splits sum.splits)

lemma participant_calls_only:
  "c \<in> set (participant_calls body) \<Longrightarrow> (\<exists>p b. c = Participant p False b) \<or> (\<exists>e. c = Undefined e)"
  by (cases "getcs body ''participants''")
    (auto simp: participant_calls_def simp del: getcs_simps split: if_splits
      dest!: participant_call_only)

lemma with_id_cases:
  obtains "with_id j f = []" | e where "with_id j f = [Undefined e]" | i where "with_id j f = f i"
  by (cases "double_to_u64 (valuedouble j)"; cases "cJSON_IsNumber (Some j)";
      cases "cJSON_IsString (Some j)") (auto simp: with_id_def)

lemma joined_calls_cases:
  obtains "joined_calls body = []"
  | e where "joined_calls body = [Undefined e]"
  | "joined_calls body = participant_calls body"
  | r p self where "joined_calls body = Joined r p # self @ participant_calls body"
      and "self = [] \<or> (\<exists>q. self = [Participant q True True])"
proof (cases "getcs body ''room''")
  case None
  then show ?thesis by (intro that(1)) (simp add: joined_calls_def del: getcs_simps)
next
  case (Some room)
  let ?self = "\<lambda>pid p. if cJSON_IsNumber (Some pid) then [Participant (Some (id_text p)) True True]
     else if valuestring pid = None then [] else [Participant (valuestring pid) True True]"
  define inner where "inner r = (case getcs body ''id'' of
      None \<Rightarrow> participant_calls body
    | Some pid \<Rightarrow> with_id pid (\<lambda>p. Joined r p # ?self pid p @ participant_calls body))" for r
  have eq: "joined_calls body = with_id room inner"
    by (simp add: joined_calls_def Some inner_def [abs_def] del: getcs_simps)
  show ?thesis
  proof (rule with_id_cases [of room inner])
    fix r
    assume r: "with_id room inner = inner r"
    show ?thesis
    proof (cases "getcs body ''id''")
      case None
      then show ?thesis using eq r by (intro that(3)) (simp add: inner_def del: getcs_simps)
    next
      case (Some pid)
      have "inner r = with_id pid (\<lambda>p. Joined r p # ?self pid p @ participant_calls body)"
        by (simp add: inner_def Some del: getcs_simps)
      with eq r show ?thesis
        by (cases rule: with_id_cases [of pid "\<lambda>p. Joined r p # ?self pid p @ participant_calls body"])
          (auto intro: that split: if_splits)
    qed
  qed (use eq in \<open>auto intro: that\<close>)
qed

lemma string_is_cases:
  obtains "string_is item t calls = []" | "string_is item t calls = [Undefined NullDeref]"
  | "string_is item t calls = calls" "\<exists>j. item = Some j \<and> valuestring j = Some t"
  by (cases item; cases "cJSON_IsString item"; cases "valuestring (the item)";
      cases "valuestring (the item) = Some t") (auto simp: string_is_def)

lemma room_event_calls_cases:
  obtains "room_event_calls body jsep = []"
  | e where "room_event_calls body jsep = [Undefined e]"
  | "room_event_calls body jsep = participant_calls body"
  | sdp where "room_event_calls body jsep = [Accepted sdp, AnswerUnlessWebrtcup]"
      and "\<exists>j. getcs jsep ''type'' = Some j \<and> valuestring j = Some ''answer''"
  | r where "room_event_calls body jsep = [Hungup r]" and "getcs body ''error_code'' \<noteq> None"
proof (cases "getcs body ''result''")
  case None
  show ?thesis
  proof (cases "getcs body ''leaving'' = None \<and> getcs body ''error_code'' \<noteq> None \<and> getcs body ''error'' \<noteq> None")
    case True
    then show ?thesis using None that(1,5)
      by (fastforce simp: room_event_calls_def simp del: getcs_simps split: if_splits)
  next
    case False
    then show ?thesis using None that(1,3)
      by (cases "getcs body ''leaving''"; cases "getcs body ''error_code''"; cases "getcs body ''error''")
        (auto simp: room_event_calls_def simp del: getcs_simps)
  qed
next
  case (Some r)
  let ?acc = "case getcs jsep ''sdp'' of None \<Rightarrow> []
     | Some sdp \<Rightarrow> if cJSON_IsString (Some sdp)
                   then [Accepted (valuestring sdp), AnswerUnlessWebrtcup] else []"
  define acc where "acc = ?acc"
  define ans where "ans = string_is (getcs jsep ''type'') ''answer'' acc"
  have eq: "room_event_calls body jsep = string_is (Some r) ''ok'' ans"
    by (simp add: room_event_calls_def Some ans_def acc_def del: getcs_simps)
  have acc: "acc = [] \<or> (\<exists>sdp. acc = [Accepted sdp, AnswerUnlessWebrtcup])"
    unfolding acc_def by (cases "getcs jsep ''sdp''") (simp_all del: getcs_simps)
  show ?thesis
  proof (rule string_is_cases [of "Some r" "''ok''" ans])
    assume ok: "string_is (Some r) ''ok'' ans = ans"
    show ?thesis
    proof (rule string_is_cases [of "getcs jsep ''type''" "''answer''" acc])
      assume "string_is (getcs jsep ''type'') ''answer'' acc = acc"
        and ty: "\<exists>j. getcs jsep ''type'' = Some j \<and> valuestring j = Some ''answer''"
      then have "room_event_calls body jsep = acc" using eq ok ans_def by simp
      then show ?thesis using acc ty that(1,4) by auto
    qed (use eq ok ans_def that(1,2) in auto)
  qed (use eq that(1,2) in auto)
qed

lemma plugin_event_calls_cases:
  obtains "plugin_event_calls body jsep = []"
  | e where "plugin_event_calls body jsep = [Undefined e]"
  | "plugin_event_calls body jsep = joined_calls body"
  | "plugin_event_calls body jsep = room_event_calls body jsep"
proof (cases "getcs body ''audiobridge''")
  case None
  then show ?thesis by (intro that(1)) (simp add: plugin_event_calls_def del: getcs_simps)
next
  case (Some a)
  consider "\<not> cJSON_IsString (Some a)" | "cJSON_IsString (Some a)" "valuestring a = None"
    | t where "cJSON_IsString (Some a)" "valuestring a = Some t" "t = ''joined''"
    | t where "cJSON_IsString (Some a)" "valuestring a = Some t" "t = ''event''"
    | t where "cJSON_IsString (Some a)" "valuestring a = Some t" "t \<noteq> ''joined''" "t \<noteq> ''event''"
    by fastforce
  then show ?thesis
    by cases (use Some that in \<open>simp_all add: plugin_event_calls_def del: getcs_simps\<close>)
qed

text \<open>
  Apart from an event without a type the dispatcher itself is defined: for a well-formed event that
  has a string \<open>janus\<close> member and whose numbers fit identifiers, decoding is defined and no call of the
  event is undefined, so that only a callback could fail.
\<close>

lemma decode_defined:
  assumes "cj_wf j" and "nums_ok j"
  shows "decode (Some j) \<noteq> Inl e"
proof -
  have "double_to_u64 (valuedouble n) \<noteq> Inl e"
    if "getcs (Some j) k = Some n" "cJSON_IsNumber (Some n)" for k n
    using that sane_getcs_Some [of "Some j" k n] assms(1,2) by (simp add: nums_ok_number)
  then have ids: "decode_id (getcs (Some j) k) \<noteq> Inl e" for k
    by (blast dest: decode_id_ub)
  show ?thesis
    using decode_body_no_ub [OF assms(1)] ids
    by (auto simp: decode_def nbind_Inl_iff Let_def simp del: getcs_simps split: if_splits)
qed

lemma event_defined:
  assumes "cj_wf j" and "nums_ok j" and "cJSON_IsString (getcs (Some j) ''janus'')"
  shows "(\<forall>e. decode (Some j) \<noteq> Inl e)
    \<and> (\<forall>m. decode (Some j) = Inr (Some m) \<longrightarrow> (\<forall>e. Undefined e \<notin> set (event_calls (Some j) m)))"
proof (intro conjI allI impI)
  show "decode (Some j) \<noteq> Inl e" for e by (rule decode_defined [OF assms(1,2)])
next
  fix m e
  assume dec: "decode (Some j) = Inr (Some m)"
  have sane: "sane (Some j)" using assms by simp
  obtain body cand where body: "decode_body j = Inr (Some (body, cand))" and m: "m_pJsonBody m = body"
    "m_pJsonJsep m = getcs (Some j) ''jsep''"
    "decode_str (getcs (Some j) JANUS_STRING) = Some (m_pType m)"
    by (rule decode_SomeD [OF dec])
  obtain ty where ty: "m_pType m = Some ty"
    using m(3) assms(1,3)
    by (cases "getcs (Some j) ''janus''"; cases "m_pType m")
      (auto simp: decode_str_def JANUS_STRING_def dest: cj_wf_find_string)
  have "sane (m_pJsonBody m)" using decode_body_sane [OF body sane] m(1) by simp
  moreover have "sane (m_pJsonJsep m)" using sane_getcs [OF sane] m(2) by simp
  ultimately have "Undefined e \<notin> set (plugin_event_calls (m_pJsonBody m) (m_pJsonJsep m))"
    by (rule plugin_event_calls_defined)
  then show "Undefined e \<notin> set (event_calls (Some j) m)"
    by (cases "getcs (Some j) ''reason''") (auto simp: event_calls_def ty simp del: getcs_simps)
qed

text \<open>Callbacks that never run into undefined behaviour, whatever they are called with.\<close>

definition callbacks_total :: "'s callbacks \<Rightarrow> bool" where
  "callbacks_total cb \<longleftrightarrow>
     (\<forall>c sid hid s. (\<forall>e. c \<noteq> Undefined e) \<longrightarrow> (\<exists>s'. run_call cb sid hid c s = Inr s'))"

lemma run_calls_total:
  assumes "callbacks_total cb" and "\<forall>e. Undefined e \<notin> set cs"
  shows "\<exists>s'. run_calls cb sid hid cs s = Inr s'"
  using assms(2)
proof (induction cs arbitrary: s)
  case (Cons c cs)
  then obtain s1 where "run_call cb sid hid c s = Inr s1"
    using assms(1) unfolding callbacks_total_def by (metis list.set_intros(1))
  with Cons show ?case by simp
qed simp

text \<open>An event a Janus server sends: a well-formed object with a type and identifiers in range.\<close>

definition typed_event :: "cjson \<Rightarrow> bool" where
  "typed_event j \<longleftrightarrow> cj_wf j \<and> nums_ok j \<and> cJSON_IsString (getcs (Some j) ''janus'')"

lemma dispatch_event_total:
  assumes "callbacks_total cb" and "pParticipantFunc cb = Some f" and "typed_event j"
  shows "\<exists>s'. api_dispatch_poll_event cb (Some j) s = Inr s'"
proof -
  have wf: "cj_wf j" "nums_ok j" "cJSON_IsString (getcs (Some j) ''janus'')"
    using assms(3) by (simp_all add: typed_event_def)
  show ?thesis
  proof (cases "decode (Some j)")
    case (Inl e)
    with event_defined [OF wf] show ?thesis by blast
  next
    case (Inr r)
    show ?thesis
    proof (cases r)
      case None
      with Inr show ?thesis by (simp add: api_dispatch_poll_event_def)
    next
      case (Some m)
      with Inr event_defined [OF wf] have "\<forall>e. Undefined e \<notin> set (event_calls (Some j) m)" by blast
      from run_calls_total [OF assms(1) this] show ?thesis
        using Inr Some by (simp add: api_dispatch_poll_event_def dispatch_message_calls [OF assms(2)])
    qed
  qed
qed

lemma dispatch_events_total:
  assumes "callbacks_total cb" and "pParticipantFunc cb = Some f" and "\<forall>j \<in> set es. typed_event j"
  shows "\<exists>s'. dispatch_events cb es s = Inr s'"
  using assms(3)
proof (induction es arbitrary: s)
  case (Cons e es)
  then obtain s1 where "api_dispatch_poll_event cb (Some e) s = Inr s1"
    using dispatch_event_total [OF assms(1,2)] by (metis list.set_intros(1))
  with Cons show ?case by simp
qed simp

text \<open>An event that is accepted without a type; an item without members is one.\<close>

definition untyped_event :: "cjson \<Rightarrow> bool" where
  "untyped_event j \<longleftrightarrow> getcs (Some j) ''janus'' = None \<and> decode (Some j) \<noteq> Inr None"

lemma scalar_untyped: "child j = [] \<Longrightarrow> untyped_event j"
  by (simp add: untyped_event_def decode_def decode_body_def decode_str_def decode_id_def zero_message_def)

lemma dispatch_event_cases:
  assumes "callbacks_total cb" and "pParticipantFunc cb = Some f" and "cj_wf j" and "nums_ok j"
  shows "if untyped_event j then api_dispatch_poll_event cb (Some j) s = Inl NullDeref
    else \<exists>s'. api_dispatch_poll_event cb (Some j) s = Inr s'"
proof (cases "decode (Some j)")
  case (Inl e)
  with decode_defined [OF assms(3,4)] show ?thesis by blast
next
  case (Inr r)
  show ?thesis
  proof (cases r)
    case None
    with Inr show ?thesis by (simp add: untyped_event_def api_dispatch_poll_event_def)
  next
    case (Some m)
    then have "decode_str (getcs (Some j) ''janus'') = Some (m_pType m)"
      using Inr by (auto simp: JANUS_STRING_def elim: decode_SomeD)
    then consider "getcs (Some j) ''janus'' = None" "m_pType m = None" | "cJSON_IsString (getcs (Some j) ''janus'')"
      by (cases "getcs (Some j) ''janus''") (auto simp: decode_str_def split: if_splits)
    then show ?thesis
    proof cases
      case 1
      then show ?thesis using Inr Some
        by (simp add: untyped_event_def api_dispatch_poll_event_def dispatch_message_def Let_def)
    next
      case 2
      then have "typed_event j" "\<not> untyped_event j"
        using assms(3,4) by (auto simp: typed_event_def untyped_event_def cJSON_Is simp del: getcs_simps split: option.splits)
      then show ?thesis using dispatch_event_total [OF assms(1,2)] by simp
    qed
  qed
qed

lemma dispatch_events_cases:
  assumes "callbacks_total cb" and "pParticipantFunc cb = Some f" and "\<forall>j \<in> set es. cj_wf j \<and> nums_ok j"
  shows "if \<exists>j \<in> set es. untyped_event j then dispatch_events cb es s = Inl NullDeref
    else \<exists>s'. dispatch_events cb es s = Inr s'"
  using assms(3)
proof (induction es arbitrary: s)
  case (Cons e es)
  have wf: "cj_wf e" "nums_ok e" "\<forall>j \<in> set es. cj_wf j \<and> nums_ok j" using Cons.prems by simp_all
  show ?case
  proof (cases "untyped_event e")
    case True
    then show ?thesis using dispatch_event_cases [OF assms(1,2) wf(1,2), of s] by simp
  next
    case False
    then obtain s1 where "api_dispatch_poll_event cb (Some e) s = Inr s1"
      using dispatch_event_cases [OF assms(1,2) wf(1,2), of s] by auto
    then show ?thesis using Cons.IH [OF wf(3), of s1] False by simp
  qed
qed simp

section \<open>Properties\<close>

text \<open>
  C7: the dispatcher implements its abstract view. For every event and every state,
  \<open>api_dispatch_poll_event\<close> does nothing when the event cannot be decoded and otherwise runs, in
  order, exactly the callbacks that \<open>event_calls\<close> lists for the decoded message, all of them with the
  session and handle identifiers of that message.
\<close>

theorem dispatch_refines_calls:
  assumes "pParticipantFunc cb = Some f"
  shows "api_dispatch_poll_event cb ev s =
    cbind (decode ev) (\<lambda>r. case r of
       None \<Rightarrow> Inr s
     | Some m \<Rightarrow> run_calls cb (m_serverId m) (m_senderId m) (event_calls ev m) s)"
  by (auto simp: api_dispatch_poll_event_def dispatch_message_calls [OF assms] split: option.splits
      intro!: cbind_cong)

text \<open>A module that only records the calls it receives, for evaluating the dispatcher.\<close>

definition log_callbacks :: "call list callbacks" where
  "log_callbacks = \<lparr>
     pJoinedFunc = (\<lambda>_ _ r p s. Inr (SWITCH_STATUS_SUCCESS, s @ [Joined r p])),
     pAcceptedFunc = (\<lambda>_ _ sdp s. Inr (SWITCH_STATUS_SUCCESS, s @ [Accepted sdp])),
     pTrickleFunc = (\<lambda>_ _ c s. Inr (SWITCH_STATUS_SUCCESS, s @ [Trickled c])),
     pAnswerOnWebrtcupFunc = Some (\<lambda>_ _ _. True),
     pAnsweredFunc = (\<lambda>_ _ s. Inr (SWITCH_STATUS_SUCCESS, s @ [AnswerIfWebrtcup])),
     pHungupFunc = (\<lambda>_ _ r s. Inr (SWITCH_STATUS_SUCCESS, s @ [Hungup r])),
     pParticipantFunc = Some (\<lambda>_ _ p self b s. Inr (SWITCH_STATUS_SUCCESS, s @ [Participant p self b]))\<rparr>"

theorem dispatch_refines_calls_witness:
  "api_dispatch_poll_event log_callbacks
     (Some (push cJSON_CreateObject (str_item ''janus'' ''detached''))) [] = Inr [Hungup None]"
proof -
  have cb: "pParticipantFunc log_callbacks =
      Some (\<lambda>_ _ p self b s. Inr (SWITCH_STATUS_SUCCESS, s @ [Participant p self b]))"
    by (simp add: log_callbacks_def)
  show ?thesis
    by (subst dispatch_refines_calls [OF cb])
      (simp add: decode_def decode_body_def decode_str_def decode_id_def JANUS_STRING_def
        event_calls_def run_cb_def log_callbacks_def)
qed

text \<open>
  An event without a \<open>janus\<close> member crashes the dispatcher. Whatever the callbacks, an item
  without children (a string or a number) makes it pass a NULL type to \<open>strcmp\<close>; in particular this
  happens when \<open>apiPoll\<close> walks over the members of a response that is an object instead of an array,
  as an error response is.
\<close>

theorem dispatch_scalar_event_crashes:
  assumes "child e = []"
  shows "dispatch_events cb (e # es) s = Inl NullDeref"
proof -
  have "decode (Some e) = Inr (Some zero_message)"
    by (simp add: decode_def decode_body_def decode_str_def decode_id_def assms zero_message_def)
  then show ?thesis
    by (simp add: api_dispatch_poll_event_def dispatch_message_def zero_message_def)
qed

theorem dispatch_scalar_event_crashes_witness:
  "dispatch_events log_callbacks [str_item ''janus'' ''error'', str_item ''transaction'' ''t1''] [] =
     Inl NullDeref"
  by (rule dispatch_scalar_event_crashes) simp

text \<open>
  What an event can make the module do. A call is hung up only by a hangup, a detached or an
  error event, and such an event does nothing else; an SDP answer is accepted only from an
  event with an \<open>answer\<close> jsep and is always followed by the answer request; an event reports at
  most one join, before any participant report.
\<close>

theorem event_calls_shape:
  shows "(Hungup r \<in> set (event_calls ev m) \<longrightarrow>
        event_calls ev m = [Hungup r] \<and> m_pType m \<in> {Some ''hangup'', Some ''detached'', Some ''event''}
        \<and> (m_pType m = Some ''event'' \<longrightarrow> getcs (m_pJsonBody m) ''error_code'' \<noteq> None))
    \<and> (Accepted sdp \<in> set (event_calls ev m) \<longrightarrow>
        event_calls ev m = [Accepted sdp, AnswerUnlessWebrtcup] \<and> m_pType m = Some ''event''
        \<and> (\<exists>j. getcs (m_pJsonJsep m) ''type'' = Some j \<and> valuestring j = Some ''answer''))
    \<and> (Joined rm p \<in> set (event_calls ev m) \<longrightarrow>
        (\<exists>cs. event_calls ev m = Joined rm p # cs \<and> (\<forall>rm' p'. Joined rm' p' \<notin> set cs)))"
proof -
  have parts: "c \<notin> set (participant_calls b)" if "\<forall>p self x. c \<noteq> Participant p self x" "\<forall>e. c \<noteq> Undefined e"
    for c b using that by (blast dest: participant_calls_only)
  let ?ev = "plugin_event_calls (m_pJsonBody m) (m_pJsonJsep m)"
  have plugin: "(Hungup r \<in> set ?ev \<longrightarrow> ?ev = [Hungup r] \<and> getcs (m_pJsonBody m) ''error_code'' \<noteq> None)
     \<and> (Accepted sdp \<in> set ?ev \<longrightarrow> ?ev = [Accepted sdp, AnswerUnlessWebrtcup]
         \<and> (\<exists>j. getcs (m_pJsonJsep m) ''type'' = Some j \<and> valuestring j = Some ''answer''))
     \<and> (Joined rm p \<in> set ?ev \<longrightarrow> (\<exists>cs. ?ev = Joined rm p # cs \<and> (\<forall>rm' p'. Joined rm' p' \<notin> set cs)))"
    apply (rule plugin_event_calls_cases [of "m_pJsonBody m" "m_pJsonJsep m"])
       apply (simp_all del: getcs_simps)
    subgoal
      by (rule joined_calls_cases [of "m_pJsonBody m"]) (auto simp: parts simp del: getcs_simps)
    subgoal
      by (rule room_event_calls_cases [of "m_pJsonBody m" "m_pJsonJsep m"])
        (auto simp: parts simp del: getcs_simps)
    done
  show ?thesis
    using plugin
    by (cases "m_pType m"; cases "getcs ev ''reason''")
      (auto simp: event_calls_def simp del: getcs_simps split: if_splits)
qed

theorem event_calls_shape_witness:
  "event_calls None (zero_message\<lparr>m_pType := Some ''detached''\<rparr>) = [Hungup None]"
  using event_calls_shape [of None None "zero_message\<lparr>m_pType := Some ''detached''\<rparr>"]
  by (simp add: event_calls_def)

end
