(* ===== verification/Hash.thy ===== *)
theory Hash
  imports Janus_Prelude
begin

text \<open>
  \<open>hash.c\<close>: the wrapper that lets the string-keyed hash tables of the FreeSWITCH core
  be used with 64-bit identifiers as keys.

  The core's tables are not part of this repository. They are a parameter, the record
  \<open>'h core_hash\<close> of the functions \<open>hash.c\<close> and \<open>servers.c\<close> call on a table of
  some type \<open>'h\<close>; a stored \<open>void *\<close> is a \<open>ptr\<close>, the address of an object, and a result that may
  be NULL a \<open>ptr option\<close>, so that the assertions that a stored pointer is not NULL hold by type. What the module relies on is the
  locale \<open>core_table\<close>: a table is a finite map from strings to pointers, an insertion
  that reports success replaces the entry of its key only, a deletion returns and removes
  the entry of its key only, an iteration visits each entry once.

  The locale \<open>id_table\<close> is the contract \<open>hash.c\<close> offers its own clients, a map from
  identifiers; the sublocale declaration below shows that \<open>hash.c\<close> over any
  \<open>core_table\<close> provides it. \<open>alist_core\<close>, an association list, is a concrete core table on which
  \<open>core_table\<close> is interpreted and on which properties are evaluated.
\<close>

section \<open>The core's string tables\<close>

record 'h core_hash =
  core_hash_init :: "switch_status_t \<times> 'h"
  core_hash_insert :: "'h \<Rightarrow> string \<Rightarrow> ptr \<Rightarrow> switch_status_t \<times> 'h"
  core_hash_find :: "'h \<Rightarrow> string \<Rightarrow> ptr option"
  core_hash_delete :: "'h \<Rightarrow> string \<Rightarrow> ptr option \<times> 'h"
  core_hash_entries :: "'h \<Rightarrow> (string \<times> ptr) list"
  core_hash_destroy :: "'h \<Rightarrow> switch_status_t \<times> 'h"

section \<open>The wrapper\<close>

record 'h hash_t =
  pMutex :: bool
  pTable :: 'h

definition idToStr :: "janus_id_t \<Rightarrow> string" where
  "idToStr i = nat_str (unat i)"

text \<open>
  The mutex and the table are created in this order; a failure of the second destroys the first.
  \<open>pMutex\<close> records whether the mutex exists.
\<close>

definition hashCreate ::
  "'h core_hash \<Rightarrow> switch_status_t \<Rightarrow> 'h hash_t \<Rightarrow> switch_status_t \<times> 'h hash_t" where
  "hashCreate C mutex_init h =
     (if mutex_init = SWITCH_STATUS_SUCCESS then
        (let (st, t) = core_hash_init C in
         if st \<noteq> SWITCH_STATUS_SUCCESS then (st, h\<lparr>pMutex := False\<rparr>)
         else (st, \<lparr>pMutex = True, pTable = t\<rparr>))
      else (mutex_init, h))"

definition hashInsert ::
  "'h core_hash \<Rightarrow> 'h hash_t \<Rightarrow> janus_id_t \<Rightarrow> ptr \<Rightarrow> switch_status_t \<times> 'h hash_t" where
  "hashInsert C h i p =
     (let (st, t) = core_hash_insert C (pTable h) (idToStr i) p in (st, h\<lparr>pTable := t\<rparr>))"

definition hashFind :: "'h core_hash \<Rightarrow> 'h hash_t \<Rightarrow> janus_id_t \<Rightarrow> ptr option" where
  "hashFind C h i = core_hash_find C (pTable h) (idToStr i)"

definition hashDelete ::
  "'h core_hash \<Rightarrow> 'h hash_t \<Rightarrow> janus_id_t \<Rightarrow> switch_status_t \<times> 'h hash_t" where
  "hashDelete C h i =
     (let (r, t) = core_hash_delete C (pTable h) (idToStr i) in
      (if r \<noteq> None then SWITCH_STATUS_SUCCESS else SWITCH_STATUS_FALSE, h\<lparr>pTable := t\<rparr>))"

text \<open>
  An iterator is the list of the entries it has still to deliver, headed by the current
  one; \<open>None\<close> is the NULL index, which starts an iteration.
\<close>

type_synonym hash_index = "(string \<times> ptr) list"

definition hash_advance :: "hash_index \<Rightarrow> hash_index option" where
  "hash_advance es = (if es = [] then None else Some es)"

definition hashIterate ::
  "'h core_hash \<Rightarrow> 'h hash_t \<Rightarrow> hash_index option \<Rightarrow> ptr option \<times> hash_index option" where
  "hashIterate C h ix =
     (let ix' = (case ix of None \<Rightarrow> hash_advance (core_hash_entries C (pTable h))
                          | Some es \<Rightarrow> hash_advance (tl es))
      in (map_option (\<lambda>es. snd (hd es)) ix', ix'))"

text \<open>
  Both results are or-ed together; they are used only as "every part succeeded". The mutex pointer
  is reset, so \<open>pMutex\<close> is false for a destroyed table.
\<close>

definition hashDestroy ::
  "'h core_hash \<Rightarrow> switch_status_t \<Rightarrow> 'h hash_t \<Rightarrow> bool \<times> 'h hash_t" where
  "hashDestroy C mutex_destroy h =
     (let (st, t) = core_hash_destroy C (pTable h) in
      (st = SWITCH_STATUS_SUCCESS \<and> mutex_destroy = SWITCH_STATUS_SUCCESS,
       h\<lparr>pTable := t, pMutex := False\<rparr>))"

text \<open>The loop \<open>while ((p = hashIterate(..., &ix)) != NULL)\<close>: the pointers it delivers.\<close>

fun iterate_all ::
  "nat \<Rightarrow> 'h core_hash \<Rightarrow> 'h hash_t \<Rightarrow> hash_index option \<Rightarrow> ptr list option" where
  "iterate_all 0 C h ix = None"
| "iterate_all (Suc fuel) C h ix =
     (case hashIterate C h ix of
        (None, _) \<Rightarrow> Some []
      | (Some p, ix') \<Rightarrow> map_option (Cons p) (iterate_all fuel C h ix'))"

section \<open>Contracts\<close>

locale core_table =
  fixes C :: "'h core_hash"
  assumes init_find:
      "core_hash_init C = (SWITCH_STATUS_SUCCESS, t) \<Longrightarrow> core_hash_find C t k = None"
    and insert_success:
      "core_hash_insert C t k p = (SWITCH_STATUS_SUCCESS, t') \<Longrightarrow>
       core_hash_find C t' k' = (if k' = k then Some p else core_hash_find C t k')"
    and insert_failure:
      "core_hash_insert C t k p = (st, t') \<Longrightarrow> st \<noteq> SWITCH_STATUS_SUCCESS \<Longrightarrow>
       core_hash_find C t' k' = core_hash_find C t k'"
    and delete_result: "core_hash_delete C t k = (r, t') \<Longrightarrow> r = core_hash_find C t k"
    and delete_find:
      "core_hash_delete C t k = (r, t') \<Longrightarrow>
       core_hash_find C t' k' = (if k' = k then None else core_hash_find C t k')"
    and entries_find: "map_of (core_hash_entries C t) = core_hash_find C t"
    and entries_distinct: "distinct (map fst (core_hash_entries C t))"

locale id_table =
  fixes ins :: "'t \<Rightarrow> janus_id_t \<Rightarrow> ptr \<Rightarrow> switch_status_t \<times> 't"
    and fnd :: "'t \<Rightarrow> janus_id_t \<Rightarrow> ptr option"
    and del :: "'t \<Rightarrow> janus_id_t \<Rightarrow> switch_status_t \<times> 't"
  assumes fnd_ins:
      "ins t i p = (SWITCH_STATUS_SUCCESS, t') \<Longrightarrow> fnd t' = (fnd t)(i \<mapsto> p)"
    and fnd_ins_fail:
      "ins t i p = (st, t') \<Longrightarrow> st \<noteq> SWITCH_STATUS_SUCCESS \<Longrightarrow> fnd t' = fnd t"
    and fnd_del: "del t i = (st, t') \<Longrightarrow> fnd t' = (fnd t)(i := None)"
    and del_status:
      "fst (del t i) = (if fnd t i = None then SWITCH_STATUS_FALSE else SWITCH_STATUS_SUCCESS)"
begin

lemma dom_ins: "ins t i p = (st, t') \<Longrightarrow> dom (fnd t') \<subseteq> insert i (dom (fnd t))"
  by (cases "st = SWITCH_STATUS_SUCCESS") (auto dest: fnd_ins fnd_ins_fail)

lemma del_twice:
  assumes "del t i = (st, t')"
  shows "fst (del t' i) = SWITCH_STATUS_FALSE"
  using fnd_del [OF assms] by (simp add: del_status)

lemma ins_del_inverse:
  assumes "ins t i p = (SWITCH_STATUS_SUCCESS, t')" and "del t' i = (st, t'')" and "fnd t i = None"
  shows "st = SWITCH_STATUS_SUCCESS \<and> fnd t'' = fnd t"
proof -
  have "fnd t' = (fnd t)(i \<mapsto> p)" using assms(1) by (rule fnd_ins)
  moreover have "fnd t'' = (fnd t')(i := None)" using assms(2) by (rule fnd_del)
  moreover have "st = fst (del t' i)" using assms(2) by simp
  ultimately show ?thesis using assms(3) by (auto simp: del_status fun_eq_iff)
qed

end

lemma idToStr_eq_iff [simp]: "idToStr i = idToStr j \<longleftrightarrow> i = j"
  by (simp add: idToStr_def word_unat_eq_iff)

sublocale core_table \<subseteq> ids: id_table "hashInsert C" "hashFind C" "hashDelete C"
proof unfold_locales
  fix t i p t'
  assume "hashInsert C t i p = (SWITCH_STATUS_SUCCESS, t')"
  then show "hashFind C t' = (hashFind C t)(i \<mapsto> p)"
    by (auto simp: hashInsert_def hashFind_def fun_eq_iff split: prod.splits
        simp: insert_success)
next
  fix t i p st t'
  assume "hashInsert C t i p = (st, t')" "st \<noteq> SWITCH_STATUS_SUCCESS"
  then show "hashFind C t' = hashFind C t"
    by (auto simp: hashInsert_def hashFind_def fun_eq_iff split: prod.splits
        simp: insert_failure)
next
  fix t i st t'
  assume "hashDelete C t i = (st, t')"
  then show "hashFind C t' = (hashFind C t)(i := None)"
    by (auto simp: hashDelete_def hashFind_def fun_eq_iff split: prod.splits
        simp: delete_find)
next
  fix t i
  show "fst (hashDelete C t i) =
      (if hashFind C t i = None then SWITCH_STATUS_FALSE else SWITCH_STATUS_SUCCESS)"
    by (cases "core_hash_delete C (pTable t) (idToStr i)")
      (auto simp: hashDelete_def hashFind_def dest!: delete_result)
qed

context core_table
begin

lemma hashFind_hashInsert:
  "hashInsert C h i p = (SWITCH_STATUS_SUCCESS, h') \<Longrightarrow> hashFind C h' = (hashFind C h)(i \<mapsto> p)"
  by (rule ids.fnd_ins)

lemma hashFind_hashInsert_fail:
  "hashInsert C h i p = (st, h') \<Longrightarrow> st \<noteq> SWITCH_STATUS_SUCCESS \<Longrightarrow> hashFind C h' = hashFind C h"
  by (rule ids.fnd_ins_fail)

lemma hashFind_hashDelete: "hashFind C (snd (hashDelete C h i)) = (hashFind C h)(i := None)"
  by (cases "hashDelete C h i") (simp add: ids.fnd_del)

lemma hashDelete_status:
  "fst (hashDelete C h i) =
     (if hashFind C h i = None then SWITCH_STATUS_FALSE else SWITCH_STATUS_SUCCESS)"
  by (rule ids.del_status)

end

section \<open>Iteration\<close>

lemma iterate_all_Some:
  "length es < fuel \<Longrightarrow> iterate_all fuel C h (Some (e # es)) = Some (map snd es)"
proof (induction fuel arbitrary: e es)
  case 0
  then show ?case by simp
next
  case (Suc fuel)
  then show ?case
    by (cases es) (auto simp: hashIterate_def hash_advance_def)
qed

lemma iterate_all_None:
  assumes "length (core_hash_entries C (pTable h)) < fuel"
  shows "iterate_all fuel C h None = Some (map snd (core_hash_entries C (pTable h)))"
proof -
  obtain n where fuel: "fuel = Suc n" using assms by (cases fuel) auto
  show ?thesis
  proof (cases "core_hash_entries C (pTable h)")
    case Nil
    then show ?thesis by (simp add: fuel hashIterate_def hash_advance_def)
  next
    case (Cons e es)
    with assms fuel have "iterate_all n C h (Some (e # es)) = Some (map snd es)"
      by (intro iterate_all_Some) simp
    with Cons show ?thesis by (simp add: fuel hashIterate_def hash_advance_def)
  qed
qed

section \<open>A concrete core table\<close>

definition alist_core :: "(string \<times> ptr) list core_hash" where
  "alist_core = \<lparr>
     core_hash_init = (SWITCH_STATUS_SUCCESS, []),
     core_hash_insert = (\<lambda>t k p. (SWITCH_STATUS_SUCCESS, (k, p) # filter (\<lambda>e. fst e \<noteq> k) t)),
     core_hash_find = (\<lambda>t k. map_of t k),
     core_hash_delete = (\<lambda>t k. (map_of t k, filter (\<lambda>e. fst e \<noteq> k) t)),
     core_hash_entries = (\<lambda>t. map (\<lambda>k. (k, the (map_of t k))) (remdups (map fst t))),
     core_hash_destroy = (\<lambda>t. (SWITCH_STATUS_SUCCESS, []))\<rparr>"

lemma map_of_filter_key: "map_of (filter (\<lambda>e. fst e \<noteq> k) t) = (map_of t)(k := None)"
  by (induction t) (auto simp: fun_eq_iff)

lemma map_of_keys: "map_of (map (\<lambda>k. (k, the (map_of t k))) (remdups (map fst t))) = map_of t"
proof
  fix k
  have "map_of (map (\<lambda>k. (k, the (map_of t k))) ks) k =
      (if k \<in> set ks then Some (the (map_of t k)) else None)" for ks
    by (induction ks) auto
  moreover have "k \<in> set (map fst t) \<longleftrightarrow> map_of t k \<noteq> None"
    by (simp add: map_of_eq_None_iff)
  ultimately show "map_of (map (\<lambda>k. (k, the (map_of t k))) (remdups (map fst t))) k = map_of t k"
    by auto
qed

lemmas alist_core_sel [simp] = alist_core_def [THEN arg_cong, of core_hash_init, simplified]
  alist_core_def [THEN arg_cong, of core_hash_insert, simplified]
  alist_core_def [THEN arg_cong, of core_hash_find, simplified]
  alist_core_def [THEN arg_cong, of core_hash_delete, simplified]
  alist_core_def [THEN arg_cong, of core_hash_entries, simplified]
  alist_core_def [THEN arg_cong, of core_hash_destroy, simplified]

interpretation alist: core_table alist_core
proof unfold_locales
  fix t :: "(string \<times> ptr) list"
  show "map_of (core_hash_entries alist_core t) = core_hash_find alist_core t"
    by (simp add: map_of_keys)
  show "distinct (map fst (core_hash_entries alist_core t))"
    by (simp add: comp_def)
qed (auto simp: map_of_filter_key split: if_splits)

section \<open>Properties\<close>

text \<open>
  C12: over any core table that meets its contract, the identifier table of \<open>hash.c\<close> is a
  map from 64-bit identifiers. After a successful \<open>hashInsert\<close> the identifier is found
  with the stored pointer and every other identifier is found as before; a later
  \<open>hashDelete\<close> succeeds, and restores every lookup when the identifier was new. Distinct
  identifiers never share a string key.
\<close>

theorem hash_insert_find_delete:
  assumes "core_table C" and "hashInsert C h i p = (SWITCH_STATUS_SUCCESS, h')"
  shows "hashFind C h' j = (if j = i then Some p else hashFind C h j)
    \<and> fst (hashDelete C h' i) = SWITCH_STATUS_SUCCESS
    \<and> hashFind C (snd (hashDelete C h' i)) j = (if j = i then None else hashFind C h j)"
  using core_table.hashFind_hashInsert [OF assms]
  by (simp add: core_table.hashFind_hashDelete [OF assms(1)] core_table.hashDelete_status [OF assms(1)])

theorem hash_insert_find_delete_witness:
  "hashFind alist_core (snd (hashInsert alist_core \<lparr>pMutex = True, pTable = []\<rparr> 7 42)) 7 = Some 42"
proof -
  have ins: "hashInsert alist_core \<lparr>pMutex = True, pTable = []\<rparr> 7 42 =
      (SWITCH_STATUS_SUCCESS, snd (hashInsert alist_core \<lparr>pMutex = True, pTable = []\<rparr> 7 42))"
    by (simp add: hashInsert_def)
  show ?thesis
    using hash_insert_find_delete [OF alist.core_table_axioms ins, of 7] by simp
qed

text \<open>
  The loop \<open>while ((p = hashIterate(t, &index)) != NULL)\<close> ends, and it delivers each
  stored pointer exactly once per key: enough fuel gives a list that is as long as the domain of
  the table and holds exactly the pointers found in it.
\<close>

theorem hashIterate_visits_all:
  assumes "core_table C" and "length (core_hash_entries C (pTable h)) < fuel"
  shows "\<exists>ps. iterate_all fuel C h None = Some ps
            \<and> set ps = ran (core_hash_find C (pTable h))
            \<and> length ps = card (dom (core_hash_find C (pTable h)))"
proof -
  let ?es = "core_hash_entries C (pTable h)"
  have find: "core_hash_find C (pTable h) = map_of ?es"
    and dist: "distinct (map fst ?es)"
    using core_table.entries_find [OF assms(1)] core_table.entries_distinct [OF assms(1)] by auto
  have "set (map snd ?es) = ran (map_of ?es)" using dist by (simp add: ran_distinct)
  moreover have "length (map snd ?es) = card (dom (map_of ?es))"
    using dist by (simp add: dom_map_of_conv_image_fst card_image distinct_map distinct_card)
  ultimately show ?thesis using iterate_all_None [OF assms(2)] find by simp
qed

theorem hashIterate_visits_all_witness:
  "\<exists>ps. iterate_all 3 alist_core \<lparr>pMutex = True, pTable = [(''7'', 42), (''9'', 43)]\<rparr> None = Some ps
     \<and> set ps = ran (core_hash_find alist_core [(''7'', 42), (''9'', 43)])
     \<and> length ps = card (dom (core_hash_find alist_core [(''7'', 42), (''9'', 43)]))"
  using hashIterate_visits_all [OF alist.core_table_axioms,
      of "\<lparr>pMutex = True, pTable = [(''7'', 42), (''9'', 43)]\<rparr>" 3]
  by simp

end
