(* ===== verification/Server_Types.thy ===== *)
theory Server_Types
  imports Hash
begin

unbundle bit_operations_syntax

text \<open>
  \<open>servers.h\<close>: the server structure, its flags and its transport. Pointers to threads and
  WebSocket contexts are kept as "is not NULL"; the array \<open>cand_acl\<close> with its count is the list
  of its used entries. The \<open>uint32_t\<close> and \<open>unsigned int\<close> fields are 32-bit words, times are
  integers (microseconds).
\<close>

definition SFLAG_ENABLED :: u32 where "SFLAG_ENABLED = 1"
definition SFLAG_TERMINATING :: u32 where "SFLAG_TERMINATING = 2"
definition SFLAG_AUTO_NAT :: u32 where "SFLAG_AUTO_NAT = 4"
definition SFLAG_DYNAMIC :: u32 where "SFLAG_DYNAMIC = 8"
definition SFLAG_EVICTED :: u32 where "SFLAG_EVICTED = 16"

lemmas SFLAGS = SFLAG_ENABLED_def SFLAG_TERMINATING_def SFLAG_AUTO_NAT_def SFLAG_DYNAMIC_def
  SFLAG_EVICTED_def

datatype janus_transport_t = JANUS_TP_HTTP | JANUS_TP_WS

record 'h server_t =
  name :: cstr
  pUrl :: cstr
  pSecret :: cstr
  pAuthToken :: cstr
  pHmacSecret :: cstr
  pod_ip :: cstr
  pThread :: bool
  local_network :: cstr
  extrtpip :: cstr
  cand_acl :: "string list"
  rtpip :: cstr
  rtpip6 :: cstr
  codec_string :: cstr
  flags :: u32
  senderIdLookup :: "'h hash_t"
  serverId :: janus_id_t
  started :: int
  totalCalls :: u32
  callsInProgress :: u32
  transport :: janus_transport_t
  janus_ws_handle :: bool
  ws_last_poll :: int
  last_activity :: int
  connect_failures :: u32
  last_verified :: int

text \<open>
  The flag macros of the core, on a server: \<open>switch_test_flag\<close>, \<open>switch_set_flag\<close> and
  \<open>switch_clear_flag\<close> are \<open>flags & f\<close>, \<open>flags |= f\<close> and \<open>flags &= ~f\<close>.
\<close>

definition test_flag :: "'h server_t \<Rightarrow> u32 \<Rightarrow> bool" where
  "test_flag s f \<longleftrightarrow> flags s AND f \<noteq> 0"

definition set_flag :: "u32 \<Rightarrow> 'h server_t \<Rightarrow> 'h server_t" where
  "set_flag f s = s\<lparr>flags := flags s OR f\<rparr>"

definition clear_flag :: "u32 \<Rightarrow> 'h server_t \<Rightarrow> 'h server_t" where
  "clear_flag f s = s\<lparr>flags := flags s AND NOT f\<rparr>"

text \<open>A structure fresh from the zeroing allocator, with a table that was never created.\<close>

definition zero_server :: "'h \<Rightarrow> 'h server_t" where
  "zero_server t = \<lparr>name = None, pUrl = None, pSecret = None, pAuthToken = None, pHmacSecret = None,
     pod_ip = None, pThread = False, local_network = None, extrtpip = None, cand_acl = [],
     rtpip = None, rtpip6 = None, codec_string = None, flags = 0,
     senderIdLookup = \<lparr>pMutex = False, pTable = t\<rparr>, serverId = 0, started = 0, totalCalls = 0,
     callsInProgress = 0, transport = JANUS_TP_HTTP, janus_ws_handle = False, ws_last_poll = 0,
     last_activity = 0, connect_failures = 0, last_verified = 0\<rparr>"

section \<open>Activity of a dynamic server\<close>

definition serversDynamicRecordActivity :: "int \<Rightarrow> 'h server_t \<Rightarrow> 'h server_t" where
  "serversDynamicRecordActivity now s = s\<lparr>last_activity := now\<rparr>"

definition serversDynamicRecordConnectFailure :: "'h server_t \<Rightarrow> 'h server_t" where
  "serversDynamicRecordConnectFailure s = s\<lparr>connect_failures := connect_failures s + 1\<rparr>"

definition serversDynamicResetConnectFailures :: "int \<Rightarrow> 'h server_t \<Rightarrow> 'h server_t" where
  "serversDynamicResetConnectFailures now s = s\<lparr>connect_failures := 0, last_activity := now\<rparr>"

section \<open>Independence of the flags\<close>

lemma test_flag_bit:
  "test_flag s SFLAG_ENABLED \<longleftrightarrow> bit (flags s) 0"
  "test_flag s SFLAG_TERMINATING \<longleftrightarrow> bit (flags s) 1"
  "test_flag s SFLAG_AUTO_NAT \<longleftrightarrow> bit (flags s) 2"
  "test_flag s SFLAG_DYNAMIC \<longleftrightarrow> bit (flags s) 3"
  "test_flag s SFLAG_EVICTED \<longleftrightarrow> bit (flags s) 4"
proof -
  have one: "w AND 2 ^ n \<noteq> 0 \<longleftrightarrow> bit w n" if "n < 32" for w :: u32 and n
  proof -
    have "w AND 2 ^ n = (if bit w n then 2 ^ n else 0)"
      using that by (intro bit_eqI) (auto simp: bit_simps)
    moreover have "(2 ^ n :: u32) \<noteq> 0" using that by (simp add: power_eq_0_iff)
    ultimately show ?thesis by simp
  qed
  show "test_flag s SFLAG_ENABLED \<longleftrightarrow> bit (flags s) 0"
    "test_flag s SFLAG_TERMINATING \<longleftrightarrow> bit (flags s) 1"
    "test_flag s SFLAG_AUTO_NAT \<longleftrightarrow> bit (flags s) 2"
    "test_flag s SFLAG_DYNAMIC \<longleftrightarrow> bit (flags s) 3"
    "test_flag s SFLAG_EVICTED \<longleftrightarrow> bit (flags s) 4"
    using one [of 0 "flags s"] one [of 1 "flags s"] one [of 2 "flags s"] one [of 3 "flags s"]
      one [of 4 "flags s"]
    by (simp_all add: test_flag_def SFLAGS)
qed

abbreviation "sflags \<equiv>
  {SFLAG_ENABLED, SFLAG_TERMINATING, SFLAG_AUTO_NAT, SFLAG_DYNAMIC, SFLAG_EVICTED}"

lemma test_set_flag:
  "f \<in> sflags \<Longrightarrow> f' \<in> sflags \<Longrightarrow> test_flag (set_flag f s) f' \<longleftrightarrow> f = f' \<or> test_flag s f'"
  by (auto simp: test_flag_bit set_flag_def bit_or_iff) (simp_all add: SFLAGS)

lemma test_clear_flag:
  "f \<in> sflags \<Longrightarrow> f' \<in> sflags \<Longrightarrow> test_flag (clear_flag f s) f' \<longleftrightarrow> f \<noteq> f' \<and> test_flag s f'"
  by (auto simp: test_flag_bit clear_flag_def bit_and_iff bit_not_iff) (simp_all add: SFLAGS)

end
