(* ===== verification/Api.thy ===== *)
theory Api
  imports Dispatch Server_Types
begin

text \<open>
  The requests of \<open>api.c\<close>. Every function builds one message, encodes it, sends it over the
  transport of the server, decodes the response and checks it. What leaves the module is a
  value of type \<open>wire\<close>; the network and the Janus server behind it are the parameter \<open>net\<close>,
  the response to such a value, \<open>None\<close> when there is none. \<open>have_ws\<close> says whether the module was
  built with \<open>HAVE_MOD_JANUS_WS\<close>, \<open>txn\<close> is the result of \<open>generateTransactionId\<close>, and
  \<open>sign\<close> is the signing function as in \<open>encode\<close>. A failed \<open>switch_assert\<close> is
  \<open>Inl AssertFailed\<close>. The functions that end in \<open>_with\<close> are the requests for every behaviour of the allocator (see
  \<open>Message\<close>); the ones without are those with plentiful memory, which the rest of the module is modelled with.
\<close>

definition TRANSACTION_ID_LENGTH :: nat where "TRANSACTION_ID_LENGTH = 16"
definition MAX_POLL_EVENTS :: nat where "MAX_POLL_EVENTS = 10"
definition HTTP_GET_TIMEOUT :: nat where "HTTP_GET_TIMEOUT = 60000"
definition HTTP_POST_TIMEOUT :: nat where "HTTP_POST_TIMEOUT = 3000"
definition API_URL_SIZE :: nat where "API_URL_SIZE = 1024"

datatype api_url_kind_t = URL_ROOT | URL_SESSION | URL_HANDLE

datatype wire =
    HttpPost string nat cjson
  | HttpGet string nat
  | WsRpc cjson string nat

definition generateTransactionId :: "(nat \<Rightarrow> string) \<Rightarrow> string" where
  "generateTransactionId random_string = random_string (TRANSACTION_ID_LENGTH - 1)"

section \<open>Sending\<close>

definition api_ws_add_u64 :: "memory \<Rightarrow> cjson \<Rightarrow> string \<Rightarrow> janus_id_t \<Rightarrow> cjson" where
  "api_ws_add_u64 M obj k value =
     (case if_memory M Request k (cJSON_AddRawToObject obj k (Some (snprintf_text 32 (nat_str (unat value))))) of
        None \<Rightarrow> obj | Some j \<Rightarrow> j)"

definition api_url :: "string \<Rightarrow> janus_id_t \<Rightarrow> janus_id_t \<Rightarrow> api_url_kind_t \<Rightarrow> string" where
  "api_url url sid hid kind = (case kind of
     URL_ROOT \<Rightarrow> url
   | URL_SESSION \<Rightarrow> url @ ''/'' @ nat_str (unat sid)
   | URL_HANDLE \<Rightarrow> url @ ''/'' @ nat_str (unat sid) @ ''/'' @ nat_str (unat hid))"

definition ws_request_with :: "memory \<Rightarrow> 'h server_t \<Rightarrow> cjson \<Rightarrow> janus_id_t \<Rightarrow> janus_id_t \<Rightarrow> cjson" where
  "ws_request_with M srv req sid hid =
     (let j = (if sid \<noteq> 0 then api_ws_add_u64 M req ''session_id'' sid else req);
          j = (if hid \<noteq> 0 then api_ws_add_u64 M j ''handle_id'' hid else j)
      in if pHmacSecret srv = None \<and> \<not> zstr (pAuthToken srv)
         then (case if_memory M Request ''token'' (cJSON_AddStringToObject j ''token'' (pAuthToken srv)) of
                 None \<Rightarrow> j | Some k \<Rightarrow> k)
         else j)"

definition api_wire_with ::
  "memory \<Rightarrow> bool \<Rightarrow> 'h server_t \<Rightarrow> cjson \<Rightarrow> string \<Rightarrow> janus_id_t \<Rightarrow> janus_id_t \<Rightarrow> api_url_kind_t \<Rightarrow> wire option" where
  "api_wire_with M have_ws srv req txn sid hid kind =
     (if have_ws \<and> transport srv = JANUS_TP_WS
      then Some (WsRpc (ws_request_with M srv req sid hid) txn (HTTP_POST_TIMEOUT * 1000))
      else let url = api_url (the (pUrl srv)) sid hid kind in
           if length url \<ge> API_URL_SIZE then None else Some (HttpPost url HTTP_POST_TIMEOUT req))"

definition api_send_request_with ::
  "memory \<Rightarrow> bool \<Rightarrow> (wire \<Rightarrow> cjson option) \<Rightarrow> 'h server_t \<Rightarrow> cjson \<Rightarrow> string \<Rightarrow> janus_id_t \<Rightarrow> janus_id_t \<Rightarrow>
   api_url_kind_t \<Rightarrow> cjson option" where
  "api_send_request_with M have_ws net srv req txn sid hid kind =
     (case api_wire_with M have_ws srv req txn sid hid kind of None \<Rightarrow> None | Some w \<Rightarrow> net w)"

abbreviation "ws_request \<equiv> ws_request_with plenty"
abbreviation "api_wire \<equiv> api_wire_with plenty"
abbreviation "api_send_request \<equiv> api_send_request_with plenty"

section \<open>Session and handle requests\<close>

text \<open>The fields every request takes from the server.\<close>

definition base_message :: "'h server_t \<Rightarrow> string \<Rightarrow> string \<Rightarrow> message_t" where
  "base_message srv ty txn = zero_message\<lparr>m_pType := Some ty, m_pTransactionId := Some txn,
     m_pSecret := pSecret srv, m_pHmacSecret := pHmacSecret srv\<rparr>"

definition reply_matches :: "message_t \<Rightarrow> string \<Rightarrow> string \<Rightarrow> bool" where
  "reply_matches r ty txn \<longleftrightarrow> m_pType r = Some ty \<and> m_pTransactionId r = Some txn"

definition apiGetServerId_with ::
  "memory \<Rightarrow> bool \<Rightarrow> signer \<Rightarrow> (wire \<Rightarrow> cjson option) \<Rightarrow> string \<Rightarrow> 'h server_t \<Rightarrow> janus_id_t cres" where
  "apiGetServerId_with M have_ws sign net txn srv =
     cassert (pUrl srv \<noteq> None)
     (case encode_with M sign (base_message srv ''create'' txn) of
        None \<Rightarrow> Inr 0
      | Some (req, _) \<Rightarrow>
          cbind (decode (api_send_request_with M have_ws net srv req txn 0 0 URL_ROOT)) (\<lambda>r.
          case r of
            None \<Rightarrow> Inr 0
          | Some p \<Rightarrow>
              if \<not> reply_matches p ''success'' txn \<or> m_pJsonBody p = None then Inr 0
              else let i = getcs (m_pJsonBody p) ''id'' in
                   if \<not> cJSON_IsNumber i then Inr 0 else double_to_u64 (valuedouble (the i))))"

definition claim_error :: "cjson option \<Rightarrow> switch_status_t" where
  "claim_error response =
     (let err = getcs response ''error'' in
      if cJSON_IsObject err then
        (if \<not> cJSON_IsNumber (getcs err ''code'') then SWITCH_STATUS_FALSE
         else if \<not> cJSON_IsString (getcs err ''reason'') then SWITCH_STATUS_FALSE
         else SWITCH_STATUS_NOT_INITALIZED)
      else SWITCH_STATUS_FALSE)"

definition apiClaimServerId_with ::
  "memory \<Rightarrow> bool \<Rightarrow> signer \<Rightarrow> (wire \<Rightarrow> cjson option) \<Rightarrow> string \<Rightarrow> 'h server_t \<Rightarrow> janus_id_t \<Rightarrow> switch_status_t cres" where
  "apiClaimServerId_with M have_ws sign net txn srv sid =
     cassert (pUrl srv \<noteq> None)
     (case encode_with M sign (base_message srv ''claim'' txn) of
        None \<Rightarrow> Inr SWITCH_STATUS_FALSE
      | Some (req, _) \<Rightarrow>
          (let response = api_send_request_with M have_ws net srv req txn sid 0 URL_SESSION in
           cbind (decode response) (\<lambda>r.
           case r of
             None \<Rightarrow> Inr SWITCH_STATUS_SOCKERR
           | Some p \<Rightarrow>
               if m_pType p = None \<or> m_pTransactionId p \<noteq> Some txn then Inr SWITCH_STATUS_FALSE
               else if m_pType p = Some ''success'' then Inr SWITCH_STATUS_SUCCESS
               else if m_pType p = Some ''error'' then Inr (claim_error response)
               else Inr SWITCH_STATUS_FALSE)))"

definition apiGetSenderId_with ::
  "memory \<Rightarrow> bool \<Rightarrow> signer \<Rightarrow> (wire \<Rightarrow> cjson option) \<Rightarrow> string \<Rightarrow> 'h server_t \<Rightarrow> janus_id_t \<Rightarrow> cstr \<Rightarrow> janus_id_t cres" where
  "apiGetSenderId_with M have_ws sign net txn srv sid callId =
     cassert (pUrl srv \<noteq> None)
     (case encode_with M sign ((base_message srv ''attach'' txn)
             \<lparr>m_serverId := sid, m_opaqueId := callId, m_isPlugin := True\<rparr>) of
        None \<Rightarrow> Inr 0
      | Some (req, _) \<Rightarrow>
          cbind (decode (api_send_request_with M have_ws net srv req txn sid 0 URL_SESSION)) (\<lambda>r.
          case r of
            None \<Rightarrow> Inr 0
          | Some p \<Rightarrow>
              if \<not> reply_matches p ''success'' txn then Inr 0
              else let i = getcs (m_pJsonBody p) ''id'' in
                   if \<not> cJSON_IsNumber i then Inr 0 else double_to_u64 (valuedouble (the i))))"

section \<open>Audiobridge requests\<close>

text \<open>The \<open>room\<close> member: the string form when there is a non-empty one, the number otherwise.\<close>

definition room_item :: "janus_id_t \<Rightarrow> cstr \<Rightarrow> cjson" where
  "room_item roomId roomStr =
     (if \<not> zstr roomStr then str_item ''room'' (the roomStr)
      else num_item ''room'' (u64_to_double roomId))"

definition add_room :: "memory \<Rightarrow> janus_id_t \<Rightarrow> cstr \<Rightarrow> cjson \<Rightarrow> cjson option" where
  "add_room M roomId roomStr j =
     if_memory M Body ''room''
       (if \<not> zstr roomStr then cJSON_AddStringToObject j ''room'' roomStr
        else cJSON_AddNumberToObject j ''room'' (u64_to_double roomId))"

definition create_body_with ::
  "memory \<Rightarrow> janus_id_t \<Rightarrow> cstr \<Rightarrow> bool \<Rightarrow> cstr \<Rightarrow> cstr \<Rightarrow> bool \<Rightarrow> cstr \<Rightarrow> cjson option" where
  "create_body_with M roomId description record_flag recordingFile pin allow_ws roomStr = do {
     j \<leftarrow> new_object M Body;
     j \<leftarrow> if_memory M Body ''request'' (cJSON_AddStringToObject j ''request'' (Some ''create''));
     j \<leftarrow> add_room M roomId roomStr j;
     j \<leftarrow> add_opt_string M Body j ''description'' description;
     j \<leftarrow> add_opt_string M Body j ''pin'' pin;
     j \<leftarrow> if_memory M Body ''record'' (cJSON_AddBoolToObject j ''record'' record_flag);
     j \<leftarrow> add_opt_string M Body j ''record_file'' recordingFile;
     (if allow_ws then if_memory M Body ''allow_ws_participants'' (cJSON_AddBoolToObject j ''allow_ws_participants'' True)
      else Some j)
   }"

text \<open>The body when memory is plentiful.\<close>

definition create_body ::
  "janus_id_t \<Rightarrow> cstr \<Rightarrow> bool \<Rightarrow> cstr \<Rightarrow> cstr \<Rightarrow> bool \<Rightarrow> cstr \<Rightarrow> cjson" where
  "create_body roomId description record_flag recordingFile pin allow_ws roomStr =
     push_all cJSON_CreateObject
       ([str_item ''request'' ''create'', room_item roomId roomStr]
        @ opt_item ''description'' description @ opt_item ''pin'' pin
        @ [bool_item ''record'' record_flag] @ opt_item ''record_file'' recordingFile
        @ (if allow_ws then [bool_item ''allow_ws_participants'' True] else []))"

definition create_result :: "janus_id_t \<Rightarrow> cstr \<Rightarrow> cjson option \<Rightarrow> janus_id_t cres" where
  "create_result roomId roomStr body =
     (let res = getcs body ''audiobridge'' in
      if \<not> cJSON_IsString res then Inr 0
      else cbind (deref (valuestring (the res))) (\<lambda>t.
        if t = ''event'' then
          (let code = getcs body ''error_code'' in
           if \<not> cJSON_IsNumber code then Inr 0
           else if valueint (the code) = 486
           then Inr (if \<not> zstr roomStr then 1 else if roomId \<noteq> 0 then roomId else 1)
           else Inr 0)
        else if t = ''created'' then
          (let room = getcs body ''room'' in
           case room of
             None \<Rightarrow> Inr 0
           | Some rm \<Rightarrow>
               if cJSON_IsNumber room then double_to_u64 (valuedouble rm)
               else if cJSON_IsString room then Inr 1
               else Inr 0)
        else Inr 0))"

definition apiCreateRoom_with ::
  "memory \<Rightarrow> bool \<Rightarrow> signer \<Rightarrow> (wire \<Rightarrow> cjson option) \<Rightarrow> string \<Rightarrow> 'h server_t \<Rightarrow> janus_id_t \<Rightarrow> janus_id_t \<Rightarrow>
   janus_id_t \<Rightarrow> cstr \<Rightarrow> bool \<Rightarrow> cstr \<Rightarrow> cstr \<Rightarrow> bool \<Rightarrow> cstr \<Rightarrow> janus_id_t cres" where
  "apiCreateRoom_with M have_ws sign net txn srv sid hid roomId description record_flag recordingFile pin
     allow_ws roomStr =
     cassert (pUrl srv \<noteq> None)
     (case create_body_with M roomId description record_flag recordingFile pin allow_ws roomStr of
        None \<Rightarrow> Inr 0
      | Some body \<Rightarrow>
     (case encode_with M sign ((base_message srv ''message'' txn)\<lparr>m_serverId := sid, m_pJsonBody := Some body\<rparr>) of
        None \<Rightarrow> Inr 0
      | Some (req, _) \<Rightarrow>
          cbind (decode (api_send_request_with M have_ws net srv req txn sid hid URL_HANDLE)) (\<lambda>r.
          case r of
            None \<Rightarrow> Inr 0
          | Some p \<Rightarrow>
              if \<not> reply_matches p ''success'' txn \<or> m_senderId p \<noteq> hid \<or> m_pJsonBody p = None
              then Inr 0
              else create_result roomId roomStr (m_pJsonBody p))))"

text \<open>The common end of join, configure and leave: an acknowledgement of the right transaction.\<close>

definition ack_status ::
  "cjson option \<Rightarrow> string \<Rightarrow> switch_status_t cres" where
  "ack_status response txn =
     cbind (decode response) (\<lambda>r.
       case r of
         None \<Rightarrow> Inr SWITCH_STATUS_FALSE
       | Some p \<Rightarrow> if \<not> reply_matches p ''ack'' txn then Inr SWITCH_STATUS_FALSE
                   else Inr SWITCH_STATUS_SUCCESS)"

definition room_descriptor :: "janus_id_t \<Rightarrow> cstr \<Rightarrow> string" where
  "room_descriptor roomId roomStr =
     snprintf_text 96 (''room='' @ (if \<not> zstr roomStr then the roomStr else nat_str (unat roomId)))"

definition join_body_with :: "memory \<Rightarrow> janus_id_t \<Rightarrow> cstr \<Rightarrow> cstr \<Rightarrow> cstr \<Rightarrow> cstr \<Rightarrow> cstr \<Rightarrow> cjson option" where
  "join_body_with M roomId display pin token callId roomStr = do {
     j \<leftarrow> new_object M Body;
     j \<leftarrow> if_memory M Body ''request'' (cJSON_AddStringToObject j ''request'' (Some ''join''));
     j \<leftarrow> add_room M roomId roomStr j;
     j \<leftarrow> add_opt_string M Body j ''pin'' pin;
     j \<leftarrow> add_opt_string M Body j ''display'' display;
     j \<leftarrow> add_opt_string M Body j ''token'' token;
     add_opt_string M Body j ''opaque_id'' callId
   }"

definition join_body :: "janus_id_t \<Rightarrow> cstr \<Rightarrow> cstr \<Rightarrow> cstr \<Rightarrow> cstr \<Rightarrow> cstr \<Rightarrow> cjson" where
  "join_body roomId display pin token callId roomStr =
     push_all cJSON_CreateObject
       ([str_item ''request'' ''join'', room_item roomId roomStr]
        @ opt_item ''pin'' pin @ opt_item ''display'' display @ opt_item ''token'' token
        @ opt_item ''opaque_id'' callId)"

text \<open>
  The body object is shared: \<open>encode\<close> links it into the request, and \<open>apiJoin\<close> then adds the
  signed token to it, which changes the \<open>body\<close> member of the request.
\<close>

fun upd_member :: "string \<Rightarrow> (cjson \<Rightarrow> cjson) \<Rightarrow> cjson \<Rightarrow> cjson" where
  "upd_member k f (CJson t vs vi vd s cs) =
     CJson t vs vi vd s (map (\<lambda>c. if cj_string c = Some k then f c else c) cs)"

definition mirror_token :: "cstr \<Rightarrow> cjson \<Rightarrow> cjson" where
  "mirror_token tok req =
     (case tok of None \<Rightarrow> req
                | Some t \<Rightarrow> upd_member ''body'' (\<lambda>b. push b (str_item ''token'' t)) req)"

definition join_message ::
  "'h server_t \<Rightarrow> string \<Rightarrow> int \<Rightarrow> janus_id_t \<Rightarrow> janus_id_t \<Rightarrow> cstr \<Rightarrow> cjson \<Rightarrow> message_t" where
  "join_message srv txn ttl sid roomId roomStr body =
     (let signing = (pHmacSecret srv \<noteq> None) in
      (base_message srv ''message'' txn)
        \<lparr>m_serverId := sid,
         m_hmacTokenTtl := (if ttl > 0 then ttl else API_HMAC_DEFAULT_CALL_TTL),
         m_pExtraDescriptors := (if signing then [Some (room_descriptor roomId roomStr)] else []),
         m_pSignedTokenOut := signing,
         m_pJsonBody := Some body\<rparr>)"

definition apiJoin_with ::
  "memory \<Rightarrow> bool \<Rightarrow> signer \<Rightarrow> (wire \<Rightarrow> cjson option) \<Rightarrow> string \<Rightarrow> 'h server_t \<Rightarrow> int \<Rightarrow> janus_id_t \<Rightarrow> janus_id_t \<Rightarrow>
   janus_id_t \<Rightarrow> cstr \<Rightarrow> cstr \<Rightarrow> cstr \<Rightarrow> cstr \<Rightarrow> cstr \<Rightarrow> switch_status_t cres" where
  "apiJoin_with M have_ws sign net txn srv ttl sid hid roomId display pin token callId roomStr =
     cassert (pUrl srv \<noteq> None)
     (case join_body_with M roomId display pin (if pHmacSecret srv \<noteq> None then None else token) callId roomStr of
        None \<Rightarrow> Inr SWITCH_STATUS_FALSE
      | Some body \<Rightarrow>
     (case encode_with M sign (join_message srv txn ttl sid roomId roomStr body) of
        None \<Rightarrow> Inr SWITCH_STATUS_FALSE
      | Some (req, tok) \<Rightarrow>
          if tok \<noteq> None \<and> \<not> M Body (Some ''token'') then Inr SWITCH_STATUS_FALSE
          else ack_status (api_send_request_with M have_ws net srv (mirror_token tok req) txn sid hid URL_HANDLE) txn))"

text \<open>
  Building a configure request. A failure to add the recording parameters ends the function with the initial
  \<open>SWITCH_STATUS_SUCCESS\<close> still in its result, the other failures with \<open>SWITCH_STATUS_FALSE\<close>.
\<close>

definition configure_start :: "memory \<Rightarrow> bool \<Rightarrow> cjson option" where
  "configure_start M muted = do {
     j \<leftarrow> new_object M Body;
     j \<leftarrow> if_memory M Body ''request'' (cJSON_AddStringToObject j ''request'' (Some ''configure''));
     if_memory M Body ''muted'' (cJSON_AddBoolToObject j ''muted'' muted)
   }"

definition configure_recording :: "memory \<Rightarrow> bool \<Rightarrow> cstr \<Rightarrow> cjson \<Rightarrow> cjson option" where
  "configure_recording M record_flag recordingFile j = do {
     j \<leftarrow> if_memory M Body ''record'' (cJSON_AddBoolToObject j ''record'' record_flag);
     add_opt_string M Body j ''filename'' recordingFile
   }"

definition configure_jsep :: "memory \<Rightarrow> cstr \<Rightarrow> cstr \<Rightarrow> cjson option option" where
  "configure_jsep M ty sdp =
     (if ty = None \<or> sdp = None then Some None
      else map_option Some (do {
        j \<leftarrow> new_object M Jsep;
        j \<leftarrow> if_memory M Jsep ''type'' (cJSON_AddStringToObject j ''type'' ty);
        j \<leftarrow> if_memory M Jsep ''trickle'' (cJSON_AddFalseToObject j ''trickle'');
        if_memory M Jsep ''sdp'' (cJSON_AddStringToObject j ''sdp'' sdp)
      }))"

definition configure_message :: "'h server_t \<Rightarrow> string \<Rightarrow> janus_id_t \<Rightarrow> cjson \<Rightarrow> cjson option \<Rightarrow> message_t" where
  "configure_message srv txn sid body jsep =
     (base_message srv ''message'' txn)\<lparr>m_serverId := sid, m_pJsonBody := Some body, m_pJsonJsep := jsep\<rparr>"

definition apiConfigure_with ::
  "memory \<Rightarrow> bool \<Rightarrow> signer \<Rightarrow> (wire \<Rightarrow> cjson option) \<Rightarrow> string \<Rightarrow> 'h server_t \<Rightarrow> janus_id_t \<Rightarrow> janus_id_t \<Rightarrow>
   bool \<Rightarrow> bool \<Rightarrow> cstr \<Rightarrow> cstr \<Rightarrow> cstr \<Rightarrow> cstr \<Rightarrow> switch_status_t cres" where
  "apiConfigure_with M have_ws sign net txn srv sid hid muted record_flag recordingFile ty sdp callId =
     cassert (pUrl srv \<noteq> None)
     (case configure_start M muted of None \<Rightarrow> Inr SWITCH_STATUS_FALSE | Some j \<Rightarrow>
     (case configure_recording M record_flag recordingFile j of None \<Rightarrow> Inr SWITCH_STATUS_SUCCESS | Some j \<Rightarrow>
     (case add_opt_string M Body j ''opaque_id'' callId of None \<Rightarrow> Inr SWITCH_STATUS_FALSE | Some body \<Rightarrow>
     (case configure_jsep M ty sdp of None \<Rightarrow> Inr SWITCH_STATUS_FALSE | Some jsep \<Rightarrow>
     (case encode_with M sign (configure_message srv txn sid body jsep) of
        None \<Rightarrow> Inr SWITCH_STATUS_FALSE
      | Some (req, _) \<Rightarrow> ack_status (api_send_request_with M have_ws net srv req txn sid hid URL_HANDLE) txn)))))"

definition leave_body :: "memory \<Rightarrow> cstr \<Rightarrow> cjson option" where
  "leave_body M callId = do {
     j \<leftarrow> new_object M Body;
     j \<leftarrow> if_memory M Body ''request'' (cJSON_AddStringToObject j ''request'' (Some ''leave''));
     add_opt_string M Body j ''opaque_id'' callId
   }"

definition apiLeave_with ::
  "memory \<Rightarrow> bool \<Rightarrow> signer \<Rightarrow> (wire \<Rightarrow> cjson option) \<Rightarrow> string \<Rightarrow> 'h server_t \<Rightarrow> janus_id_t \<Rightarrow> janus_id_t \<Rightarrow> cstr \<Rightarrow>
   switch_status_t cres" where
  "apiLeave_with M have_ws sign net txn srv sid hid callId =
     cassert (pUrl srv \<noteq> None)
     (case leave_body M callId of
        None \<Rightarrow> Inr SWITCH_STATUS_FALSE
      | Some body \<Rightarrow>
     (case encode_with M sign ((base_message srv ''message'' txn)\<lparr>m_serverId := sid, m_pJsonBody := Some body\<rparr>) of
        None \<Rightarrow> Inr SWITCH_STATUS_FALSE
      | Some (req, _) \<Rightarrow> ack_status (api_send_request_with M have_ws net srv req txn sid hid URL_HANDLE) txn))"

text \<open>An undecodable response leaves the initial \<open>SWITCH_STATUS_SUCCESS\<close> in place.\<close>

definition apiDetach_with ::
  "memory \<Rightarrow> bool \<Rightarrow> signer \<Rightarrow> (wire \<Rightarrow> cjson option) \<Rightarrow> string \<Rightarrow> 'h server_t \<Rightarrow> janus_id_t \<Rightarrow> janus_id_t \<Rightarrow>
   switch_status_t cres" where
  "apiDetach_with M have_ws sign net txn srv sid hid =
     cassert (pUrl srv \<noteq> None)
     (case encode_with M sign ((base_message srv ''detach'' txn)\<lparr>m_serverId := sid\<rparr>) of
        None \<Rightarrow> Inr SWITCH_STATUS_FALSE
      | Some (req, _) \<Rightarrow>
          cbind (decode (api_send_request_with M have_ws net srv req txn sid hid URL_HANDLE)) (\<lambda>r.
          case r of
            None \<Rightarrow> Inr SWITCH_STATUS_SUCCESS
          | Some p \<Rightarrow> if \<not> reply_matches p ''success'' txn then Inr SWITCH_STATUS_FALSE
                      else Inr SWITCH_STATUS_SUCCESS))"

section \<open>The requests with plentiful memory\<close>

definition apiGetServerId where "apiGetServerId = apiGetServerId_with plenty"
definition apiClaimServerId where "apiClaimServerId = apiClaimServerId_with plenty"
definition apiGetSenderId where "apiGetSenderId = apiGetSenderId_with plenty"
definition apiCreateRoom where "apiCreateRoom = apiCreateRoom_with plenty"
definition apiJoin where "apiJoin = apiJoin_with plenty"
definition apiConfigure where "apiConfigure = apiConfigure_with plenty"
definition apiLeave where "apiLeave = apiLeave_with plenty"
definition apiDetach where "apiDetach = apiDetach_with plenty"

section \<open>Polling\<close>

text \<open>
  Each piece of the URL is printed at the end of the text so far with the space that is left, so
  that the array is never overrun and a text that is too long is cut.
\<close>

definition url_append :: "string \<Rightarrow> string \<Rightarrow> string" where
  "url_append url piece = url @ snprintf_text (API_URL_SIZE - length url) piece"

definition poll_token :: "signer \<Rightarrow> 'h server_t \<Rightarrow> cstr option" where
  "poll_token sign srv =
     (if pHmacSecret srv = None then Some (pAuthToken srv)
      else case sign (pHmacSecret srv) API_HMAC_DEFAULT_LIFECYCLE_TTL (Some [Some JANUS_PLUGIN]) of
             None \<Rightarrow> None | Some t \<Rightarrow> Some (Some t))"

definition poll_url :: "'h server_t \<Rightarrow> janus_id_t \<Rightarrow> cstr \<Rightarrow> string" where
  "poll_url srv sid token =
     (let url = snprintf_text API_URL_SIZE
            (the (pUrl srv) @ ''/'' @ nat_str (unat sid) @ ''?maxev='' @ nat_str MAX_POLL_EVENTS);
          url = (case pSecret srv of None \<Rightarrow> url | Some s \<Rightarrow> url_append url (''&apisecret='' @ s))
      in case token of None \<Rightarrow> url | Some t \<Rightarrow> url_append url (''&token='' @ t))"

definition apiPoll ::
  "bool \<Rightarrow> signer \<Rightarrow> (wire \<Rightarrow> cjson option) \<Rightarrow> ('s callbacks \<Rightarrow> 's \<Rightarrow> (switch_status_t \<times> 's) cres) \<Rightarrow>
   'h server_t \<Rightarrow> janus_id_t \<Rightarrow> 's callbacks \<Rightarrow> 's \<Rightarrow> (switch_status_t \<times> 's) cres" where
  "apiPoll have_ws sign net pump srv sid cb s =
     cassert (pUrl srv \<noteq> None)
     (if have_ws \<and> transport srv = JANUS_TP_WS then pump cb s
      else case poll_token sign srv of
             None \<Rightarrow> Inr (SWITCH_STATUS_FALSE, s)
           | Some token \<Rightarrow>
               (case net (HttpGet (poll_url srv sid token) HTTP_GET_TIMEOUT) of
                  None \<Rightarrow> Inr (SWITCH_STATUS_FALSE, s)
                | Some response \<Rightarrow>
                    cbind (dispatch_events cb (child response) s) (\<lambda>s'. Inr (SWITCH_STATUS_SUCCESS, s'))))"

section \<open>Shared facts\<close>

lemma plenty_bodies [simp]:
  "encode_with plenty sign m = encode sign m"
  "add_room plenty roomId roomStr j = Some (push j (room_item roomId roomStr))"
  "create_body_with plenty roomId description rec file pin allow_ws roomStr = Some (create_body roomId description rec file pin allow_ws roomStr)"
  "join_body_with plenty roomId display pin token callId roomStr = Some (join_body roomId display pin token callId roomStr)"
  "leave_body plenty callId = Some (push_all cJSON_CreateObject (str_item ''request'' ''leave'' # opt_item ''opaque_id'' callId))"
proof -
  show r: "add_room plenty roomId roomStr j = Some (push j (room_item roomId roomStr))" for j
    by (cases roomStr) (auto simp: add_room_def room_item_def)
  show "create_body_with plenty roomId description rec file pin allow_ws roomStr = Some (create_body roomId description rec file pin allow_ws roomStr)"
    by (simp add: create_body_with_def create_body_def r add_opt_string_eq push_all_append)
  show "join_body_with plenty roomId display pin token callId roomStr = Some (join_body roomId display pin token callId roomStr)"
    by (simp add: join_body_with_def join_body_def r add_opt_string_eq push_all_append)
qed (simp_all add: encode_def leave_body_def add_opt_string_eq push_all_append)

lemmas apiGetServerId_plenty = apiGetServerId_def apiGetServerId_with_def
  and apiGetSenderId_plenty = apiGetSenderId_def apiGetSenderId_with_def
  and apiJoin_plenty = apiJoin_def apiJoin_with_def
  and apiLeave_plenty = apiLeave_def apiLeave_with_def
  and apiDetach_plenty = apiDetach_def apiDetach_with_def

lemma decode_None [simp]: "decode None = Inr None"
  by (simp add: decode_def)

lemma base_message_simps [simp]:
  "m_pType (base_message srv ty txn) = Some ty"
  "m_pTransactionId (base_message srv ty txn) = Some txn"
  "m_pSecret (base_message srv ty txn) = pSecret srv"
  "m_pHmacSecret (base_message srv ty txn) = pHmacSecret srv"
  "m_pSignedTokenOut (base_message srv ty txn) = False"
  "m_pJsonBody (base_message srv ty txn) = None"
  "m_pJsonJsep (base_message srv ty txn) = None"
  "m_opaqueId (base_message srv ty txn) = None"
  "m_isPlugin (base_message srv ty txn) = False"
  by (simp_all add: base_message_def zero_message_def)

lemma decode_reply:
  assumes "decode resp = Inr (Some m)"
  obtains j where "resp = Some j" "m_pType m = jstr j ''janus''"
    "m_pTransactionId m = jstr j ''transaction''"
proof -
  from assms obtain j where j: "resp = Some j" by (cases resp) auto
  from assms [unfolded j] show ?thesis
    by (rule decode_SomeD)
      (rule that [OF j], simp_all only: JANUS_STRING_def decode_str_Some)
qed

text \<open>A response that answers a request: the expected type, and the transaction of the request.\<close>

definition answers :: "cjson option \<Rightarrow> string \<Rightarrow> string \<Rightarrow> bool" where
  "answers resp ty txn \<longleftrightarrow>
     (\<exists>j. resp = Some j \<and> jstr j ''janus'' = Some ty \<and> jstr j ''transaction'' = Some txn)"

lemma reply_answers: "decode resp = Inr (Some m) \<Longrightarrow> reply_matches m ty txn \<Longrightarrow> answers resp ty txn"
  by (erule decode_reply) (auto simp: reply_matches_def answers_def)

lemma ack_status_success:
  "ack_status resp txn = Inr SWITCH_STATUS_SUCCESS \<Longrightarrow> answers resp ''ack'' txn"
  by (auto simp: ack_status_def cbind_Inr_iff split: option.splits if_splits intro: reply_answers)

lemma double_to_u64_getcs:
  "getcs b k = Some i \<Longrightarrow> double_to_u64 (valuedouble (the (getcs b k))) = double_to_u64 (valuedouble i)"
  by simp

lemma not_digit_slash: "\<not> is_digit (CHR ''/'')"
  by (simp add: is_digit_def)

lemma nat_str_no_slash: "CHR ''/'' \<notin> set (nat_str n)"
  by (rule nat_str_no_char) (rule not_digit_slash)

lemma append_char_eq:
  assumes "(c :: char) \<notin> set a" and "c \<notin> set a'"
  shows "a @ c # b = a' @ c # b' \<longleftrightarrow> a = a' \<and> b = b'"
proof
  assume eq: "a @ c # b = a' @ c # b'"
  have "Some (a, b) = Some (a', b')"
    using strchr_split_append [OF assms(1), of b] strchr_split_append [OF assms(2), of b']
    unfolding eq by (rule trans [OF sym])
  then show "a = a' \<and> b = b'" by simp
qed simp

lemma api_url_eq_iff:
  "api_url url sid hid k = api_url url sid' hid' k \<longleftrightarrow>
     (k = URL_ROOT \<or> (sid = sid' \<and> (k = URL_SESSION \<or> hid = hid')))"
  by (cases k) (auto simp: api_url_def append_char_eq nat_str_no_slash dest: unsigned_word_eqI)

lemma url_append_length: "length url < API_URL_SIZE \<Longrightarrow> length (url_append url p) < API_URL_SIZE"
  using snprintf_text_length [of "API_URL_SIZE - length url" p] by (simp add: url_append_def)

lemma url_append_fits:
  "length url + length p < API_URL_SIZE \<Longrightarrow> url_append url p = url @ p"
  by (simp add: url_append_def snprintf_text_fits)

fun wire_request :: "wire \<Rightarrow> cjson option" where
  "wire_request (HttpPost url t req) = Some req"
| "wire_request (WsRpc req txn t) = Some req"
| "wire_request (HttpGet url t) = None"

text \<open>Members that are there before the transport adds its own keep their values.\<close>

lemma api_ws_add_u64_eq:
  "api_ws_add_u64 M j k v = (if M Request (Some k) then push j (raw_item k (nat_str (unat v))) else j)"
proof -
  have "length (nat_str (unat v)) < 32" using length_nat_str_u64 [of v] by linarith
  then show ?thesis by (simp add: api_ws_add_u64_def snprintf_text_fits if_memory_def)
qed

lemma find_cs_appended:
  "find_cs k cs = Some e \<Longrightarrow> find_cs k (cs @ ds) = Some e"
  by (induction cs) (auto split: option.splits)

lemma ws_request_child:
  "child (ws_request_with M srv req sid hid) = child req
     @ (if sid \<noteq> 0 \<and> M Request (Some ''session_id'') then [raw_item ''session_id'' (nat_str (unat sid))] else [])
     @ (if hid \<noteq> 0 \<and> M Request (Some ''handle_id'') then [raw_item ''handle_id'' (nat_str (unat hid))] else [])
     @ (if pHmacSecret srv = None \<and> \<not> zstr (pAuthToken srv) \<and> M Request (Some ''token'')
        then [str_item ''token'' (the (pAuthToken srv))] else [])"
  by (cases "pAuthToken srv") (simp_all add: ws_request_with_def api_ws_add_u64_eq Let_def if_memory_def)

lemma jstr_appended:
  assumes "child j' = child j @ ds" and "jstr j k = Some s"
  shows "jstr j' k = Some s"
  using assms find_cs_appended [of k "child j" _ ds]
  by (auto simp: jstr_def split: option.splits if_splits)

lemma api_wire_request:
  assumes "api_wire_with M have_ws srv req txn sid hid kind = Some w"
  obtains req' ds where "wire_request w = Some req'" "child req' = child req @ ds"
proof (cases "have_ws \<and> transport srv = JANUS_TP_WS")
  case True
  with assms have "w = WsRpc (ws_request_with M srv req sid hid) txn (HTTP_POST_TIMEOUT * 1000)"
    by (simp add: api_wire_with_def)
  with ws_request_child [of M srv req sid hid] that show ?thesis by simp
next
  case False
  with assms that [of req "[]"] show ?thesis by (auto simp: api_wire_with_def Let_def split: if_splits)
qed

text \<open>
  An exchange: a request of type \<open>ty\<close> and transaction \<open>txn\<close> was handed to the network, which
  answered it with a message of type \<open>ty'\<close> and the same transaction.
\<close>

definition exchanged :: "(wire \<Rightarrow> cjson option) \<Rightarrow> string \<Rightarrow> string \<Rightarrow> string \<Rightarrow> bool" where
  "exchanged net txn ty ty' \<longleftrightarrow>
     (\<exists>w req. wire_request w = Some req \<and> jstr req ''janus'' = Some ty
        \<and> jstr req ''transaction'' = Some txn \<and> answers (net w) ty' txn)"

lemma encode_jstr:
  assumes "encode sign m = Some (req, tok)"
  shows "jstr req ''janus'' = m_pType m" "jstr req ''transaction'' = m_pTransactionId m"
proof -
  have req: "child req = request_items sign m" and ty: "m_pType m \<noteq> None"
    using assms by (auto simp: encode_eq encodable_def split: if_splits)
  from ty obtain t where t: "m_pType m = Some t" by blast
  show "jstr req ''janus'' = m_pType m"
    by (simp add: jstr_def req request_items_def JANUS_STRING_def t)
  show "jstr req ''transaction'' = m_pTransactionId m"
    by (cases "m_pTransactionId m") (simp_all add: jstr_def req request_items_def JANUS_STRING_def)
qed

lemma encode_with_Some: "encode_with M sign m = Some r \<Longrightarrow> encode sign (linked M m) = Some r"
  by (simp add: encode_with_eq split: if_splits)

lemma send_exchanged:
  assumes "encode_with M sign m = Some (req, tok)" and "m_pType m = Some ty" and "m_pTransactionId m = Some txn"
    and "answers (api_send_request_with M have_ws net srv req' txn sid hid kind) ty' txn"
    and "jstr req' ''janus'' = jstr req ''janus''" "jstr req' ''transaction'' = jstr req ''transaction''"
  shows "exchanged net txn ty ty'"
proof -
  from assms(4) obtain w where w: "api_wire_with M have_ws srv req' txn sid hid kind = Some w"
    and a: "answers (net w) ty' txn"
    by (auto simp: api_send_request_with_def answers_def split: option.splits)
  obtain r ds where r: "wire_request w = Some r" "child r = child req' @ ds"
    by (rule api_wire_request [OF w])
  have "jstr req' ''janus'' = Some ty" "jstr req' ''transaction'' = Some txn"
    using encode_jstr [OF encode_with_Some [OF assms(1)]] assms(2,3,5,6) by (simp_all add: linked_def)
  then have "jstr r ''janus'' = Some ty" "jstr r ''transaction'' = Some txn"
    by (blast intro: jstr_appended [OF r(2)])+
  with r(1) a show ?thesis unfolding exchanged_def by blast
qed

lemma find_cs_map:
  assumes "\<And>c. cj_string (g c) = cj_string c"
  shows "find_cs k (map g cs) = map_option g (find_cs k cs)"
  by (induction cs) (auto simp: assms split: option.splits)

lemma getcs_upd_member:
  assumes "\<And>c. cj_string (f c) = cj_string c"
  shows "getcs (Some (upd_member m f j)) k =
    (if k = m then map_option f (getcs (Some j) k) else getcs (Some j) k)"
proof -
  have "child (upd_member m f j) = map (\<lambda>c. if cj_string c = Some m then f c else c) (child j)"
    by (cases j) simp
  moreover have "find_cs k (map (\<lambda>c. if cj_string c = Some m then f c else c) (child j)) =
      map_option (\<lambda>c. if cj_string c = Some m then f c else c) (find_cs k (child j))"
    by (rule find_cs_map) (simp add: assms)
  ultimately show ?thesis
    by (cases "find_cs k (child j)") (auto dest: find_cs_set)
qed

lemma mirror_token_other: "k \<noteq> ''body'' \<Longrightarrow> jstr (mirror_token tok req) k = jstr req k"
  using getcs_upd_member [of "\<lambda>b. push b (str_item ''token'' (the tok))" "''body''" req k]
  by (cases tok) (auto simp: mirror_token_def jstr_def)

lemma exchange:
  assumes "encode_with M sign m = Some (req, tok)" and "m_pType m = Some ty" and "m_pTransactionId m = Some txn"
    and "answers (api_send_request_with M have_ws net srv req txn sid hid kind) ty' txn"
  shows "exchanged net txn ty ty'"
  using send_exchanged [OF assms] by simp

text \<open>The shape of the requests that return an identifier: 0 unless a matching reply was decoded.\<close>

lemma checked_reply:
  assumes "cbind x (\<lambda>r. case r of None \<Rightarrow> Inr d | Some p \<Rightarrow> if B p then Inr d else F p) = Inr i"
    and "i \<noteq> d"
  obtains p where "x = Inr (Some p)" "\<not> B p" "F p = Inr i"
  using assms by (auto simp: cbind_Inr_iff split: option.splits if_splits)

lemma encoded_request:
  assumes "cassert b (case encode_with M sign m of None \<Rightarrow> Inr d | Some (req, tok) \<Rightarrow> G req tok) = Inr i"
    and "i \<noteq> d"
  obtains req tok where "encode_with M sign m = Some (req, tok)" "G req tok = Inr i"
  using assms by (auto simp: cassert_def split: if_splits option.splits)

lemma encoded_body:
  assumes "cassert b (case x of None \<Rightarrow> Inr d | Some body \<Rightarrow>
      (case encode_with M sign (m body) of None \<Rightarrow> Inr d | Some (req, tok) \<Rightarrow> G body req tok)) = Inr i"
    and "i \<noteq> d"
  obtains body req tok where "x = Some body" "encode_with M sign (m body) = Some (req, tok)" "G body req tok = Inr i"
  using assms by (auto simp: cassert_def split: if_splits option.splits)

lemma apiGetServerId_exchanged:
  "apiGetServerId_with M have_ws sign net txn srv = Inr i \<Longrightarrow> i \<noteq> 0 \<Longrightarrow> exchanged net txn ''create'' ''success''"
  unfolding apiGetServerId_with_def
  by (erule (1) encoded_request, erule (1) checked_reply) (auto intro!: exchange [where M = M and sign = sign] reply_answers)

lemma apiGetSenderId_exchanged:
  "apiGetSenderId_with M have_ws sign net txn srv sid call = Inr i \<Longrightarrow> i \<noteq> 0 \<Longrightarrow>
   exchanged net txn ''attach'' ''success''"
  unfolding apiGetSenderId_with_def
  by (erule (1) encoded_request, erule (1) checked_reply) (auto intro!: exchange [where M = M and sign = sign] reply_answers)

lemma apiCreateRoom_exchanged:
  "apiCreateRoom_with M have_ws sign net txn srv sid hid room desc rec file pin ws str = Inr i \<Longrightarrow> i \<noteq> 0 \<Longrightarrow>
   exchanged net txn ''message'' ''success''"
  unfolding apiCreateRoom_with_def
  by (erule (1) encoded_body, erule (1) checked_reply) (auto intro!: exchange [where M = M and sign = sign] reply_answers)

lemma apiLeave_exchanged:
  "apiLeave_with M have_ws sign net txn srv sid hid call = Inr SWITCH_STATUS_SUCCESS \<Longrightarrow>
   exchanged net txn ''message'' ''ack''"
  unfolding apiLeave_with_def
  by (erule encoded_body, simp) (auto intro!: exchange [where M = M and sign = sign] ack_status_success)

lemma apiJoin_exchanged:
  "apiJoin_with M have_ws sign net txn srv ttl sid hid room disp pin token call str = Inr SWITCH_STATUS_SUCCESS \<Longrightarrow>
   exchanged net txn ''message'' ''ack''"
  unfolding apiJoin_with_def
  by (erule encoded_body, simp)
    (auto simp: join_message_def Let_def mirror_token_other split: if_splits
      intro!: send_exchanged [where M = M and sign = sign] ack_status_success)

text \<open>The recording parameters of a configure request cannot be added.\<close>

definition recording_lost :: "memory \<Rightarrow> cstr \<Rightarrow> bool" where
  "recording_lost M recordingFile \<longleftrightarrow> \<not> M Body (Some ''record'') \<or> (recordingFile \<noteq> None \<and> \<not> M Body (Some ''filename''))"

lemma configure_recording_lost: "configure_recording M record_flag recordingFile j = None \<longleftrightarrow> recording_lost M recordingFile"
  by (auto simp: configure_recording_def recording_lost_def if_memory_def add_opt_string_eq)

lemma apiConfigure_exchanged:
  "apiConfigure_with M have_ws sign net txn srv sid hid muted rec file ty sdp call = Inr SWITCH_STATUS_SUCCESS \<Longrightarrow>
   exchanged net txn ''message'' ''ack'' \<or> recording_lost M file"
  by (auto simp: apiConfigure_with_def configure_message_def cassert_def configure_recording_lost
      split: if_splits option.splits intro!: exchange [where M = M and sign = sign] ack_status_success)

lemma apiDetach_exchanged:
  assumes "apiDetach_with M have_ws sign net txn srv sid hid = Inr SWITCH_STATUS_SUCCESS"
  shows "exchanged net txn ''detach'' ''success''
    \<or> (\<exists>req tok. encode_with M sign ((base_message srv ''detach'' txn)\<lparr>m_serverId := sid\<rparr>) = Some (req, tok)
        \<and> decode (api_send_request_with M have_ws net srv req txn sid hid URL_HANDLE) = Inr None)"
proof -
  obtain req tok where e: "encode_with M sign ((base_message srv ''detach'' txn)\<lparr>m_serverId := sid\<rparr>) = Some (req, tok)"
    and r: "cbind (decode (api_send_request_with M have_ws net srv req txn sid hid URL_HANDLE)) (\<lambda>r. case r of
        None \<Rightarrow> Inr SWITCH_STATUS_SUCCESS
      | Some p \<Rightarrow> if \<not> reply_matches p ''success'' txn then Inr SWITCH_STATUS_FALSE else Inr SWITCH_STATUS_SUCCESS)
      = Inr SWITCH_STATUS_SUCCESS"
    using assms unfolding apiDetach_with_def by (erule_tac encoded_request) auto
  show ?thesis
  proof (cases "decode (api_send_request_with M have_ws net srv req txn sid hid URL_HANDLE) = Inr None")
    case False
    with r obtain p where p: "decode (api_send_request_with M have_ws net srv req txn sid hid URL_HANDLE) = Inr (Some p)"
      by (auto simp: cbind_Inr_iff)
    with r have "reply_matches p ''success'' txn" by (simp split: if_splits)
    note p = p this
    from exchange [OF e _ _ reply_answers [OF p]] show ?thesis by simp
  qed (use e in blast)
qed

lemma apiClaimServerId_exchanged:
  assumes "apiClaimServerId_with M have_ws sign net txn srv sid = Inr r"
  shows "(r = SWITCH_STATUS_SUCCESS \<longrightarrow> exchanged net txn ''claim'' ''success'')
    \<and> (r = SWITCH_STATUS_NOT_INITALIZED \<longrightarrow> exchanged net txn ''claim'' ''error'')"
proof (cases "encode_with M sign (base_message srv ''claim'' txn)")
  case None
  with assms show ?thesis by (auto simp: apiClaimServerId_with_def cassert_def split: if_splits)
next
  case (Some p)
  obtain req tok where enc: "encode_with M sign (base_message srv ''claim'' txn) = Some (req, tok)"
    using Some by (cases p) simp
  let ?resp = "api_send_request_with M have_ws net srv req txn sid 0 URL_SESSION"
  have ex: "exchanged net txn ''claim'' ty" if "decode ?resp = Inr (Some m)" "reply_matches m ty txn"
    for m ty using that by (auto intro!: exchange [OF enc] reply_answers)
  show ?thesis
    using assms ex
    by (auto simp: apiClaimServerId_with_def enc cassert_def cbind_Inr_iff Let_def claim_error_def
        reply_matches_def split: if_splits option.splits)
qed

section \<open>Properties\<close>

text \<open>A server and a network for evaluating the requests: every POST and RPC gets the same answer.\<close>

definition sample_server :: "unit server_t" where
  "sample_server = (zero_server ())\<lparr>pUrl := Some ''http://j''\<rparr>"

definition sample_reply :: "string \<Rightarrow> cjson list \<Rightarrow> wire \<Rightarrow> cjson option" where
  "sample_reply ty items w = (case w of HttpGet url t \<Rightarrow> None
     | _ \<Rightarrow> Some (push_all cJSON_CreateObject
              ([str_item ''janus'' ty, str_item ''transaction'' ''t1''] @ items)))"

text \<open>
  C8: when a request reports success. Whatever memory can be had, an identifier other than 0, a claimed session, a
  session the server denies, a created or existing room, a successful join or leave is reported only after a request
  of the right type went out and the network returned a message of the expected type that carries the
  transaction of that very request; a reply to another request, a reply of another type, an undecodable reply and no
  reply are all failures. There are two exceptions: \<open>apiConfigure\<close> also succeeds, without sending anything, when
  the recording parameters cannot be allocated, and \<open>apiDetach\<close> also when its request got no reply that can be decoded.
\<close>

theorem api_success_answered:
  "(apiGetServerId_with M have_ws sign net txn srv = Inr i \<and> i \<noteq> 0 \<longrightarrow>
      exchanged net txn ''create'' ''success'')
   \<and> (apiClaimServerId_with M have_ws sign net txn srv sid = Inr SWITCH_STATUS_SUCCESS \<longrightarrow>
      exchanged net txn ''claim'' ''success'')
   \<and> (apiClaimServerId_with M have_ws sign net txn srv sid = Inr SWITCH_STATUS_NOT_INITALIZED \<longrightarrow>
      exchanged net txn ''claim'' ''error'')
   \<and> (apiGetSenderId_with M have_ws sign net txn srv sid call = Inr i \<and> i \<noteq> 0 \<longrightarrow>
      exchanged net txn ''attach'' ''success'')
   \<and> (apiCreateRoom_with M have_ws sign net txn srv sid hid room desc rec file pin ws str = Inr i \<and> i \<noteq> 0 \<longrightarrow>
      exchanged net txn ''message'' ''success'')
   \<and> (apiJoin_with M have_ws sign net txn srv ttl sid hid room disp pin token call str =
        Inr SWITCH_STATUS_SUCCESS \<longrightarrow> exchanged net txn ''message'' ''ack'')
   \<and> (apiConfigure_with M have_ws sign net txn srv sid hid muted rec file ty sdp call =
        Inr SWITCH_STATUS_SUCCESS \<longrightarrow> exchanged net txn ''message'' ''ack'' \<or> recording_lost M file)
   \<and> (apiLeave_with M have_ws sign net txn srv sid hid call = Inr SWITCH_STATUS_SUCCESS \<longrightarrow>
      exchanged net txn ''message'' ''ack'')
   \<and> (apiDetach_with M have_ws sign net txn srv sid hid = Inr SWITCH_STATUS_SUCCESS \<longrightarrow>
      exchanged net txn ''detach'' ''success''
      \<or> (\<exists>req tok. encode_with M sign ((base_message srv ''detach'' txn)\<lparr>m_serverId := sid\<rparr>) = Some (req, tok)
          \<and> decode (api_send_request_with M have_ws net srv req txn sid hid URL_HANDLE) = Inr None))"
  by (intro conjI impI; (erule conjE)?;
      (rule apiGetServerId_exchanged apiGetSenderId_exchanged apiCreateRoom_exchanged apiJoin_exchanged
        apiConfigure_exchanged apiLeave_exchanged apiDetach_exchanged
        apiClaimServerId_exchanged [THEN conjunct1, THEN mp] apiClaimServerId_exchanged [THEN conjunct2, THEN mp]; (assumption | rule refl))+)

lemmas api_eval = encode_eq encodable_def request_items_def request_token_def zero_message_def
  zero_server_def sample_server_def sample_reply_def api_send_request_with_def api_wire_with_def api_url_def
  decode_def decode_body_def decode_str_def decode_id_def JANUS_STRING_def reply_matches_def
  base_message_def API_URL_SIZE_def ack_status_def

theorem api_success_answered_witness:
  "apiLeave_with plenty False (\<lambda>_ _ _. None) (sample_reply ''ack'' []) ''t1'' sample_server 5 6 (Some ''c'') =
     Inr SWITCH_STATUS_SUCCESS
   \<and> exchanged (sample_reply ''ack'' []) ''t1'' ''message'' ''ack''"
proof -
  have "apiLeave_with plenty False (\<lambda>_ _ _. None) (sample_reply ''ack'' []) ''t1'' sample_server 5 6 (Some ''c'') =
     Inr SWITCH_STATUS_SUCCESS"
    by (simp add: apiLeave_with_def api_eval nat_str.simps)
  then show ?thesis
    using api_success_answered [where M = plenty and have_ws = False and sign = "\<lambda>_ _ _. None" and srv = sample_server
        and net = "sample_reply ''ack'' []" and txn = "''t1''" and sid = 5 and hid = 6
        and call = "Some ''c''"]
    by simp
qed




text \<open>
  \<open>apiDetach\<close> is an exception to the rule above. When the request can be encoded and there is no
  response at all, or one that cannot be decoded, it reports success.
\<close>

theorem apiDetach_no_reply:
  assumes "pUrl srv = Some url" and "encode sign ((base_message srv ''detach'' txn)\<lparr>m_serverId := sid\<rparr>) = Some (req, tok)"
    and "decode (api_send_request have_ws net srv req txn sid hid URL_HANDLE) = Inr None"
  shows "apiDetach have_ws sign net txn srv sid hid = Inr SWITCH_STATUS_SUCCESS"
  using assms by (simp add: apiDetach_plenty)

theorem apiDetach_no_reply_witness:
  "apiDetach False (\<lambda>_ _ _. None) (\<lambda>_. None) ''t1'' sample_server 5 6 = Inr SWITCH_STATUS_SUCCESS"
  by (rule apiDetach_no_reply [where url = "''http://j''" and tok = None
        and req = "push_all cJSON_CreateObject [str_item ''janus'' ''detach'', str_item ''transaction'' ''t1'']"])
    (simp_all add: api_eval opt_item_def opt_named_def)

text \<open>
  The result of \<open>apiCreateRoom\<close> can be tested against 0. For a reply that is accepted, a room that
  exists already (error 486) and a room created under a string name give a result other
  than 0, a room created under a number gives that number, and every other error code gives 0.
\<close>

theorem create_result_spec:
  assumes "jstr body ''audiobridge'' = Some t"
  shows "(t = ''event'' \<and> getcs (Some body) ''error_code'' = Some c \<and> cJSON_IsNumber (Some c) \<longrightarrow>
      (\<exists>i. create_result room str (Some body) = Inr i \<and> (i \<noteq> 0 \<longleftrightarrow> valueint c = 486)
         \<and> (valueint c = 486 \<and> zstr str \<and> room \<noteq> 0 \<longrightarrow> i = room)))
    \<and> (t = ''created'' \<and> getcs (Some body) ''room'' = Some r \<and> cJSON_IsString (Some r) \<longrightarrow>
      create_result room str (Some body) = Inr 1)
    \<and> (t = ''created'' \<and> getcs (Some body) ''room'' = Some (num_item k (u64_to_double n)) \<and> unat n \<le> 2 ^ 53 \<longrightarrow>
      create_result room str (Some body) = Inr n)
    \<and> (t \<noteq> ''event'' \<and> t \<noteq> ''created'' \<longrightarrow> create_result room str (Some body) = Inr 0)"
proof -
  obtain a where a: "find_cs ''audiobridge'' (child body) = Some a" "cJSON_IsString (Some a)"
      "valuestring a = Some t"
    using assms by (auto simp: jstr_def split: option.splits if_splits)
  show ?thesis
    by (auto simp: create_result_def Let_def a double_u64_exact dest: number_not_string)
qed

theorem create_result_spec_witness:
  "create_result 1234 None (Some (push_all cJSON_CreateObject
      [str_item ''audiobridge'' ''created'', num_item ''room'' (u64_to_double 1234)])) = Inr 1234"
proof -
  let ?b = "push_all cJSON_CreateObject
      [str_item ''audiobridge'' ''created'', num_item ''room'' (u64_to_double 1234)]"
  have "jstr ?b ''audiobridge'' = Some ''created''" by (simp add: jstr_def)
  from create_result_spec [OF this, of _ 1234 None _ "''room''" 1234] show ?thesis by simp
qed

text \<open>
  Where a request over HTTP goes. It is sent unless its URL would not fit the buffer, which cannot
  happen for a server URL of at most 981 bytes; the URL is never cut; and two requests of a kind reach the same URL only
  when they name the same session and, for handle requests, the same handle.
\<close>

theorem api_wire_http:
  assumes "\<not> (have_ws \<and> transport srv = JANUS_TP_WS)" and "pUrl srv = Some url"
  shows "(api_wire have_ws srv req txn sid hid kind = None \<longleftrightarrow> 1024 \<le> length (api_url url sid hid kind))
    \<and> (length url \<le> 981 \<longrightarrow> api_wire have_ws srv req txn sid hid kind =
         Some (HttpPost (api_url url sid hid kind) 3000 req))
    \<and> (api_wire have_ws srv req txn sid hid kind = Some w
         \<and> api_wire have_ws srv req txn sid' hid' kind = Some w \<longrightarrow>
       kind = URL_ROOT \<or> (sid = sid' \<and> (kind = URL_SESSION \<or> hid = hid')))"
proof -
  have len: "length (api_url url sid hid kind) \<le> length url + 42"
    using length_nat_str_u64 [of sid] length_nat_str_u64 [of hid]
    by (cases kind) (simp_all add: api_url_def)
  show ?thesis
    using assms len
    by (auto simp: api_wire_with_def Let_def API_URL_SIZE_def HTTP_POST_TIMEOUT_def api_url_eq_iff
        split: if_splits)
qed

theorem api_wire_http_witness:
  "api_wire False sample_server cJSON_CreateObject ''t1'' 5 6 URL_HANDLE =
     Some (HttpPost ''http://j/5/6'' 3000 cJSON_CreateObject)"
  using api_wire_http [of False sample_server "''http://j''" cJSON_CreateObject "''t1''" 5 6 URL_HANDLE]
  by (simp add: sample_server_def api_url_def nat_str.simps digit_char_literals)

text \<open>
  The URL of the long poll. The buffer is never overrun; when everything fits, the URL is
  complete; a server with a signing secret polls with a token signed for that poll,
  whatever stored token it has.
\<close>

theorem poll_url_spec:
  "length (poll_url srv sid token) < 1024
   \<and> (let full = the (pUrl srv) @ ''/'' @ nat_str (unat sid) @ ''?maxev=10''
           @ (case pSecret srv of None \<Rightarrow> [] | Some s \<Rightarrow> ''&apisecret='' @ s)
           @ (case token of None \<Rightarrow> [] | Some t \<Rightarrow> ''&token='' @ t)
      in length full < 1024 \<longrightarrow> poll_url srv sid token = full)
   \<and> (pHmacSecret srv \<noteq> None \<longrightarrow>
        poll_token sign srv = map_option Some (sign (pHmacSecret srv) 300 (Some [Some ''janus.plugin.audiobridge''])))"
proof -
  have ten: "nat_str MAX_POLL_EVENTS = ''10''"
    by (simp add: MAX_POLL_EVENTS_def nat_str.simps digit_char_literals)
  have "length (poll_url srv sid token) < API_URL_SIZE"
    by (auto simp: poll_url_def Let_def snprintf_text_length API_URL_SIZE_def [symmetric]
        intro!: url_append_length split: option.splits) (simp_all add: API_URL_SIZE_def snprintf_text_def)
  moreover have "poll_token sign srv =
      map_option Some (sign (pHmacSecret srv) 300 (Some [Some ''janus.plugin.audiobridge'']))"
    if "pHmacSecret srv \<noteq> None"
    using that by (auto simp: poll_token_def API_HMAC_DEFAULT_LIFECYCLE_TTL_def JANUS_PLUGIN_def
        split: option.splits)
  moreover have "let full = the (pUrl srv) @ ''/'' @ nat_str (unat sid) @ ''?maxev=10''
           @ (case pSecret srv of None \<Rightarrow> [] | Some s \<Rightarrow> ''&apisecret='' @ s)
           @ (case token of None \<Rightarrow> [] | Some t \<Rightarrow> ''&token='' @ t)
      in length full < 1024 \<longrightarrow> poll_url srv sid token = full"
    by (cases "pSecret srv"; cases token)
      (simp_all add: poll_url_def Let_def ten snprintf_text_fits url_append_fits API_URL_SIZE_def)
  ultimately show ?thesis by (simp add: API_URL_SIZE_def)
qed

theorem poll_url_spec_witness:
  "poll_url sample_server 5 None = ''http://j/5?maxev=10''"
  using poll_url_spec [of sample_server 5 None "\<lambda>_ _ _. None"]
  by (simp add: sample_server_def zero_server_def nat_str.simps digit_char_literals)

text \<open>
  A poll over HTTP completes. When there is no response, or no token can be signed, it fails
  without running a callback; when the response holds events with a type, every one of them is
  dispatched in order, whether or not the ones before it could be used, and the poll succeeds,
  provided that the callbacks themselves are defined.
\<close>

theorem apiPoll_completes:
  assumes "\<not> (have_ws \<and> transport srv = JANUS_TP_WS)" and "pUrl srv = Some url"
    and "callbacks_total cb" and "pParticipantFunc cb = Some f"
  shows "(poll_token sign srv = None \<longrightarrow>
        apiPoll have_ws sign net pump srv sid cb s = Inr (SWITCH_STATUS_FALSE, s))
    \<and> (poll_token sign srv = Some token \<and> net (HttpGet (poll_url srv sid token) 60000) = None \<longrightarrow>
        apiPoll have_ws sign net pump srv sid cb s = Inr (SWITCH_STATUS_FALSE, s))
    \<and> (poll_token sign srv = Some token \<and> net (HttpGet (poll_url srv sid token) 60000) = Some resp
        \<and> (\<forall>e \<in> set (child resp). typed_event e) \<longrightarrow>
        (\<exists>s'. dispatch_events cb (child resp) s = Inr s'
           \<and> apiPoll have_ws sign net pump srv sid cb s = Inr (SWITCH_STATUS_SUCCESS, s')))"
  using assms(1,2) dispatch_events_total [OF assms(3,4), of "child resp" s]
  by (auto simp: apiPoll_def HTTP_GET_TIMEOUT_def)

lemma log_callbacks_total: "callbacks_total log_callbacks"
  unfolding callbacks_total_def
proof (intro allI impI)
  fix c sid hid and s :: "call list"
  assume "\<forall>e. c \<noteq> Undefined e"
  then show "\<exists>s'. run_call log_callbacks sid hid c s = Inr s'"
    by (cases c) (simp_all add: log_callbacks_def run_cb_def)
qed

theorem apiPoll_completes_witness:
  "apiPoll False (\<lambda>_ _ _. None)
     (\<lambda>_. Some (push cJSON_CreateObject (push cJSON_CreateObject (str_item ''janus'' ''detached''))))
     (\<lambda>_ s. Inr (SWITCH_STATUS_FALSE, s)) sample_server 5 log_callbacks [] =
   Inr (SWITCH_STATUS_SUCCESS, [Hungup None])"
proof -
  let ?e = "push cJSON_CreateObject (str_item ''janus'' ''detached'')"
  have ev: "typed_event ?e"
    by (simp add: typed_event_def cJSON_CreateObject_def str_item_def cJSON_types cJSON_Is)
  have run: "dispatch_events log_callbacks [?e] [] = Inr [Hungup None]"
    by (simp add: api_dispatch_poll_event_def dispatch_message_def decode_def decode_body_def
        decode_str_def decode_id_def JANUS_STRING_def zero_message_def log_callbacks_def run_cb_def)
  have url: "pUrl sample_server = Some ''http://j''" and tp: "\<not> (False \<and> transport sample_server = JANUS_TP_WS)"
    and tok: "poll_token (\<lambda>_ _ _. None) sample_server = Some None"
    by (simp_all add: sample_server_def zero_server_def poll_token_def)
  have cb: "pParticipantFunc log_callbacks =
      Some (\<lambda>_ _ p self b s. Inr (SWITCH_STATUS_SUCCESS, s @ [Participant p self b]))"
    by (simp add: log_callbacks_def)
  show ?thesis
    using apiPoll_completes [OF tp url log_callbacks_total cb, of "\<lambda>_ _ _. None" _ _ 5 "[]" None
        "push cJSON_CreateObject ?e"] tok ev run
    by (simp add: cJSON_CreateObject_def)
qed

end
