(* ===== verification/Session.thy ===== *)
theory Session
  imports Api
begin

unbundle bit_operations_syntax

text \<open>
  The call legs of \<open>mod_janus.c\<close>: the private structure of a session, the callbacks that the event
  dispatcher invokes (\<open>joined\<close>, \<open>accepted\<close>, \<open>trickle\<close>, \<open>answered\<close>, \<open>participant\<close>,
  \<open>hungup\<close>) and the state handlers the core invokes (\<open>channel_on_init\<close>, \<open>channel_on_routing\<close>,
  \<open>channel_on_hangup\<close>, \<open>channel_read_frame\<close> and the rest).

  The state of the module is a record \<open>world\<close>: the global tables and counters, a store of servers and a
  store of sessions, both indexed by pointers, the clock, and the trace of the calls
  the module made into the FreeSWITCH core and the Janus API. The core and the network are the parameter \<open>env\<close>:
  what the core's functions return, the transaction identifiers of the requests of one handler,
  the signing function and the answers of the network.
\<close>

section \<open>State\<close>

definition TFLAG_IO :: u32 where "TFLAG_IO = 1"
definition TFLAG_OUTBOUND :: u32 where "TFLAG_OUTBOUND = 4"
definition TFLAG_VOICE :: u32 where "TFLAG_VOICE = 16"
definition TFLAG_BREAK :: u32 where "TFLAG_BREAK = 256"

definition JANUS_ANSWER_PARTICIPANT_TIMEOUT_MS_DEFAULT :: int where
  "JANUS_ANSWER_PARTICIPANT_TIMEOUT_MS_DEFAULT = 10000"

definition SDP_SIZE :: nat where "SDP_SIZE = 4096"

text \<open>The media parameters \<open>mparams\<close> the module sets are fields of the structure.\<close>

record private_object =
  p_flags :: u32
  p_te :: nat
  p_recv_te :: nat
  p_rtpip4 :: cstr
  p_rtpip :: cstr
  p_rtpip6 :: cstr
  p_local_network :: cstr
  p_extrtpip :: cstr
  p_serverId :: janus_id_t
  p_roomId :: janus_id_t
  p_pRoomIdStr :: cstr
  p_pDisplay :: cstr
  p_senderId :: janus_id_t
  p_callId :: cstr
  p_pSdpBody :: cstr
  p_pSdpCandidates :: cstr
  p_isTrickleComplete :: bool
  p_pParticipantIdStr :: cstr
  p_answerGate :: bool
  p_remoteReady :: bool
  p_answerRequested :: bool
  p_answerDone :: bool
  p_answerDeadline :: int

definition zero_private :: private_object where
  "zero_private = \<lparr>p_flags = 0, p_te = 0, p_recv_te = 0, p_rtpip4 = None, p_rtpip = None,
     p_rtpip6 = None, p_local_network = None, p_extrtpip = None, p_serverId = 0, p_roomId = 0,
     p_pRoomIdStr = None, p_pDisplay = None, p_senderId = 0, p_callId = None, p_pSdpBody = None,
     p_pSdpCandidates = None, p_isTrickleComplete = False, p_pParticipantIdStr = None,
     p_answerGate = False, p_remoteReady = False, p_answerRequested = False, p_answerDone = False,
     p_answerDeadline = 0\<rparr>"

datatype call_cause =
    CAUSE_NORMAL_CLEARING
  | CAUSE_NETWORK_OUT_OF_ORDER
  | CAUSE_MEDIA_TIMEOUT
  | CAUSE_INCOMPATIBLE_DESTINATION
  | CAUSE_SUCCESS
  | CAUSE_DESTINATION_OUT_OF_ORDER
  | CAUSE_PROTOCOL_ERROR
  | CAUSE_NO_ROUTE_DESTINATION
  | CAUSE_OUTGOING_CALL_BARRED

text \<open>A session: its private structure, its channel's variables, its partner and its identity.\<close>

record session_t =
  tech_pvt :: private_object
  vars :: "string \<Rightarrow> cstr"
  partner :: "ptr option"
  uuid :: string
  early :: bool

datatype chan_flag = CF_AUDIO | CF_PASS_RFC2833

datatype core_call =
    SetFlag ptr chan_flag
  | PrepareCodecs ptr
  | SetIce ptr
  | AddIceAcl ptr string
  | ChoosePorts ptr
  | GenLocalSdp ptr
  | RingReady ptr
  | HangupChannel ptr call_cause
  | NegotiateSdp ptr string
  | ActivateRtp ptr
  | PreAnswer ptr
  | MarkPreAnswered ptr
  | Answer ptr
  | MarkAnswered ptr
  | KillSocket ptr
  | MediaBreak ptr
  | StopMedia ptr
  | DestroyReadCodec ptr
  | DestroyWriteCodec ptr
  | DeactivateRtp ptr
  | DestroyMediaHandle ptr
  | ReadFrame ptr
  | WriteFrame ptr
  | SentConfigure janus_id_t janus_id_t
  | SentAttach janus_id_t
  | SentCreateRoom janus_id_t janus_id_t
  | SentJoin janus_id_t janus_id_t int
  | SentLeave janus_id_t janus_id_t
  | SentDetach janus_id_t janus_id_t
  | SetName ptr string
  | AddStream ptr
  | CreateMediaHandle ptr
  | SetCallerProfile ptr
  | SetStateInit ptr
  | DestroySession ptr

record 'h world =
  w_serverIdLookup :: "'h hash_t"
  w_servers :: "ptr \<Rightarrow> 'h server_t"
  w_sessions :: "ptr \<Rightarrow> session_t"
  w_totalCalls :: u32
  w_callsInProgress :: u32
  w_now :: int
  w_trace :: "core_call list"

record 'h env =
  e_core :: "'h core_hash"
  e_have_ws :: bool
  e_sign :: signer
  e_net :: "wire \<Rightarrow> cjson option"
  e_txn :: "nat \<Rightarrow> string"
  e_true :: "cstr \<Rightarrow> bool"
  e_false :: "cstr \<Rightarrow> bool"
  e_choose_ports :: "ptr \<Rightarrow> switch_status_t"
  e_local_sdp :: "ptr \<Rightarrow> cstr"
  e_negotiate_sdp :: "ptr \<Rightarrow> string \<Rightarrow> bool"
  e_activate_rtp :: "ptr \<Rightarrow> switch_status_t"
  e_pre_answer :: "ptr \<Rightarrow> switch_status_t"
  e_answer :: "ptr \<Rightarrow> switch_status_t"
  e_read_codec_ready :: "ptr \<Rightarrow> bool"
  e_write_codec_ready :: "ptr \<Rightarrow> bool"
  e_read_frame :: "ptr \<Rightarrow> switch_status_t"
  e_write_frame :: "ptr \<Rightarrow> switch_status_t"

definition emit :: "core_call \<Rightarrow> 'h world \<Rightarrow> 'h world" where
  "emit c w = w\<lparr>w_trace := w_trace w @ [c]\<rparr>"

definition upd_session :: "ptr \<Rightarrow> (session_t \<Rightarrow> session_t) \<Rightarrow> 'h world \<Rightarrow> 'h world" where
  "upd_session p f w = w\<lparr>w_sessions := (w_sessions w)(p := f (w_sessions w p))\<rparr>"

definition upd_pvt :: "ptr \<Rightarrow> (private_object \<Rightarrow> private_object) \<Rightarrow> 'h world \<Rightarrow> 'h world" where
  "upd_pvt p f = upd_session p (\<lambda>s. s\<lparr>tech_pvt := f (tech_pvt s)\<rparr>)"

definition set_variable :: "ptr \<Rightarrow> string \<Rightarrow> cstr \<Rightarrow> 'h world \<Rightarrow> 'h world" where
  "set_variable p k v = upd_session p (\<lambda>s. s\<lparr>vars := (vars s)(k := v)\<rparr>)"

definition upd_server :: "ptr \<Rightarrow> ('h server_t \<Rightarrow> 'h server_t) \<Rightarrow> 'h world \<Rightarrow> 'h world" where
  "upd_server p f w = w\<lparr>w_servers := (w_servers w)(p := f (w_servers w p))\<rparr>"

abbreviation pvt :: "'h world \<Rightarrow> ptr \<Rightarrow> private_object" where
  "pvt w p \<equiv> tech_pvt (w_sessions w p)"

abbreviation var :: "'h world \<Rightarrow> ptr \<Rightarrow> string \<Rightarrow> cstr" where
  "var w p k \<equiv> vars (w_sessions w p) k"

text \<open>The two lookups every callback starts with: the server of the session identifier, then the session.\<close>

definition find_server :: "'h env \<Rightarrow> 'h world \<Rightarrow> janus_id_t \<Rightarrow> ptr option" where
  "find_server e w sid = hashFind (e_core e) (w_serverIdLookup w) sid"

definition find_session :: "'h env \<Rightarrow> 'h world \<Rightarrow> janus_id_t \<Rightarrow> janus_id_t \<Rightarrow> (ptr \<times> ptr) option" where
  "find_session e w sid hid =
     (case find_server e w sid of
        None \<Rightarrow> None
      | Some sp \<Rightarrow>
          (case hashFind (e_core e) (senderIdLookup (w_servers w sp)) hid of
             None \<Rightarrow> None
           | Some p \<Rightarrow> Some (sp, p)))"

section \<open>Callbacks of the dispatcher\<close>

type_synonym 'h step = "'h world \<Rightarrow> (switch_status_t \<times> 'h world) cres"

definition joined_gate :: "'h env \<Rightarrow> ptr \<Rightarrow> 'h world \<Rightarrow> 'h world cres" where
  "joined_gate e p w =
     (if e_true e (var w p ''janus-answer-on-participant-ready'') then
        cbind (case var w p ''janus-answer-participant-timeout-ms'' of None \<Rightarrow> Inr 0 | Some t \<Rightarrow> atoi t)
          (\<lambda>ms. let timeoutMs = (if ms \<le> 0 then JANUS_ANSWER_PARTICIPANT_TIMEOUT_MS_DEFAULT else ms) in
             Inr (upd_pvt p (\<lambda>t. t\<lparr>p_answerGate := True,
                    p_answerDeadline := w_now w + timeoutMs * 1000\<rparr>) w))
      else Inr w)"

definition get_variable :: "'h world \<Rightarrow> ptr \<Rightarrow> cstr \<Rightarrow> cstr" where
  "get_variable w p k = (if zstr k then None else var w p (the k))"

definition joined_codec :: "'h env \<Rightarrow> ptr \<Rightarrow> ptr \<Rightarrow> 'h world \<Rightarrow> 'h world" where
  "joined_codec e sp p w =
     (let dtmf = (\<lambda>w. emit (SetFlag p CF_PASS_RFC2833)
                        (upd_pvt p (\<lambda>t. t\<lparr>p_te := 101, p_recv_te := 101\<rparr>) w))
      in case partner (w_sessions w p) of
           Some q \<Rightarrow>
             if e_true e (var w p ''janus-use-bridged-channel-codec'') then
               (let partner_codec = var w q ''ep_codec_string'';
                    partner_dtmf_type = var w q ''dtmf_type'';
                    w' = set_variable p ''dtmf_type'' partner_dtmf_type (dtmf w)
                in set_variable p ''absolute_codec_string'' (get_variable w' q partner_codec) w')
             else set_variable p ''absolute_codec_string'' (codec_string (w_servers w sp)) w
         | None \<Rightarrow>
             if e_true e (var w p ''janus-use-bridged-channel-codec'')
             then set_variable p ''dtmf_type'' (Some ''rfc2833'') (dtmf w)
             else w)"

definition joined_media :: "ptr \<Rightarrow> ptr \<Rightarrow> 'h world \<Rightarrow> 'h world" where
  "joined_media sp p w =
     emit (ChoosePorts p)
       (fold (\<lambda>a. emit (AddIceAcl p a)) (cand_acl (w_servers w sp))
         (emit (SetIce p) (emit (PrepareCodecs p) w)))"

definition joined_configure :: "'h env \<Rightarrow> ptr \<Rightarrow> ptr \<Rightarrow> 'h step" where
  "joined_configure e sp p w =
     (let t = pvt w p; w' = emit (SentConfigure (p_serverId t) (p_senderId t)) w in
      cbind (apiConfigure (e_have_ws e) (e_sign e) (e_net e) (e_txn e 0) (w_servers w sp)
               (p_serverId t) (p_senderId t)
               (e_true e (var w p ''janus-start-muted''))
               (e_true e (var w p ''janus-user-record''))
               (var w p ''janus-user-record-file'')
               (Some ''offer'') (e_local_sdp e p) (p_callId t))
        (\<lambda>st. let w'' = (if st \<noteq> SWITCH_STATUS_SUCCESS
                          then emit (HangupChannel p CAUSE_NETWORK_OUT_OF_ORDER) w' else w')
              in Inr (SWITCH_STATUS_SUCCESS, emit (RingReady p) w'')))"

definition joined :: "'h env \<Rightarrow> janus_id_t \<Rightarrow> janus_id_t \<Rightarrow> janus_id_t \<Rightarrow> janus_id_t \<Rightarrow> 'h step" where
  "joined e sid hid roomId participantId w =
     (case find_session e w sid hid of
        None \<Rightarrow> Inr (SWITCH_STATUS_NOTFOUND, w)
      | Some (sp, p) \<Rightarrow>
          cbind (joined_gate e p w) (\<lambda>w.
          let w = emit (SetFlag p CF_AUDIO) (set_variable p ''media_webrtc'' (Some ''true'') w);
              w = joined_media sp p (joined_codec e sp p w)
          in if e_choose_ports e p \<noteq> SWITCH_STATUS_SUCCESS
             then Inr (SWITCH_STATUS_FALSE, emit (HangupChannel p CAUSE_NETWORK_OUT_OF_ORDER) w)
             else joined_configure e sp p (emit (GenLocalSdp p) w)))"

definition set_pflag :: "u32 \<Rightarrow> private_object \<Rightarrow> private_object" where
  "set_pflag f t = t\<lparr>p_flags := p_flags t OR f\<rparr>"

definition clear_pflag :: "u32 \<Rightarrow> private_object \<Rightarrow> private_object" where
  "clear_pflag f t = t\<lparr>p_flags := p_flags t AND NOT f\<rparr>"

definition proceed_sdp :: "private_object \<Rightarrow> string \<Rightarrow> string cres" where
  "proceed_sdp t body =
     cbind (strncat SDP_SIZE [] body (SDP_SIZE - 1)) (\<lambda>sdp.
       case p_pSdpCandidates t of None \<Rightarrow> Inr sdp | Some c \<Rightarrow> strncat SDP_SIZE sdp c (SDP_SIZE - 1))"

definition proceed_pre_answer :: "'h env \<Rightarrow> ptr \<Rightarrow> 'h step" where
  "proceed_pre_answer e p w =
     (let w = emit (PreAnswer p) w in
      if e_pre_answer e p \<noteq> SWITCH_STATUS_SUCCESS then Inr (SWITCH_STATUS_FALSE, w)
      else Inr (SWITCH_STATUS_SUCCESS, upd_pvt p (set_pflag TFLAG_VOICE) (emit (MarkPreAnswered p) w)))"

definition proceed :: "'h env \<Rightarrow> ptr \<Rightarrow> 'h step" where
  "proceed e p w =
     (case p_pSdpBody (pvt w p) of
        None \<Rightarrow> Inr (SWITCH_STATUS_FALSE, emit (HangupChannel p CAUSE_NETWORK_OUT_OF_ORDER) w)
      | Some body \<Rightarrow>
          cbind (proceed_sdp (pvt w p) body) (\<lambda>sdp.
          let w = emit (NegotiateSdp p sdp) w in
          if e_negotiate_sdp e p sdp then
            (let w = emit (ActivateRtp p) w in
             if e_activate_rtp e p \<noteq> SWITCH_STATUS_SUCCESS
             then Inr (SWITCH_STATUS_FALSE, emit (HangupChannel p CAUSE_NETWORK_OUT_OF_ORDER) w)
             else proceed_pre_answer e p w)
          else proceed_pre_answer e p (emit (HangupChannel p CAUSE_MEDIA_TIMEOUT) w)))"

definition accepted :: "'h env \<Rightarrow> janus_id_t \<Rightarrow> janus_id_t \<Rightarrow> cstr \<Rightarrow> 'h step" where
  "accepted e sid hid pSdp w =
     (case find_session e w sid hid of
        None \<Rightarrow> Inr (SWITCH_STATUS_NOTFOUND, w)
      | Some (sp, p) \<Rightarrow>
          let w = upd_pvt p (\<lambda>t. t\<lparr>p_pSdpBody := pSdp\<rparr>) w in
          cbind (deref pSdp) (\<lambda>sdp.
          let isTrickling = (strstr_split ''a=candidate:'' sdp = None) in
          if \<not> isTrickling \<or> p_isTrickleComplete (pvt w p) then proceed e p w
          else Inr (SWITCH_STATUS_SUCCESS, w)))"

definition CRLF :: string where "CRLF = [CHR 0x0D, CHR 0x0A]"

definition add_candidate :: "string \<Rightarrow> private_object \<Rightarrow> private_object" where
  "add_candidate c t = t\<lparr>p_pSdpCandidates :=
     Some ((case p_pSdpCandidates t of None \<Rightarrow> [] | Some s \<Rightarrow> s) @ ''a='' @ c @ CRLF)\<rparr>"

definition trickle :: "'h env \<Rightarrow> janus_id_t \<Rightarrow> janus_id_t \<Rightarrow> cstr \<Rightarrow> 'h step" where
  "trickle e sid hid pCandidate w =
     (case find_session e w sid hid of
        None \<Rightarrow> Inr (SWITCH_STATUS_NOTFOUND, w)
      | Some (sp, p) \<Rightarrow>
          if zstr pCandidate then
            (let w = upd_pvt p (\<lambda>t. add_candidate ''end-of-candidates'' (t\<lparr>p_isTrickleComplete := True\<rparr>)) w in
             if p_pSdpBody (pvt w p) \<noteq> None then proceed e p w else Inr (SWITCH_STATUS_SUCCESS, w))
          else Inr (SWITCH_STATUS_SUCCESS, upd_pvt p (add_candidate (the pCandidate)) w))"

definition answer_on_webrtcup :: "'h env \<Rightarrow> janus_id_t \<Rightarrow> janus_id_t \<Rightarrow> 'h world \<Rightarrow> bool" where
  "answer_on_webrtcup e sid hid w =
     (case find_session e w sid hid of
        None \<Rightarrow> False
      | Some (sp, p) \<Rightarrow> e_true e (var w p ''answer_on_webrtcup''))"

definition answered :: "'h env \<Rightarrow> janus_id_t \<Rightarrow> janus_id_t \<Rightarrow> 'h step" where
  "answered e sid hid w =
     (case find_session e w sid hid of
        None \<Rightarrow> Inr (SWITCH_STATUS_NOTFOUND, w)
      | Some (sp, p) \<Rightarrow>
          let t = pvt w p in
          if p_answerDone t then Inr (SWITCH_STATUS_SUCCESS, w)
          else if p_answerGate t \<and> \<not> p_remoteReady t
          then Inr (SWITCH_STATUS_SUCCESS, upd_pvt p (\<lambda>t. t\<lparr>p_answerRequested := True\<rparr>) w)
          else let w = emit (Answer p) (upd_pvt p (\<lambda>t. t\<lparr>p_answerDone := True\<rparr>) w) in
               if e_answer e p \<noteq> SWITCH_STATUS_SUCCESS then Inr (SWITCH_STATUS_FALSE, w)
               else Inr (SWITCH_STATUS_SUCCESS, emit (MarkAnswered p) w))"

definition participant ::
  "'h env \<Rightarrow> janus_id_t \<Rightarrow> janus_id_t \<Rightarrow> cstr \<Rightarrow> bool \<Rightarrow> bool \<Rightarrow> 'h step" where
  "participant e sid hid pParticipantIdStr isSelf setup w =
     (case find_session e w sid hid of
        None \<Rightarrow> Inr (SWITCH_STATUS_NOTFOUND, w)
      | Some (sp, p) \<Rightarrow>
          let t = pvt w p in
          if isSelf then
            Inr (SWITCH_STATUS_SUCCESS,
              if p_pParticipantIdStr t = None \<and> pParticipantIdStr \<noteq> None
              then upd_pvt p (\<lambda>t. t\<lparr>p_pParticipantIdStr := pParticipantIdStr\<rparr>) w else w)
          else if \<not> p_answerGate t \<or> p_answerDone t then Inr (SWITCH_STATUS_SUCCESS, w)
          else if pParticipantIdStr \<noteq> None \<and> p_pParticipantIdStr t = pParticipantIdStr
          then Inr (SWITCH_STATUS_SUCCESS, w)
          else if \<not> setup then Inr (SWITCH_STATUS_SUCCESS, w)
          else let w = upd_pvt p (\<lambda>t. t\<lparr>p_remoteReady := True\<rparr>) w in
               if p_answerRequested t then answered e sid hid w
               else Inr (SWITCH_STATUS_SUCCESS, w))"

definition hungup :: "'h env \<Rightarrow> janus_id_t \<Rightarrow> janus_id_t \<Rightarrow> cstr \<Rightarrow> 'h step" where
  "hungup e sid hid pReason w =
     (case find_session e w sid hid of
        None \<Rightarrow> Inr (SWITCH_STATUS_NOTFOUND, w)
      | Some (sp, p) \<Rightarrow> Inr (SWITCH_STATUS_SUCCESS, emit (HangupChannel p CAUSE_NORMAL_CLEARING) w))"

text \<open>The callbacks as the module passes them to \<open>apiPoll\<close>.\<close>

definition module_callbacks :: "'h env \<Rightarrow> 'h world callbacks" where
  "module_callbacks e = \<lparr>pJoinedFunc = joined e, pAcceptedFunc = accepted e, pTrickleFunc = trickle e,
     pAnswerOnWebrtcupFunc = Some (answer_on_webrtcup e), pAnsweredFunc = answered e,
     pHungupFunc = hungup e, pParticipantFunc = Some (participant e)\<rparr>"

section \<open>State handlers of the core\<close>

definition test_pflag :: "private_object \<Rightarrow> u32 \<Rightarrow> bool" where
  "test_pflag t f \<longleftrightarrow> p_flags t AND f \<noteq> 0"

definition init_callId :: "ptr \<Rightarrow> 'h world \<Rightarrow> 'h world" where
  "init_callId p w =
     (let c = (case partner (w_sessions w p) of Some q \<Rightarrow> var w q ''sip_call_id''
                                              | None \<Rightarrow> var w p ''sip_call_id'');
          c = (if c = None then Some (uuid (w_sessions w p)) else c)
      in upd_pvt p (\<lambda>t. t\<lparr>p_callId := c\<rparr>) w)"

definition count_call :: "ptr \<Rightarrow> 'h world \<Rightarrow> 'h world" where
  "count_call sp w =
     (let w = upd_server sp (\<lambda>s. s\<lparr>callsInProgress := callsInProgress s + 1,
                                   totalCalls := totalCalls s + 1\<rparr>) w;
          w = (if test_flag (w_servers w sp) SFLAG_DYNAMIC
               then upd_server sp (serversDynamicRecordActivity (w_now w)) w else w)
      in w\<lparr>w_callsInProgress := w_callsInProgress w + 1, w_totalCalls := w_totalCalls w + 1\<rparr>)"

definition init_room :: "'h env \<Rightarrow> ptr \<Rightarrow> ptr \<Rightarrow> 'h world \<Rightarrow> (bool \<times> 'h world) cres" where
  "init_room e sp p w =
     (let t = pvt w p in
      if e_false e (var w p ''janus-use-existing-room'') then
        cbind (apiCreateRoom (e_have_ws e) (e_sign e) (e_net e) (e_txn e 1) (w_servers w sp)
                 (p_serverId t) (p_senderId t) (p_roomId t)
                 (var w p ''janus-room-description'')
                 (e_true e (var w p ''janus-room-record''))
                 (var w p ''janus-room-record-file'')
                 (var w p ''janus-room-pin'')
                 (e_true e (var w p ''janus-room-allow-ws-participants''))
                 (p_pRoomIdStr t))
          (\<lambda>r. Inr (r \<noteq> 0, emit (SentCreateRoom (p_serverId t) (p_senderId t)) w))
      else Inr (True, w))"

definition channel_on_init :: "'h env \<Rightarrow> ptr \<Rightarrow> 'h step" where
  "channel_on_init e p w =
     (let w = init_callId p w; reject = emit (HangupChannel p CAUSE_INCOMPATIBLE_DESTINATION) in
      if \<not> test_pflag (pvt w p) TFLAG_OUTBOUND then Inr (SWITCH_STATUS_FALSE, reject w)
      else case find_server e w (p_serverId (pvt w p)) of
        None \<Rightarrow> Inr (SWITCH_STATUS_NOTFOUND, reject w)
      | Some sp \<Rightarrow>
          cbind (apiGetSenderId (e_have_ws e) (e_sign e) (e_net e) (e_txn e 0) (w_servers w sp)
                   (p_serverId (pvt w p)) (p_callId (pvt w p))) (\<lambda>hid.
          let w = upd_pvt p (\<lambda>t. t\<lparr>p_senderId := hid\<rparr>) (emit (SentAttach (p_serverId (pvt w p))) w) in
          if hid = 0
          then Inr (SWITCH_STATUS_FALSE, upd_server sp (\<lambda>s. s\<lparr>serverId := 0\<rparr>) (reject w))
          else let (st, h) = hashInsert (e_core e) (senderIdLookup (w_servers w sp)) hid p;
                   w = upd_server sp (\<lambda>s. s\<lparr>senderIdLookup := h\<rparr>) w
               in if st \<noteq> SWITCH_STATUS_SUCCESS then Inr (SWITCH_STATUS_FALSE, reject w)
                  else cbind (init_room e sp p w) (\<lambda>(ok, w).
                       if \<not> ok then Inr (SWITCH_STATUS_FALSE, reject w)
                       else Inr (SWITCH_STATUS_SUCCESS,
                                 count_call sp (upd_pvt p (set_pflag TFLAG_IO) w)))))"

definition routing_ttl :: "'h world \<Rightarrow> ptr \<Rightarrow> ptr \<Rightarrow> int cres" where
  "routing_ttl w sp p =
     (if pHmacSecret (w_servers w sp) = None then Inr 0
      else let v = var w p ''janus-hmac-token-ttl'' in
           cbind (if zstr v then Inr 0
                  else cbind (atoi (the v)) (\<lambda>n. Inr (if n < 0 then 0 else if n > 86400 then 86400 else n)))
             (\<lambda>ttl. Inr (if ttl = 0 then API_HMAC_DEFAULT_CALL_TTL else ttl)))"

definition channel_on_routing :: "'h env \<Rightarrow> ptr \<Rightarrow> 'h step" where
  "channel_on_routing e p w =
     (if early (w_sessions w p) then Inr (SWITCH_STATUS_SUCCESS, w)
      else let t = pvt w p; reject = emit (HangupChannel p CAUSE_INCOMPATIBLE_DESTINATION) in
      case find_server e w (p_serverId t) of
        None \<Rightarrow> Inr (SWITCH_STATUS_NOTFOUND, reject w)
      | Some sp \<Rightarrow>
          cbind (routing_ttl w sp p) (\<lambda>ttl.
          cbind (apiJoin (e_have_ws e) (e_sign e) (e_net e) (e_txn e 0) (w_servers w sp) ttl
                   (p_serverId t) (p_senderId t) (p_roomId t) (p_pDisplay t)
                   (var w p ''janus-room-pin'') (var w p ''janus-user-token'') (p_callId t)
                   (p_pRoomIdStr t)) (\<lambda>st.
          let w = emit (SentJoin (p_serverId t) (p_senderId t) ttl) w in
          if st \<noteq> SWITCH_STATUS_SUCCESS then Inr (SWITCH_STATUS_FALSE, reject w)
          else Inr (SWITCH_STATUS_SUCCESS, w))))"

definition channel_on_execute :: "ptr \<Rightarrow> 'h step" where
  "channel_on_execute p w = Inr (SWITCH_STATUS_SUCCESS, w)"

definition channel_on_destroy :: "'h env \<Rightarrow> ptr \<Rightarrow> 'h step" where
  "channel_on_destroy e p w =
     (let w = (if e_read_codec_ready e p then emit (DestroyReadCodec p) w else w);
          w = (if e_write_codec_ready e p then emit (DestroyWriteCodec p) w else w)
      in Inr (SWITCH_STATUS_SUCCESS, emit (DestroyMediaHandle p) (emit (DeactivateRtp p) w)))"

definition uncount_call :: "ptr \<Rightarrow> 'h world \<Rightarrow> 'h world" where
  "uncount_call sp w =
     (let dec = (\<lambda>n :: u32. if n > 0 then n - 1 else n);
          w = upd_server sp (\<lambda>s. s\<lparr>callsInProgress := dec (callsInProgress s)\<rparr>) w;
          w = (if test_flag (w_servers w sp) SFLAG_DYNAMIC
               then upd_server sp (serversDynamicRecordActivity (w_now w)) w else w)
      in w\<lparr>w_callsInProgress := dec (w_callsInProgress w)\<rparr>)"

definition channel_on_hangup :: "'h env \<Rightarrow> ptr \<Rightarrow> 'h step" where
  "channel_on_hangup e p w =
     (let w = emit (StopMedia p) (emit (KillSocket p) w);
          w = (case partner (w_sessions w p) of
                 None \<Rightarrow> w | Some q \<Rightarrow> emit (HangupChannel q CAUSE_NORMAL_CLEARING) w);
          w = upd_pvt p (clear_pflag TFLAG_VOICE) (upd_pvt p (clear_pflag TFLAG_IO) w);
          t = pvt w p
      in case find_server e w (p_serverId t) of
           None \<Rightarrow> Inr (SWITCH_STATUS_NOTFOUND, w)
         | Some sp \<Rightarrow>
             cbind (apiLeave (e_have_ws e) (e_sign e) (e_net e) (e_txn e 0) (w_servers w sp)
                      (p_serverId t) (p_senderId t) (p_callId t)) (\<lambda>_.
             cbind (apiDetach (e_have_ws e) (e_sign e) (e_net e) (e_txn e 1) (w_servers w sp)
                      (p_serverId t) (p_senderId t)) (\<lambda>_.
             let w = emit (SentDetach (p_serverId t) (p_senderId t))
                       (emit (SentLeave (p_serverId t) (p_senderId t)) w);
                 w = upd_server sp (\<lambda>s. s\<lparr>senderIdLookup :=
                       snd (hashDelete (e_core e) (senderIdLookup s) (p_senderId t))\<rparr>) w
             in Inr (SWITCH_STATUS_SUCCESS, uncount_call sp w))))"

datatype kill_sig = SIG_KILL | SIG_BREAK | SIG_OTHER

definition channel_kill_channel :: "ptr \<Rightarrow> kill_sig \<Rightarrow> 'h step" where
  "channel_kill_channel p sig w =
     Inr (SWITCH_STATUS_SUCCESS,
       case sig of
         SIG_KILL \<Rightarrow> emit (KillSocket p) (upd_pvt p (set_pflag TFLAG_IO) w)
       | SIG_BREAK \<Rightarrow> emit (MediaBreak p) (upd_pvt p (set_pflag TFLAG_BREAK) w)
       | SIG_OTHER \<Rightarrow> w)"

definition read_frame_fallback :: "'h env \<Rightarrow> ptr \<Rightarrow> 'h world \<Rightarrow> 'h world cres" where
  "read_frame_fallback e p w =
     (let t = pvt w p in
      if p_answerGate t \<and> p_answerRequested t \<and> \<not> p_answerDone t \<and> p_answerDeadline t \<noteq> 0
         \<and> w_now w \<ge> p_answerDeadline t
      then run_cb (answered e (p_serverId t) (p_senderId t)
                     (upd_pvt p (\<lambda>t. t\<lparr>p_remoteReady := True\<rparr>) w))
      else Inr w)"

definition channel_read_frame :: "'h env \<Rightarrow> ptr \<Rightarrow> 'h step" where
  "channel_read_frame e p w =
     cbind (read_frame_fallback e p w) (\<lambda>w. Inr (e_read_frame e p, emit (ReadFrame p) w))"

definition channel_write_frame :: "'h env \<Rightarrow> ptr \<Rightarrow> 'h step" where
  "channel_write_frame e p w = Inr (e_write_frame e p, emit (WriteFrame p) w)"

definition channel_receive_message :: "ptr \<Rightarrow> 'h step" where
  "channel_receive_message p w = Inr (SWITCH_STATUS_SUCCESS, w)"

section \<open>Frame rules\<close>

lemma world_simps [simp]:
  "w_trace (emit c w) = w_trace w @ [c]" "w_sessions (emit c w) = w_sessions w"
  "w_servers (emit c w) = w_servers w" "w_now (emit c w) = w_now w"
  "w_serverIdLookup (emit c w) = w_serverIdLookup w"
  "w_callsInProgress (emit c w) = w_callsInProgress w" "w_totalCalls (emit c w) = w_totalCalls w"
  "w_trace (upd_session p f w) = w_trace w" "w_servers (upd_session p f w) = w_servers w"
  "w_now (upd_session p f w) = w_now w" "w_serverIdLookup (upd_session p f w) = w_serverIdLookup w"
  "w_callsInProgress (upd_session p f w) = w_callsInProgress w"
  "w_totalCalls (upd_session p f w) = w_totalCalls w"
  "w_sessions (upd_session p f w) q = (if q = p then f (w_sessions w p) else w_sessions w q)"
  "w_trace (upd_server sp g w) = w_trace w" "w_sessions (upd_server sp g w) = w_sessions w"
  "w_now (upd_server sp g w) = w_now w" "w_serverIdLookup (upd_server sp g w) = w_serverIdLookup w"
  "w_callsInProgress (upd_server sp g w) = w_callsInProgress w"
  "w_totalCalls (upd_server sp g w) = w_totalCalls w"
  "w_servers (upd_server sp g w) sq = (if sq = sp then g (w_servers w sp) else w_servers w sq)"
  by (simp_all add: emit_def upd_session_def upd_server_def)

lemma pvt_simps [simp]:
  "w_trace (upd_pvt p h w) = w_trace w" "w_servers (upd_pvt p h w) = w_servers w"
  "w_now (upd_pvt p h w) = w_now w" "w_serverIdLookup (upd_pvt p h w) = w_serverIdLookup w"
  "w_callsInProgress (upd_pvt p h w) = w_callsInProgress w"
  "w_totalCalls (upd_pvt p h w) = w_totalCalls w"
  "pvt (upd_pvt p h w) q = (if q = p then h (pvt w p) else pvt w q)"
  "var (upd_pvt p h w) q = var w q" "partner (w_sessions (upd_pvt p h w) q) = partner (w_sessions w q)"
  "w_trace (set_variable p k v w) = w_trace w" "w_servers (set_variable p k v w) = w_servers w"
  "w_now (set_variable p k v w) = w_now w"
  "w_serverIdLookup (set_variable p k v w) = w_serverIdLookup w"
  "pvt (set_variable p k v w) q = pvt w q"
  by (simp_all add: upd_pvt_def set_variable_def)

lemma find_simps [simp]:
  "find_server e (emit c w) = find_server e w"
  "find_server e (upd_pvt p h w) = find_server e w"
  "find_session e (emit c w) = find_session e w"
  "find_session e (upd_pvt p h w) = find_session e w"
  "find_session e (set_variable p k v w) = find_session e w"
  by (auto simp: find_server_def find_session_def fun_eq_iff split: option.splits)

text \<open>The part of a session that decides when it is answered, and the answers given so far.\<close>

definition gate :: "private_object \<Rightarrow> bool \<times> bool \<times> bool \<times> bool \<times> int \<times> cstr" where
  "gate t = (p_answerGate t, p_remoteReady t, p_answerRequested t, p_answerDone t, p_answerDeadline t,
     p_pParticipantIdStr t)"

definition answers_to :: "ptr \<Rightarrow> 'h world \<Rightarrow> nat" where
  "answers_to p w = length (filter (\<lambda>c. c = Answer p) (w_trace w))"

definition same_gate :: "'h world \<Rightarrow> 'h world \<Rightarrow> bool" where
  "same_gate w w' \<longleftrightarrow> (\<forall>p. gate (pvt w' p) = gate (pvt w p) \<and> answers_to p w' = answers_to p w)"

lemma same_gate_refl [simp]: "same_gate w w"
  by (simp add: same_gate_def)

lemma same_gate_trans: "same_gate w w1 \<Longrightarrow> same_gate w1 w2 \<Longrightarrow> same_gate w w2"
  by (simp add: same_gate_def)

lemma same_gate_simps [simp]:
  "(\<And>p. c \<noteq> Answer p) \<Longrightarrow> same_gate w (emit c w') \<longleftrightarrow> same_gate w w'"
  "(\<And>t. gate (h t) = gate t) \<Longrightarrow> same_gate w (upd_pvt p h w') \<longleftrightarrow> same_gate w w'"
  "same_gate w (set_variable p k v w') \<longleftrightarrow> same_gate w w'"
  "same_gate w (upd_server sp g w') \<longleftrightarrow> same_gate w w'"
  "same_gate w (w'\<lparr>w_callsInProgress := n\<rparr>) \<longleftrightarrow> same_gate w w'"
  "same_gate w (w'\<lparr>w_totalCalls := n\<rparr>) \<longleftrightarrow> same_gate w w'"
  by (auto simp: same_gate_def answers_to_def)

lemma gate_simps [simp]:
  "gate (t\<lparr>p_te := n, p_recv_te := m\<rparr>) = gate t" "gate (t\<lparr>p_pSdpBody := b\<rparr>) = gate t"
  "gate (t\<lparr>p_callId := c\<rparr>) = gate t" "gate (t\<lparr>p_senderId := i\<rparr>) = gate t"
  "gate (t\<lparr>p_isTrickleComplete := b'\<rparr>) = gate t"
  "gate (set_pflag f t) = gate t" "gate (clear_pflag f t) = gate t" "gate (add_candidate s t) = gate t"
  by (simp_all add: gate_def set_pflag_def clear_pflag_def add_candidate_def)

definition keeps_gate :: "'h world \<Rightarrow> (switch_status_t \<times> 'h world) cres \<Rightarrow> bool" where
  "keeps_gate w r \<longleftrightarrow> (\<forall>st w'. r = Inr (st, w') \<longrightarrow> same_gate w w')"

lemma keeps_gate_simps [simp]:
  "keeps_gate w (Inl u)" "keeps_gate w (Inr (st, w')) \<longleftrightarrow> same_gate w w'"
  by (simp_all add: keeps_gate_def)

lemma keeps_gate_cbind: "(\<And>v. r = Inr v \<Longrightarrow> keeps_gate w (f v)) \<Longrightarrow> keeps_gate w (cbind r f)"
  by (cases r) simp_all

lemma proceed_keeps_gate: "same_gate w w' \<Longrightarrow> keeps_gate w (proceed e p w')"
  by (auto simp: proceed_def proceed_pre_answer_def Let_def split: option.splits intro!: keeps_gate_cbind)

lemma accepted_keeps_gate: "keeps_gate w (accepted e sid hid sdp w)"
  by (auto simp: accepted_def Let_def split: option.splits
      intro!: keeps_gate_cbind proceed_keeps_gate)

lemma trickle_keeps_gate: "keeps_gate w (trickle e sid hid c w)"
  by (auto simp: trickle_def Let_def split: option.splits intro!: proceed_keeps_gate)

lemma hungup_keeps_gate: "keeps_gate w (hungup e sid hid r w)"
  by (auto simp: hungup_def split: option.splits)

lemma init_keeps_gate: "keeps_gate w (channel_on_init e p w)"
proof -
  have room: "same_gate w0 w2" if "init_room e sp p w1 = Inr (ok, w2)" "same_gate w0 w1" for w0 w1 w2 sp ok
    using that by (auto simp: init_room_def Let_def cbind_Inr_iff split: if_splits)
  have start: "same_gate w1 (init_callId p w1)" for w1
    by (simp add: init_callId_def Let_def)
  have count: "same_gate w1 (count_call sp w2) \<longleftrightarrow> same_gate w1 w2" for w1 w2 sp
    by (simp add: count_call_def Let_def)
  show ?thesis
    unfolding channel_on_init_def Let_def
    by (auto simp: start count split: option.splits prod.splits intro!: keeps_gate_cbind)
      (erule room, simp add: start)+
qed

lemma routing_keeps_gate: "keeps_gate w (channel_on_routing e p w)"
  by (auto simp: channel_on_routing_def Let_def split: option.splits intro!: keeps_gate_cbind)

lemma hangup_keeps_gate: "keeps_gate w (channel_on_hangup e p w)"
proof -
  have count: "same_gate w1 (uncount_call sp w2) \<longleftrightarrow> same_gate w1 w2" for w1 w2 :: "'a world" and sp
    by (simp add: uncount_call_def Let_def)
  show ?thesis
    unfolding channel_on_hangup_def Let_def
    by (auto simp: count split: option.splits intro!: keeps_gate_cbind)
qed

lemma kill_keeps_gate: "keeps_gate w (channel_kill_channel p sig w)"
  by (cases sig) (simp_all add: channel_kill_channel_def)

lemma destroy_keeps_gate: "keeps_gate w (channel_on_destroy e p w)"
  by (simp add: channel_on_destroy_def Let_def)

text \<open>\<open>joined\<close> changes only the gate and its deadline, and answers nothing.\<close>

lemma joined_gate_effect:
  assumes "joined e sid hid rm pt w = Inr (st, w')"
  shows "same_gate w w' \<or> (\<exists>p d. same_gate (upd_pvt p (\<lambda>t. t\<lparr>p_answerGate := True, p_answerDeadline := d\<rparr>) w) w')"
proof (cases "find_session e w sid hid")
  case None
  with assms show ?thesis by (simp add: joined_def)
next
  case (Some a)
  obtain sp p where sp: "find_session e w sid hid = Some (sp, p)" using Some by (cases a) simp
  have acl: "same_gate w1 (fold (\<lambda>a. emit (AddIceAcl p a)) xs w2) \<longleftrightarrow> same_gate w1 w2"
    for w1 w2 :: "'a world" and xs
    by (induction xs arbitrary: w2) simp_all
  have media: "same_gate w1 (joined_media sp p (joined_codec e sp p w2)) \<longleftrightarrow> same_gate w1 w2" for w1 w2
    by (simp add: joined_media_def acl joined_codec_def Let_def split: option.splits)
  have conf: "same_gate w1 w3" if "joined_configure e sp p w2 = Inr (st', w3)" "same_gate w1 w2"
    for w1 w2 w3 st'
    using that by (auto simp: joined_configure_def Let_def cbind_Inr_iff split: if_splits)
  from assms sp obtain w1 where w1: "joined_gate e p w = Inr w1" and rest: "same_gate w1 w'"
    by (auto simp: joined_def Let_def cbind_Inr_iff media split: if_splits)
      (erule meta_mp, erule conf, simp add: media)
  from w1 have "w1 = w \<or> (\<exists>d. w1 = upd_pvt p (\<lambda>t. t\<lparr>p_answerGate := True, p_answerDeadline := d\<rparr>) w)"
    by (auto simp: joined_gate_def Let_def cbind_Inr_iff split: if_splits)
  with rest show ?thesis by auto
qed

section \<open>The module as a transition system\<close>

datatype event =
    EJoined janus_id_t janus_id_t janus_id_t janus_id_t
  | EAccepted janus_id_t janus_id_t cstr
  | ETrickle janus_id_t janus_id_t cstr
  | EAnswered janus_id_t janus_id_t
  | EParticipant janus_id_t janus_id_t cstr bool bool
  | EHungup janus_id_t janus_id_t cstr
  | EInit ptr
  | ERouting ptr
  | EHangup ptr
  | EKill ptr kill_sig
  | ERead ptr
  | EWrite ptr
  | EDestroy ptr

fun handle :: "'h env \<Rightarrow> event \<Rightarrow> 'h step" where
  "handle e (EJoined sid hid rm pt) = joined e sid hid rm pt"
| "handle e (EAccepted sid hid sdp) = accepted e sid hid sdp"
| "handle e (ETrickle sid hid c) = trickle e sid hid c"
| "handle e (EAnswered sid hid) = answered e sid hid"
| "handle e (EParticipant sid hid i self setup) = participant e sid hid i self setup"
| "handle e (EHungup sid hid r) = hungup e sid hid r"
| "handle e (EInit p) = channel_on_init e p"
| "handle e (ERouting p) = channel_on_routing e p"
| "handle e (EHangup p) = channel_on_hangup e p"
| "handle e (EKill p sig) = channel_kill_channel p sig"
| "handle e (ERead p) = channel_read_frame e p"
| "handle e (EWrite p) = channel_write_frame e p"
| "handle e (EDestroy p) = channel_on_destroy e p"

text \<open>
  The steps of the module: a handler runs to its end in some environment, time passes, or the
  core creates a session that has never been answered.
\<close>

inductive step :: "'h world \<Rightarrow> 'h world \<Rightarrow> bool" where
  run: "handle e ev w = Inr (st, w') \<Longrightarrow> step w w'"
| tick: "w_now w \<le> now \<Longrightarrow> step w (w\<lparr>w_now := now\<rparr>)"
| create: "answers_to p w = 0 \<Longrightarrow> \<not> p_answerDone (tech_pvt s) \<Longrightarrow>
    step w (w\<lparr>w_sessions := (w_sessions w)(p := s)\<rparr>)"

inductive_cases step_cases: "step w w'"

lemma answered_cases:
  assumes "answered e sid hid w = Inr (st, w')"
  obtains "w' = w"
  | sp p where "find_session e w sid hid = Some (sp, p)" "\<not> p_answerDone (pvt w p)" "p_answerGate (pvt w p)"
      "\<not> p_remoteReady (pvt w p)" "w' = upd_pvt p (\<lambda>t. t\<lparr>p_answerRequested := True\<rparr>) w"
  | sp p where "find_session e w sid hid = Some (sp, p)" "\<not> p_answerDone (pvt w p)"
      "p_answerGate (pvt w p) \<longrightarrow> p_remoteReady (pvt w p)"
      "same_gate (emit (Answer p) (upd_pvt p (\<lambda>t. t\<lparr>p_answerDone := True\<rparr>) w)) w'"
  using assms by (auto simp: answered_def Let_def split: option.splits if_splits)

lemma gate_eqD:
  assumes "gate t = gate u"
  shows "p_answerGate t = p_answerGate u" "p_remoteReady t = p_remoteReady u"
    "p_answerRequested t = p_answerRequested u" "p_answerDone t = p_answerDone u"
    "p_answerDeadline t = p_answerDeadline u" "p_pParticipantIdStr t = p_pParticipantIdStr u"
  using assms by (simp_all add: gate_def)

lemma same_gateD:
  assumes "same_gate w w'"
  shows "p_answerGate (pvt w' p) = p_answerGate (pvt w p)" "p_remoteReady (pvt w' p) = p_remoteReady (pvt w p)"
    "p_answerRequested (pvt w' p) = p_answerRequested (pvt w p)"
    "p_answerDone (pvt w' p) = p_answerDone (pvt w p)" "answers_to p w' = answers_to p w"
  using assms gate_eqD [of "pvt w' p" "pvt w p"] by (simp_all add: same_gate_def)

lemma answers_to_emit: "answers_to p (emit c w) = answers_to p w + (if c = Answer p then 1 else 0)"
  by (simp add: answers_to_def)

lemma answers_to_upd [simp]: "answers_to p (upd_pvt q h w) = answers_to p w"
  by (simp add: answers_to_def)

text \<open>How one step changes when a session is answered: the relation all gate properties rest on.\<close>

definition released :: "'h env \<Rightarrow> event \<Rightarrow> 'h world \<Rightarrow> ptr \<Rightarrow> bool" where
  "released e ev w p \<longleftrightarrow>
     (\<exists>sid hid i sp. ev = EParticipant sid hid i False True \<and> find_session e w sid hid = Some (sp, p)
        \<and> p_answerGate (pvt w p) \<and> (i = None \<or> i \<noteq> p_pParticipantIdStr (pvt w p)))
     \<or> (ev = ERead p \<and> p_answerGate (pvt w p) \<and> p_answerRequested (pvt w p)
        \<and> p_answerDeadline (pvt w p) \<noteq> 0 \<and> p_answerDeadline (pvt w p) \<le> w_now w)"

definition gate_step :: "'h env \<Rightarrow> event \<Rightarrow> 'h world \<Rightarrow> 'h world \<Rightarrow> ptr \<Rightarrow> bool" where
  "gate_step e ev w w' p \<longleftrightarrow>
     (answers_to p w' = answers_to p w \<and> p_answerDone (pvt w' p) = p_answerDone (pvt w p)
      \<or> answers_to p w' = answers_to p w + 1 \<and> \<not> p_answerDone (pvt w p) \<and> p_answerDone (pvt w' p)
        \<and> (p_answerGate (pvt w p) \<longrightarrow> p_remoteReady (pvt w p) \<or> released e ev w p))
     \<and> (p_remoteReady (pvt w' p) \<longrightarrow> p_remoteReady (pvt w p) \<or> released e ev w p)"

lemma gate_step_same: "same_gate w w' \<Longrightarrow> gate_step e ev w w' p"
  by (simp add: gate_step_def same_gateD)

text \<open>Marking the remote side ready, with good reason, and then asking for the answer.\<close>

lemma gate_step_answered:
  assumes "answered e sid hid w1 = Inr (st, w')"
    and "w1 = w \<or> (w1 = upd_pvt q (\<lambda>t. t\<lparr>p_remoteReady := True\<rparr>) w \<and> released e ev w q)"
  shows "gate_step e ev w w' p"
proof -
  have r: "p_remoteReady (pvt w1 p) \<longrightarrow> p_remoteReady (pvt w p) \<or> released e ev w p"
    and g: "p_answerGate (pvt w1 p) = p_answerGate (pvt w p)" "p_answerDone (pvt w1 p) = p_answerDone (pvt w p)"
      "answers_to p w1 = answers_to p w" for p
    using assms(2) by (auto split: if_splits)
  from assms(1) show ?thesis
  proof (cases rule: answered_cases)
    case 1
    then show ?thesis using r g by (simp add: gate_step_def)
  next
    case (2 sp q')
    then show ?thesis using r g by (simp add: gate_step_def)
  next
    case (3 sp q')
    then show ?thesis
      using r [of p] g [of p] same_gateD [OF 3(4), of p]
      by (auto simp: gate_step_def answers_to_emit)
  qed
qed

lemma participant_gate_step:
  assumes "participant e sid hid i self setup w = Inr (st, w')"
  shows "gate_step e (EParticipant sid hid i self setup) w w' p"
proof (cases "find_session e w sid hid")
  case None
  with assms show ?thesis by (simp add: participant_def gate_step_same)
next
  case (Some a)
  obtain sp q where sp: "find_session e w sid hid = Some (sp, q)" using Some by (cases a) simp
  let ?w1 = "upd_pvt q (\<lambda>t. t\<lparr>p_remoteReady := True\<rparr>) w"
  let ?ev = "EParticipant sid hid i self setup"
  show ?thesis
  proof (cases "\<not> self \<and> p_answerGate (pvt w q) \<and> \<not> p_answerDone (pvt w q)
      \<and> \<not> (i \<noteq> None \<and> p_pParticipantIdStr (pvt w q) = i) \<and> setup")
    case True
    then have rel: "released e ?ev w q" using sp by (auto simp: released_def)
    have "participant e sid hid i self setup w =
        (if p_answerRequested (pvt w q) then answered e sid hid ?w1 else Inr (SWITCH_STATUS_SUCCESS, ?w1))"
      using True sp by (cases i) (simp_all add: participant_def Let_def)
    then consider "w' = ?w1" | "answered e sid hid ?w1 = Inr (st, w')"
      using assms by (simp split: if_splits)
    then show ?thesis
    proof cases
      case 1
      with rel show ?thesis by (simp add: gate_step_def)
    next
      case 2
      with rel show ?thesis by (intro gate_step_answered [where q = q]) auto
    qed
  next
    case False
    then have "w' = w \<or> w' = upd_pvt q (\<lambda>t. t\<lparr>p_pParticipantIdStr := i\<rparr>) w"
      using assms sp by (simp add: participant_def Let_def split: if_splits)
    then show ?thesis by (auto simp: gate_step_def split: if_splits)
  qed
qed

lemma read_gate_step:
  assumes "channel_read_frame e q w = Inr (st, w')"
  shows "gate_step e (ERead q) w w' p"
proof -
  from assms obtain w1 where w1: "read_frame_fallback e q w = Inr w1" and w': "w' = emit (ReadFrame q) w1"
    by (auto simp: channel_read_frame_def cbind_Inr_iff)
  have "gate_step e (ERead q) w w1 p"
  proof (cases "w1 = w")
    case False
    with w1 obtain st' where "answered e (p_serverId (pvt w q)) (p_senderId (pvt w q))
        (upd_pvt q (\<lambda>t. t\<lparr>p_remoteReady := True\<rparr>) w) = Inr (st', w1)" and "released e (ERead q) w q"
      by (auto simp: read_frame_fallback_def Let_def run_cb_def cbind_Inr_iff released_def split: if_splits)
    then show ?thesis by (intro gate_step_answered [where q = q]) auto
  qed (simp add: gate_step_same)
  then show ?thesis
    using same_gateD [of w1 w' p] w' by (simp add: gate_step_def)
qed

lemma handle_gate_step:
  assumes "handle e ev w = Inr (st, w')"
  shows "gate_step e ev w w' p"
proof -
  have keep: "gate_step e ev w w' p" if "keeps_gate w (handle e ev w)"
    using that assms by (auto simp: keeps_gate_def intro: gate_step_same)
  show ?thesis
  proof (cases ev)
    case (EJoined sid hid rm pt)
    with assms have "joined e sid hid rm pt w = Inr (st, w')" by simp
    from joined_gate_effect [OF this] show ?thesis
    proof (elim disjE exE)
      fix q d
      assume "same_gate (upd_pvt q (\<lambda>t. t\<lparr>p_answerGate := True, p_answerDeadline := d\<rparr>) w) w'"
      note this [THEN same_gateD(2), of p] this [THEN same_gateD(4), of p] this [THEN same_gateD(5), of p]
      then show ?thesis by (auto simp: gate_step_def split: if_splits)
    qed (rule gate_step_same)
  next
    case (EAnswered sid hid)
    with assms gate_step_answered [of e sid hid w st w' w] show ?thesis by simp
  next
    case (EParticipant sid hid i self up)
    with assms participant_gate_step show ?thesis by simp
  next
    case (ERead q)
    with assms read_gate_step show ?thesis by simp
  qed (use keep in \<open>auto simp: accepted_keeps_gate trickle_keeps_gate hungup_keeps_gate init_keeps_gate
       routing_keeps_gate hangup_keeps_gate kill_keeps_gate destroy_keeps_gate channel_write_frame_def\<close>)
qed

text \<open>The invariant: a session has been answered once if its flag says so, and not at all otherwise.\<close>

definition answered_inv :: "'h world \<Rightarrow> bool" where
  "answered_inv w \<longleftrightarrow> (\<forall>p. answers_to p w = (if p_answerDone (pvt w p) then 1 else 0))"

lemma step_answered_inv: "step w w' \<Longrightarrow> answered_inv w \<Longrightarrow> answered_inv w'"
proof (induction rule: step.induct)
  case (run e ev w st w')
  show ?case
    unfolding answered_inv_def
  proof
    fix p
    show "answers_to p w' = (if p_answerDone (pvt w' p) then 1 else 0)"
      using handle_gate_step [OF run(1), of p] run(2)
      by (auto simp: gate_step_def answered_inv_def)
  qed
next
  case (create p w s)
  show ?case
    unfolding answered_inv_def
  proof
    fix q
    show "answers_to q (w\<lparr>w_sessions := (w_sessions w)(p := s)\<rparr>) =
        (if p_answerDone (pvt (w\<lparr>w_sessions := (w_sessions w)(p := s)\<rparr>) q) then 1 else 0)"
      using create by (cases "q = p") (simp_all add: answers_to_def answered_inv_def)
  qed
qed (simp add: answered_inv_def answers_to_def)

lemma steps_answered_inv: "step\<^sup>*\<^sup>* w w' \<Longrightarrow> answered_inv w \<Longrightarrow> answered_inv w'"
  by (induction rule: rtranclp_induct) (auto intro: step_answered_inv)

section \<open>Properties of the answer gate\<close>

text \<open>An environment in which every core function succeeds, and a state with one server and one session.\<close>

definition sample_env :: "(string \<times> ptr) list env" where
  "sample_env = \<lparr>e_core = alist_core, e_have_ws = False, e_sign = (\<lambda>_ _ _. None),
     e_net = (\<lambda>_. None), e_txn = (\<lambda>_. ''t1''), e_true = (\<lambda>v. v = Some ''true''),
     e_false = (\<lambda>v. v = Some ''false''), e_choose_ports = (\<lambda>_. SWITCH_STATUS_SUCCESS),
     e_local_sdp = (\<lambda>_. Some ''v=0''), e_negotiate_sdp = (\<lambda>_ _. True),
     e_activate_rtp = (\<lambda>_. SWITCH_STATUS_SUCCESS), e_pre_answer = (\<lambda>_. SWITCH_STATUS_SUCCESS),
     e_answer = (\<lambda>_. SWITCH_STATUS_SUCCESS), e_read_codec_ready = (\<lambda>_. False),
     e_write_codec_ready = (\<lambda>_. False), e_read_frame = (\<lambda>_. SWITCH_STATUS_SUCCESS),
     e_write_frame = (\<lambda>_. SWITCH_STATUS_SUCCESS)\<rparr>"

definition sample_world :: "private_object \<Rightarrow> (string \<times> ptr) list world" where
  "sample_world t = \<lparr>w_serverIdLookup = \<lparr>pMutex = True, pTable = [(''5'', 3)]\<rparr>,
     w_servers = (\<lambda>_. (zero_server [])\<lparr>pUrl := Some ''http://j'', serverId := 5,
        senderIdLookup := \<lparr>pMutex = True, pTable = [(''6'', 2)]\<rparr>\<rparr>),
     w_sessions = (\<lambda>_. \<lparr>tech_pvt = t\<lparr>p_serverId := 5, p_senderId := 6\<rparr>, vars = (\<lambda>_. None),
        partner = None, uuid = ''u'', early = False\<rparr>),
     w_totalCalls = 0, w_callsInProgress = 0, w_now = 100, w_trace = []\<rparr>"

lemma sample_find [simp]: "find_session sample_env (sample_world t) 5 6 = Some (3, 2)"
  by (simp add: find_session_def find_server_def hashFind_def sample_env_def sample_world_def
      alist_core_def idToStr_def nat_str.simps digit_char_literals)

lemma sample_pvt [simp]: "pvt (sample_world t) p = t\<lparr>p_serverId := 5, p_senderId := 6\<rparr>"
  by (simp add: sample_world_def)

text \<open>
  C13: a call is answered at most once. From a state in which nothing has been answered, whatever sequence of events,
  callbacks, media reads and state changes the module goes through, in whatever environment, the core is asked at
  most once to answer a given session, and it has been asked exactly when the flag \<open>answerDone\<close> of the session is set.
\<close>

theorem answered_at_most_once:
  assumes "step\<^sup>*\<^sup>* w w'" and "\<forall>q. answers_to q w = 0 \<and> \<not> p_answerDone (pvt w q)"
  shows "answers_to p w' \<le> 1 \<and> (answers_to p w' = 1 \<longleftrightarrow> p_answerDone (pvt w' p))"
  using steps_answered_inv [OF assms(1)] assms(2) by (simp add: answered_inv_def)

theorem answered_at_most_once_witness:
  "\<exists>w. handle sample_env (EAnswered 5 6) (sample_world zero_private) = Inr (SWITCH_STATUS_SUCCESS, w)
     \<and> answers_to 2 w = 1 \<and> p_answerDone (pvt w 2)"
proof -
  have init: "\<forall>q. answers_to q (sample_world zero_private) = 0 \<and> \<not> p_answerDone (pvt (sample_world zero_private) q)"
    by (simp add: answers_to_def zero_private_def) (simp add: sample_world_def)
  obtain w where w: "handle sample_env (EAnswered 5 6) (sample_world zero_private) = Inr (SWITCH_STATUS_SUCCESS, w)"
    and n: "answers_to 2 w = 1"
    by (simp add: answered_def Let_def zero_private_def answers_to_emit)
      (simp add: sample_env_def answers_to_emit, simp add: answers_to_def sample_world_def)
  have "step\<^sup>*\<^sup>* (sample_world zero_private) w" using step.run [OF w] by blast
  from answered_at_most_once [OF this init, of 2] w n show ?thesis by blast
qed

text \<open>
  C14: the answer gate holds. A step that answers a session finds it not yet answered, marks it
  answered and answers it exactly once; if the session is gated, then a remote participant was ready before, or this
  very step reports, for the server and handle under which this session is registered, a remote participant that
  is set up and is not the session itself, or it is a media read of this session after its deadline. No other step
  makes the remote side of a session ready; a report for another session does not.
\<close>

theorem answer_gate_holds:
  assumes "handle e ev w = Inr (st, w')"
  shows "(answers_to p w' \<noteq> answers_to p w \<longrightarrow>
       answers_to p w' = answers_to p w + 1 \<and> \<not> p_answerDone (pvt w p) \<and> p_answerDone (pvt w' p)
       \<and> (p_answerGate (pvt w p) \<longrightarrow> p_remoteReady (pvt w p) \<or> released e ev w p))
    \<and> (p_remoteReady (pvt w' p) \<and> \<not> p_remoteReady (pvt w p) \<longrightarrow> released e ev w p)"
  using handle_gate_step [OF assms, of p] by (auto simp: gate_step_def)

text \<open>A gated session whose answer was requested: the report of a remote participant gives the answer.\<close>

theorem answer_gate_holds_witness:
  "\<exists>w'. handle sample_env (EParticipant 5 6 (Some ''9'') False True)
        (sample_world (zero_private\<lparr>p_answerGate := True, p_answerRequested := True\<rparr>)) = Inr (SWITCH_STATUS_SUCCESS, w')
     \<and> answers_to 2 w' = 1 \<and> p_answerDone (pvt w' 2)
     \<and> released sample_env (EParticipant 5 6 (Some ''9'') False True)
         (sample_world (zero_private\<lparr>p_answerGate := True, p_answerRequested := True\<rparr>)) 2"
proof -
  let ?w = "sample_world (zero_private\<lparr>p_answerGate := True, p_answerRequested := True\<rparr>)"
  let ?ev = "EParticipant 5 6 (Some ''9'') False True"
  have n: "answers_to 2 ?w = 0" by (simp add: answers_to_def sample_world_def)
  obtain w' where w': "handle sample_env ?ev ?w = Inr (SWITCH_STATUS_SUCCESS, w')" "answers_to 2 w' = 1"
    by (simp add: participant_def answered_def Let_def zero_private_def answers_to_emit)
      (simp add: sample_env_def answers_to_emit n, simp add: answers_to_def sample_world_def)
  from answer_gate_holds [OF w'(1), of 2] w' n show ?thesis by (auto simp: zero_private_def)
qed

text \<open>
  C15: a deferred answer is given. When the answer of a gated session has been requested, the
  report of a remote participant that is set up answers it at once, and so does the first media read
  after the deadline; a report that is not of a set-up remote participant leaves the session waiting.
\<close>

theorem deferred_answer_given:
  assumes "find_session e w (p_serverId (pvt w p)) (p_senderId (pvt w p)) = Some (sp, p)"
    and "p_answerGate (pvt w p)" and "p_answerRequested (pvt w p)" and "\<not> p_answerDone (pvt w p)"
  shows "(i \<noteq> None \<and> i \<noteq> p_pParticipantIdStr (pvt w p) \<longrightarrow>
       (\<exists>st w'. participant e (p_serverId (pvt w p)) (p_senderId (pvt w p)) i False True w = Inr (st, w')
          \<and> answers_to p w' = answers_to p w + 1))
    \<and> (0 < p_answerDeadline (pvt w p) \<and> p_answerDeadline (pvt w p) \<le> w_now w \<longrightarrow>
       (\<exists>st w'. channel_read_frame e p w = Inr (st, w') \<and> answers_to p w' = answers_to p w + 1))
    \<and> participant e (p_serverId (pvt w p)) (p_senderId (pvt w p)) i False False w = Inr (SWITCH_STATUS_SUCCESS, w)"
proof -
  let ?w1 = "upd_pvt p (\<lambda>t. t\<lparr>p_remoteReady := True\<rparr>) w"
  have ans: "\<exists>st w'. answered e (p_serverId (pvt w p)) (p_senderId (pvt w p)) ?w1 = Inr (st, w')
      \<and> answers_to p w' = answers_to p w + 1"
    using assms by (simp add: answered_def Let_def answers_to_emit)
  have part: "participant e (p_serverId (pvt w p)) (p_senderId (pvt w p)) i False True w =
      answered e (p_serverId (pvt w p)) (p_senderId (pvt w p)) ?w1"
    if "i \<noteq> None" "i \<noteq> p_pParticipantIdStr (pvt w p)"
    using that assms by (auto simp: participant_def Let_def)
  have read: "\<exists>st w'. channel_read_frame e p w = Inr (st, w') \<and> answers_to p w' = answers_to p w + 1"
    if "0 < p_answerDeadline (pvt w p)" "p_answerDeadline (pvt w p) \<le> w_now w"
  proof -
    obtain st w' where "answered e (p_serverId (pvt w p)) (p_senderId (pvt w p)) ?w1 = Inr (st, w')"
      and "answers_to p w' = answers_to p w + 1" using ans by blast
    then show ?thesis
      using that assms
      by (simp add: channel_read_frame_def read_frame_fallback_def Let_def run_cb_def answers_to_emit)
  qed
  have wait: "participant e (p_serverId (pvt w p)) (p_senderId (pvt w p)) i False False w =
      Inr (SWITCH_STATUS_SUCCESS, w)"
    using assms by (simp add: participant_def Let_def)
  show ?thesis using ans part read wait by simp
qed

theorem deferred_answer_given_witness:
  "\<exists>st w'. channel_read_frame sample_env 2 (sample_world (zero_private\<lparr>p_answerGate := True,
        p_answerRequested := True, p_answerDeadline := 90\<rparr>)) = Inr (st, w') \<and> answers_to 2 w' = 1"
proof -
  let ?t = "zero_private\<lparr>p_answerGate := True, p_answerRequested := True, p_answerDeadline := 90\<rparr>"
  have "find_session sample_env (sample_world ?t) (p_serverId (pvt (sample_world ?t) 2))
      (p_senderId (pvt (sample_world ?t) 2)) = Some (3, 2)" by simp
  from deferred_answer_given [OF this, of "Some ''9''"] show ?thesis
    by (simp add: zero_private_def) (simp add: sample_world_def answers_to_def)
qed

end
