(* ===== verification/Call_Setup.thy ===== *)
theory Call_Setup
  imports Session
begin

text \<open>
  Properties of setting up and clearing a call over the model of \<open>Session\<close>: the remote
  description is assembled from the SDP answer and the trickled candidates in whatever order they come
  and negotiated once; where its buffer overflows; the call counters and the handle table over a
  call's life; the lifetime of the join token.
\<close>

section \<open>Sequences of events\<close>

primrec run_events :: "'h env \<Rightarrow> event list \<Rightarrow> 'h world \<Rightarrow> 'h world cres" where
  "run_events e [] w = Inr w"
| "run_events e (ev # evs) w = cbind (handle e ev w) (\<lambda>(st, w). run_events e evs w)"

lemma run_events_append:
  "run_events e (xs @ ys) w = cbind (run_events e xs w) (run_events e ys)"
  by (induction xs arbitrary: w) (auto simp: cbind_assoc split: prod.splits intro!: cbind_cong)

lemma upd_pvt_twice: "upd_pvt p f (upd_pvt p g w) = upd_pvt p (\<lambda>t. f (g t)) w"
  by (simp add: upd_pvt_def upd_session_def fun_eq_iff)

definition cand_text :: "string list \<Rightarrow> string" where
  "cand_text cs = concat (map (\<lambda>c. ''a='' @ c @ CRLF) cs)"

definition add_text :: "string \<Rightarrow> private_object \<Rightarrow> private_object" where
  "add_text s t = t\<lparr>p_pSdpCandidates :=
     (if s = [] then p_pSdpCandidates t
      else Some ((case p_pSdpCandidates t of None \<Rightarrow> [] | Some c \<Rightarrow> c) @ s))\<rparr>"

lemma add_candidate_text: "add_candidate c t = add_text (cand_text [c]) t"
  by (simp add: add_candidate_def add_text_def cand_text_def)

lemma cand_text_simps [simp]:
  "cand_text [] = []" "cand_text [c] \<noteq> []"
  "cand_text (cs @ ds) = cand_text cs @ cand_text ds"
  by (simp_all add: cand_text_def)

lemma add_text_append: "add_text b (add_text a t) = add_text (a @ b) t"
  by (simp add: add_text_def split: option.splits)

lemma upd_pvt_id: "(\<And>t. f t = t) \<Longrightarrow> upd_pvt p f w = w"
  by (simp add: upd_pvt_def upd_session_def)

lemma trickle_candidates:
  assumes "find_session e w sid hid = Some (sp, p)" and "\<forall>c \<in> set cs. c \<noteq> []"
  shows "run_events e (map (\<lambda>c. ETrickle sid hid (Some c)) cs) w =
    Inr (upd_pvt p (add_text (cand_text cs)) w)"
  using assms
proof (induction cs arbitrary: w)
  case Nil
  have "add_text [] t = t" for t by (simp add: add_text_def)
  then show ?case by (simp add: upd_pvt_id)
next
  case (Cons c cs)
  then show ?case
    by (simp add: trickle_def add_candidate_text upd_pvt_twice add_text_append)
      (simp add: cand_text_def)
qed
section \<open>Assembling the remote description\<close>

lemma proceed_sdp_eq:
  "proceed_sdp t body = (case p_pSdpCandidates t of
     None \<Rightarrow> Inr (take 4095 body)
   | Some c \<Rightarrow> if length (take 4095 body) + length (take 4095 c) < 4096
               then Inr (take 4095 body @ take 4095 c) else Inl BufferOverflow)"
  by (auto simp: proceed_sdp_def strncat_def Let_def SDP_SIZE_def split: option.splits)

lemma proceed_negotiates:
  assumes "p_pSdpBody (pvt w p) = Some b" and "p_pSdpCandidates (pvt w p) = Some c"
    and "length b + length c < 4096"
  shows "\<exists>st w' tr. proceed e p w = Inr (st, w') \<and> w_trace w' = w_trace w @ NegotiateSdp p (b @ c) # tr
    \<and> (\<forall>q s. NegotiateSdp q s \<notin> set tr)"
proof -
  have "proceed_sdp (pvt w p) b = Inr (b @ c)"
    using assms by (simp add: proceed_sdp_eq)
  then show ?thesis
    using assms(1) by (simp add: proceed_def proceed_pre_answer_def Let_def)
qed

definition described :: "string \<Rightarrow> string list \<Rightarrow> private_object \<Rightarrow> private_object" where
  "described sdp cs t = t\<lparr>p_pSdpBody := Some sdp, p_isTrickleComplete := True,
     p_pSdpCandidates := Some (cand_text (cs @ [''end-of-candidates'']))\<rparr>"

lemma upd_pvt_cong: "f (pvt w p) = g (pvt w p) \<Longrightarrow> upd_pvt p f w = upd_pvt p g w"
  by (simp add: upd_pvt_def upd_session_def)

lemma last_trickle:
  assumes "find_session e w sid hid = Some (sp, p)" and "p_pSdpBody (pvt w p) \<noteq> None"
  shows "run_events e [ETrickle sid hid (Some [])] w =
    run_cb (proceed e p (upd_pvt p (\<lambda>t. add_text (cand_text [''end-of-candidates'']) (t\<lparr>p_isTrickleComplete := True\<rparr>)) w))"
  using assms
  by (simp add: trickle_def Let_def run_cb_def add_candidate_text add_text_def)

lemma sdp_then_candidates:
  assumes "find_session e w sid hid = Some (sp, p)" and "p_pSdpCandidates (pvt w p) = None"
    and "\<not> p_isTrickleComplete (pvt w p)" and "\<forall>c \<in> set (cs1 @ cs2). c \<noteq> []"
    and "strstr_split ''a=candidate:'' sdp = None"
  shows "run_events e (map (\<lambda>c. ETrickle sid hid (Some c)) cs1 @ [EAccepted sid hid (Some sdp)]
      @ map (\<lambda>c. ETrickle sid hid (Some c)) cs2 @ [ETrickle sid hid (Some [])]) w =
    run_cb (proceed e p (upd_pvt p (described sdp (cs1 @ cs2)) w))"
proof -
  let ?w1 = "upd_pvt p (add_text (cand_text cs1)) w"
  let ?w2 = "upd_pvt p (\<lambda>t. t\<lparr>p_pSdpBody := Some sdp\<rparr>) ?w1"
  let ?w3 = "upd_pvt p (add_text (cand_text cs2)) ?w2"
  have acc: "run_events e [EAccepted sid hid (Some sdp)] ?w1 = Inr ?w2"
    using assms(1,3,5) by (simp add: accepted_def Let_def add_text_def)
  have t1: "run_events e (map (\<lambda>c. ETrickle sid hid (Some c)) cs1) w = Inr ?w1"
    by (rule trickle_candidates) (use assms(1,4) in auto)
  have t2: "run_events e (map (\<lambda>c. ETrickle sid hid (Some c)) cs2) ?w2 = Inr ?w3"
    by (rule trickle_candidates) (use assms(1,4) in auto)
  have body: "p_pSdpBody (pvt ?w3 p) \<noteq> None" by (simp add: add_text_def)
  have "find_session e ?w3 sid hid = Some (sp, p)" using assms(1) by simp
  note last = last_trickle [OF this body]
  have fin: "upd_pvt p (\<lambda>t. add_text (cand_text [''end-of-candidates'']) (t\<lparr>p_isTrickleComplete := True\<rparr>)) ?w3
      = upd_pvt p (described sdp (cs1 @ cs2)) w"
    unfolding upd_pvt_twice
    by (rule upd_pvt_cong) (simp add: described_def add_text_def assms(2) split: option.splits)
  show ?thesis
    by (simp only: run_events_append t1 acc t2 cbind_simps last fin)
qed

lemma candidates_then_sdp:
  assumes "find_session e w sid hid = Some (sp, p)" and "p_pSdpCandidates (pvt w p) = None"
    and "p_pSdpBody (pvt w p) = None" and "\<forall>c \<in> set cs. c \<noteq> []"
  shows "run_events e (map (\<lambda>c. ETrickle sid hid (Some c)) cs
      @ [ETrickle sid hid (Some []), EAccepted sid hid (Some sdp)]) w =
    run_cb (proceed e p (upd_pvt p (described sdp cs) w))"
proof -
  let ?w1 = "upd_pvt p (add_text (cand_text cs)) w"
  have t1: "run_events e (map (\<lambda>c. ETrickle sid hid (Some c)) cs) w = Inr ?w1"
    by (rule trickle_candidates) (use assms(1,4) in auto)
  have fin: "upd_pvt p (\<lambda>t. t\<lparr>p_pSdpBody := Some sdp\<rparr>) (upd_pvt p
        (\<lambda>t. add_candidate ''end-of-candidates'' (t\<lparr>p_isTrickleComplete := True\<rparr>)) ?w1)
      = upd_pvt p (described sdp cs) w"
    unfolding upd_pvt_twice
    by (rule upd_pvt_cong)
      (simp add: described_def add_candidate_text add_text_def assms(2) split: option.splits)
  have nobody: "p_pSdpBody (pvt ?w1 p) = None" using assms(3) by (simp add: add_text_def)
  have comp: "p_isTrickleComplete (add_candidate c (t\<lparr>p_isTrickleComplete := True\<rparr>))"
    "p_pSdpBody (add_candidate c (t\<lparr>p_isTrickleComplete := True\<rparr>)) = p_pSdpBody t" for c t
    by (simp_all add: add_candidate_def)
  have "run_events e [ETrickle sid hid (Some []), EAccepted sid hid (Some sdp)] ?w1 =
      run_cb (proceed e p (upd_pvt p (described sdp cs) w))"
    using assms(1) nobody
    by (simp add: trickle_def accepted_def Let_def comp run_cb_def fin [symmetric])
  then show ?thesis by (simp only: run_events_append t1 cbind_simps)
qed

section \<open>Counters and tables over the life of a call\<close>

lemma init_callId_simps [simp]:
  "w_servers (init_callId p w) = w_servers w" "w_serverIdLookup (init_callId p w) = w_serverIdLookup w"
  "w_callsInProgress (init_callId p w) = w_callsInProgress w"
  "w_totalCalls (init_callId p w) = w_totalCalls w"
  "p_serverId (pvt (init_callId p w) q) = p_serverId (pvt w q)"
  "find_server e (init_callId p w) = find_server e w"
  by (simp_all add: init_callId_def Let_def find_server_def fun_eq_iff)

lemma init_room_frame:
  assumes "init_room e sp p w = Inr (ok, w')"
  shows "w_servers w' = w_servers w \<and> w_callsInProgress w' = w_callsInProgress w
    \<and> w_totalCalls w' = w_totalCalls w \<and> w_serverIdLookup w' = w_serverIdLookup w
    \<and> w_sessions w' = w_sessions w"
  using assms by (auto simp: init_room_def Let_def cbind_Inr_iff split: if_splits)

lemma count_call_simps [simp]:
  "callsInProgress (w_servers (count_call sp w) sp) = callsInProgress (w_servers w sp) + 1"
  "totalCalls (w_servers (count_call sp w) sp) = totalCalls (w_servers w sp) + 1"
  "w_callsInProgress (count_call sp w) = w_callsInProgress w + 1"
  "w_totalCalls (count_call sp w) = w_totalCalls w + 1"
  "w_sessions (count_call sp w) = w_sessions w"
  "senderIdLookup (w_servers (count_call sp w) sp) = senderIdLookup (w_servers w sp)"
  "find_server e (count_call sp w) = find_server e w"
  by (simp_all add: count_call_def Let_def serversDynamicRecordActivity_def find_server_def fun_eq_iff)

lemma uncount_call_simps [simp]:
  "callsInProgress (w_servers (uncount_call sp w) sp) =
     (if 0 < callsInProgress (w_servers w sp) then callsInProgress (w_servers w sp) - 1 else 0)"
  "w_callsInProgress (uncount_call sp w) =
     (if 0 < w_callsInProgress w then w_callsInProgress w - 1 else 0)"
  "senderIdLookup (w_servers (uncount_call sp w) sp) = senderIdLookup (w_servers w sp)"
  "w_sessions (uncount_call sp w) = w_sessions w"
  by (simp_all add: uncount_call_def Let_def serversDynamicRecordActivity_def word_gt_0)

text \<open>What a successful and what a failed start of a call leave behind.\<close>

lemma init_success:
  assumes "channel_on_init e p w = Inr (SWITCH_STATUS_SUCCESS, w')"
  obtains sp hid h where "find_server e w (p_serverId (pvt w p)) = Some sp" "hid \<noteq> 0"
    "hashInsert (e_core e) (senderIdLookup (w_servers w sp)) hid p = (SWITCH_STATUS_SUCCESS, h)"
    "senderIdLookup (w_servers w' sp) = h" "p_senderId (pvt w' p) = hid"
    "p_serverId (pvt w' p) = p_serverId (pvt w p)" "w_serverIdLookup w' = w_serverIdLookup w"
    "callsInProgress (w_servers w' sp) = callsInProgress (w_servers w sp) + 1"
    "totalCalls (w_servers w' sp) = totalCalls (w_servers w sp) + 1"
    "w_callsInProgress w' = w_callsInProgress w + 1" "w_totalCalls w' = w_totalCalls w + 1"
proof -
  from assms obtain sp where find: "find_server e w (p_serverId (pvt w p)) = Some sp"
    by (auto simp: channel_on_init_def Let_def split: if_splits option.splits)
  from assms find obtain hid h w1 where hid: "hid \<noteq> 0"
    and ins: "hashInsert (e_core e) (senderIdLookup (w_servers w sp)) hid p = (SWITCH_STATUS_SUCCESS, h)"
    and room: "init_room e sp p (upd_server sp (\<lambda>s. s\<lparr>senderIdLookup := h\<rparr>)
        (upd_pvt p (\<lambda>t. t\<lparr>p_senderId := hid\<rparr>) (emit (SentAttach (p_serverId (pvt w p))) (init_callId p w))))
      = Inr (True, w1)"
    and w': "w' = count_call sp (upd_pvt p (set_pflag TFLAG_IO) w1)"
    by (auto simp: channel_on_init_def Let_def cbind_Inr_iff split: if_splits prod.splits)
  have flag: "p_senderId (set_pflag f t) = p_senderId t" "p_serverId (set_pflag f t) = p_serverId t" for f t
    by (simp_all add: set_pflag_def)
  have lookup: "w_serverIdLookup (count_call sp w2) = w_serverIdLookup w2" for w2
    by (simp add: count_call_def Let_def)
  show ?thesis
    by (rule that [OF find hid ins]) (simp_all add: w' init_room_frame [OF room] flag lookup)
qed

lemma init_failure:
  assumes "channel_on_init e p w = Inr (st, w')" and "st \<noteq> SWITCH_STATUS_SUCCESS"
  shows "callsInProgress (w_servers w' sp) = callsInProgress (w_servers w sp)
    \<and> w_callsInProgress w' = w_callsInProgress w \<and> w_serverIdLookup w' = w_serverIdLookup w
    \<and> p_serverId (pvt w' p) = p_serverId (pvt w p)"
  using assms
  by (auto simp: channel_on_init_def Let_def cbind_Inr_iff split: if_splits option.splits prod.splits
      dest!: init_room_frame)

lemma hangup_effect:
  assumes "channel_on_hangup e p w = Inr (st, w')" and "find_server e w (p_serverId (pvt w p)) = Some sp"
  shows "st = SWITCH_STATUS_SUCCESS
    \<and> callsInProgress (w_servers w' sp) =
       (if 0 < callsInProgress (w_servers w sp) then callsInProgress (w_servers w sp) - 1 else 0)
    \<and> w_callsInProgress w' = (if 0 < w_callsInProgress w then w_callsInProgress w - 1 else 0)
    \<and> senderIdLookup (w_servers w' sp) =
       snd (hashDelete (e_core e) (senderIdLookup (w_servers w sp)) (p_senderId (pvt w p)))"
proof -
  have flag: "p_senderId (clear_pflag f t) = p_senderId t" "p_serverId (clear_pflag f t) = p_serverId t" for f t
    by (simp_all add: clear_pflag_def)
  show ?thesis
    using assms
    by (cases "partner (w_sessions w p)")
      (auto simp: channel_on_hangup_def Let_def cbind_Inr_iff flag)
qed

section \<open>Properties\<close>

text \<open>
  C16: the order in which Janus delivers the SDP answer and the trickled candidates does not matter. For an
  answer without candidates of its own, accepting it before, between or after the candidates leads
  to the same state, the one in which \<open>proceed\<close> is run once with the answer and all candidates;
  when the whole text fits the buffer, the description handed to the core is the answer followed by
  one line per candidate, in order, and the end-of-candidates line, and it is handed over once.
\<close>

theorem sdp_order_independent:
  assumes "find_session e w sid hid = Some (sp, p)" and "p_pSdpCandidates (pvt w p) = None"
    and "p_pSdpBody (pvt w p) = None" and "\<not> p_isTrickleComplete (pvt w p)"
    and "\<forall>c \<in> set (cs1 @ cs2). c \<noteq> []" and "strstr_split ''a=candidate:'' sdp = None"
  shows "run_events e (map (\<lambda>c. ETrickle sid hid (Some c)) cs1 @ [EAccepted sid hid (Some sdp)]
        @ map (\<lambda>c. ETrickle sid hid (Some c)) cs2 @ [ETrickle sid hid (Some [])]) w =
      run_events e (map (\<lambda>c. ETrickle sid hid (Some c)) (cs1 @ cs2)
        @ [ETrickle sid hid (Some []), EAccepted sid hid (Some sdp)]) w
    \<and> (length sdp + length (cand_text (cs1 @ cs2 @ [''end-of-candidates''])) < 4096 \<longrightarrow>
       (\<exists>w' tr. run_events e (map (\<lambda>c. ETrickle sid hid (Some c)) (cs1 @ cs2)
           @ [ETrickle sid hid (Some []), EAccepted sid hid (Some sdp)]) w = Inr w'
          \<and> w_trace w' = w_trace w
              @ NegotiateSdp p (sdp @ cand_text (cs1 @ cs2 @ [''end-of-candidates''])) # tr
          \<and> (\<forall>q s. NegotiateSdp q s \<notin> set tr)))"
proof -
  let ?w = "upd_pvt p (described sdp (cs1 @ cs2)) w"
  have a: "run_events e (map (\<lambda>c. ETrickle sid hid (Some c)) cs1 @ [EAccepted sid hid (Some sdp)]
        @ map (\<lambda>c. ETrickle sid hid (Some c)) cs2 @ [ETrickle sid hid (Some [])]) w = run_cb (proceed e p ?w)"
    by (rule sdp_then_candidates [OF assms(1,2,4,5,6)])
  have b: "run_events e (map (\<lambda>c. ETrickle sid hid (Some c)) (cs1 @ cs2)
        @ [ETrickle sid hid (Some []), EAccepted sid hid (Some sdp)]) w = run_cb (proceed e p ?w)"
    by (rule candidates_then_sdp [OF assms(1,2,3,5)])
  have "\<exists>w' tr. run_cb (proceed e p ?w) = Inr w' \<and> w_trace w' = w_trace w
        @ NegotiateSdp p (sdp @ cand_text (cs1 @ cs2 @ [''end-of-candidates''])) # tr
      \<and> (\<forall>q s. NegotiateSdp q s \<notin> set tr)"
    if "length sdp + length (cand_text (cs1 @ cs2 @ [''end-of-candidates''])) < 4096"
    using proceed_negotiates [of ?w p sdp "cand_text (cs1 @ cs2 @ [''end-of-candidates''])" e] that
    by (force simp: described_def run_cb_def)
  then show ?thesis unfolding a b by blast
qed

theorem sdp_order_independent_witness:
  "\<exists>w' tr. run_events sample_env [ETrickle 5 6 (Some ''x''), ETrickle 5 6 (Some []),
        EAccepted 5 6 (Some ''v=0'')] (sample_world zero_private) = Inr w'
     \<and> w_trace w' = NegotiateSdp 2 (''v=0'' @ cand_text [''x'', ''end-of-candidates'']) # tr"
proof -
  let ?w = "sample_world zero_private"
  have t: "p_pSdpCandidates (pvt ?w 2) = None" "p_pSdpBody (pvt ?w 2) = None"
    "\<not> p_isTrickleComplete (pvt ?w 2)" "w_trace ?w = []"
    by (simp_all add: zero_private_def) (simp add: sample_world_def)
  have s: "strstr_split ''a=candidate:'' ''v=0'' = None" by simp
  from sdp_order_independent [OF sample_find t(1-3) _ s, of "[''x'']" "[]"] t(4) show ?thesis
    by (fastforce simp: cand_text_def CRLF_def)
qed

text \<open>
  C17: where \<open>proceed\<close> overruns its buffer. The bound it passes to the second \<open>strncat\<close> is that
  of the whole array, so for a non-empty answer and non-empty candidates the call is
  undefined exactly when the two together exceed 4095 bytes; otherwise the result is both texts in full.
\<close>

theorem proceed_overflow:
  assumes "p_pSdpCandidates t = Some c" and "body \<noteq> []" and "c \<noteq> []"
  shows "proceed_sdp t body =
    (if length body + length c \<le> 4095 then Inr (body @ c) else Inl BufferOverflow)"
  using assms by (cases body; cases c) (auto simp: proceed_sdp_eq)

theorem proceed_overflow_witness:
  "proceed_sdp (zero_private\<lparr>p_pSdpCandidates := Some (replicate 96 CHR ''c'')\<rparr>) (replicate 4000 CHR ''b'')
     = Inl BufferOverflow"
  by (subst proceed_overflow [where c = "replicate 96 CHR ''c''"]) simp_all

text \<open>
  C18: a call that was set up leaves no trace once it is cleared. A successful \<open>channel_on_init\<close> counts
  the call on its server and globally and enters the session under a handle other than 0;
  \<open>channel_on_hangup\<close> of the resulting state, whatever Janus replies, takes
  the handle out of the table and restores both counters.
\<close>

theorem init_hangup_inverse:
  assumes "core_table (e_core e)" and "channel_on_init e p w = Inr (SWITCH_STATUS_SUCCESS, w1)"
    and "channel_on_hangup e' p w1 = Inr (st, w2)" and "e_core e' = e_core e"
    and "find_server e w (p_serverId (pvt w p)) = Some sp"
    and "callsInProgress (w_servers w sp) \<noteq> - 1" and "w_callsInProgress w \<noteq> - 1"
  shows "p_senderId (pvt w1 p) \<noteq> 0
    \<and> find_session e w1 (p_serverId (pvt w1 p)) (p_senderId (pvt w1 p)) = Some (sp, p)
    \<and> callsInProgress (w_servers w1 sp) = callsInProgress (w_servers w sp) + 1
    \<and> callsInProgress (w_servers w2 sp) = callsInProgress (w_servers w sp)
    \<and> w_callsInProgress w2 = w_callsInProgress w
    \<and> hashFind (e_core e) (senderIdLookup (w_servers w2 sp)) =
       (hashFind (e_core e) (senderIdLookup (w_servers w sp)))(p_senderId (pvt w1 p) := None)"
proof -
  obtain hid h where s: "hid \<noteq> 0" "p_senderId (pvt w1 p) = hid" "p_serverId (pvt w1 p) = p_serverId (pvt w p)"
    "hashInsert (e_core e) (senderIdLookup (w_servers w sp)) hid p = (SWITCH_STATUS_SUCCESS, h)"
    "senderIdLookup (w_servers w1 sp) = h" "w_serverIdLookup w1 = w_serverIdLookup w"
    "callsInProgress (w_servers w1 sp) = callsInProgress (w_servers w sp) + 1"
    "w_callsInProgress w1 = w_callsInProgress w + 1"
    by (rule init_success [OF assms(2)]) (use assms(5) in auto)
  have find: "find_server e w1 (p_serverId (pvt w1 p)) = Some sp"
    using assms(5) s by (simp add: find_server_def)
  then have find': "find_server e' w1 (p_serverId (pvt w1 p)) = Some sp"
    using assms(4) by (simp add: find_server_def)
  have h: "hashFind (e_core e) h = (hashFind (e_core e) (senderIdLookup (w_servers w sp)))(hid \<mapsto> p)"
    by (rule core_table.hashFind_hashInsert [OF assms(1) s(4)])
  have nz: "0 < x + 1 \<and> x + 1 - 1 = x" if "x \<noteq> - 1" for x :: u32
    using that by (metis add_diff_cancel_right' eq_neg_iff_add_eq_0 word_gt_0)
  show ?thesis
    using hangup_effect [OF assms(3) find'] s find h nz [OF assms(6)] nz [OF assms(7)] assms(4)
    by (simp add: find_session_def core_table.hashFind_hashDelete [OF assms(1)])
qed

text \<open>A Janus server that attaches every handle as number 7, and the sample session as an outbound one.\<close>

definition attach_env :: "(string \<times> ptr) list env" where
  "attach_env = sample_env\<lparr>e_net := sample_reply ''success''
     [named ''data'' (push cJSON_CreateObject (num_item ''id'' (u64_to_double 7)))]\<rparr>"

definition outbound_world :: "string \<Rightarrow> (string \<times> ptr) list world" where
  "outbound_world existing = (let w = sample_world (zero_private\<lparr>p_flags := TFLAG_OUTBOUND\<rparr>) in
     set_variable 2 ''janus-use-existing-room'' (Some existing) w)"

lemma outbound_simps [simp]:
  "find_server attach_env (outbound_world x) 5 = Some 3"
  "w_servers (outbound_world x) = w_servers (sample_world zero_private)"
  "pvt (outbound_world x) p = zero_private\<lparr>p_flags := TFLAG_OUTBOUND, p_serverId := 5, p_senderId := 6\<rparr>"
  "partner (w_sessions (outbound_world x) p) = None" "w_callsInProgress (outbound_world x) = 0"
  "var (outbound_world x) 2 ''janus-use-existing-room'' = Some x"
  "var (outbound_world x) p ''sip_call_id'' = None" "uuid (w_sessions (outbound_world x) p) = ''u''"
  by (simp_all add: outbound_world_def Let_def set_variable_def find_server_def attach_env_def sample_env_def
      hashFind_def alist_core_def idToStr_def nat_str.simps digit_char_literals sample_world_def
      upd_session_def)

lemma attach_sender:
  "apiGetSenderId (e_have_ws attach_env) (e_sign attach_env) (e_net attach_env) (e_txn attach_env 0)
     (w_servers (sample_world t) 3) 5 c = Inr 7"
proof -
  have d: "double_to_u64 (u64_to_double 7) = Inr 7" by (rule double_u64_exact) simp
  have o: "cJSON_IsObject (Some (named ''data'' (push cJSON_CreateObject (num_item ''id'' (u64_to_double 7)))))"
    by (simp add: cJSON_Is cJSON_types named_def cJSON_CreateObject_def num_item_def)
  show ?thesis
    by (simp add: apiGetSenderId_plenty api_eval attach_env_def sample_env_def sample_world_def nat_str.simps d o)
qed

lemma no_network [simp]: "api_send_request hw (\<lambda>_. None) srv req txn sid hid k = None"
  by (simp add: api_send_request_with_def split: option.splits)

lemma silent_requests:
  assumes "pUrl srv = Some u" and "pHmacSecret srv = None"
  shows "apiLeave hw sign (\<lambda>_. None) txn srv sid hid c = Inr SWITCH_STATUS_FALSE"
    and "apiDetach hw sign (\<lambda>_. None) txn srv sid hid = Inr SWITCH_STATUS_SUCCESS"
  using assms
  by (simp_all add: apiLeave_plenty apiDetach_plenty encode_eq encodable_def ack_status_def)

lemma hangup_silent:
  assumes "e_net e = (\<lambda>_. None)" and "find_server e w (p_serverId (pvt w p)) = Some sp"
    and "pUrl (w_servers w sp) = Some u" and "pHmacSecret (w_servers w sp) = None"
  shows "\<exists>w'. channel_on_hangup e p w = Inr (SWITCH_STATUS_SUCCESS, w')"
proof -
  have flag: "p_serverId (clear_pflag f t) = p_serverId t" for f t by (simp add: clear_pflag_def)
  show ?thesis
    using assms
    by (cases "partner (w_sessions w p)")
      (simp_all add: channel_on_hangup_def Let_def flag silent_requests)
qed

lemma sample_server_fields [simp]:
  "pUrl (w_servers (sample_world t) sp) = Some ''http://j''"
  "pHmacSecret (w_servers (sample_world t) sp) = None"
  "callsInProgress (w_servers (sample_world t) sp) = 0"
  by (simp_all add: sample_world_def zero_server_def)

lemma init_sample:
  "\<exists>w1. channel_on_init attach_env 2 (outbound_world ''true'') = Inr (SWITCH_STATUS_SUCCESS, w1)
     \<and> w_serverIdLookup w1 = w_serverIdLookup (outbound_world ''true'')
     \<and> p_serverId (pvt w1 2) = 5 \<and> pUrl (w_servers w1 3) = Some ''http://j''
     \<and> pHmacSecret (w_servers w1 3) = None"
proof -
  have out: "test_pflag (zero_private\<lparr>p_flags := TFLAG_OUTBOUND, p_serverId := 5, p_senderId := 6, p_callId := c\<rparr>)
      TFLAG_OUTBOUND" for c
    by (simp add: test_pflag_def TFLAG_OUTBOUND_def)
  have "e_core attach_env = alist_core" "\<not> e_false attach_env (Some ''true'')"
    by (simp_all add: attach_env_def sample_env_def)
  then show ?thesis
    by (simp add: channel_on_init_def Let_def attach_sender out init_callId_def init_room_def hashInsert_def
        count_call_def serversDynamicRecordActivity_def set_pflag_def)
qed

theorem init_hangup_inverse_witness:
  "\<exists>w1 w2. channel_on_init attach_env 2 (outbound_world ''true'') = Inr (SWITCH_STATUS_SUCCESS, w1)
     \<and> channel_on_hangup sample_env 2 w1 = Inr (SWITCH_STATUS_SUCCESS, w2)
     \<and> callsInProgress (w_servers w1 3) = 1 \<and> callsInProgress (w_servers w2 3) = 0"
proof -
  obtain w1 where w1: "channel_on_init attach_env 2 (outbound_world ''true'') = Inr (SWITCH_STATUS_SUCCESS, w1)"
    and l: "w_serverIdLookup w1 = w_serverIdLookup (outbound_world ''true'')" "p_serverId (pvt w1 2) = 5"
      "pUrl (w_servers w1 3) = Some ''http://j''" "pHmacSecret (w_servers w1 3) = None"
    using init_sample by blast
  have core: "e_core sample_env = alist_core" "e_core attach_env = alist_core" "e_net sample_env = (\<lambda>_. None)"
    by (simp_all add: attach_env_def sample_env_def)
  have find: "find_server attach_env (outbound_world ''true'') (p_serverId (pvt (outbound_world ''true'') 2)) = Some 3"
    by simp
  then have "find_server sample_env w1 (p_serverId (pvt w1 2)) = Some 3"
    using l(1,2) by (simp add: find_server_def core)
  from hangup_silent [OF core(3) this l(3,4)] obtain w2 where
    w2: "channel_on_hangup sample_env 2 w1 = Inr (SWITCH_STATUS_SUCCESS, w2)" by blast
  have tab: "core_table (e_core attach_env)" by (simp only: core alist.core_table_axioms)
  have "e_core sample_env = e_core attach_env" by (simp add: core)
  from init_hangup_inverse [OF tab w1 w2 this find] w1 w2 show ?thesis by auto
qed

text \<open>
  A call that failed to start is discounted all the same. \<open>channel_on_init\<close> counts a call only at its end,
  but \<open>channel_on_hangup\<close>, which the core runs for every channel, always decrements: when the start
  failed (no handle, no room) and the server is still known, a server with other calls ends up
  with one call too few.
\<close>

theorem failed_init_undercounts:
  assumes "channel_on_init e p w = Inr (st, w1)" and "st \<noteq> SWITCH_STATUS_SUCCESS"
    and "channel_on_hangup e' p w1 = Inr (st', w2)" and "e_core e' = e_core e"
    and "find_server e w (p_serverId (pvt w p)) = Some sp" and "0 < callsInProgress (w_servers w sp)"
  shows "callsInProgress (w_servers w1 sp) = callsInProgress (w_servers w sp)
    \<and> callsInProgress (w_servers w2 sp) = callsInProgress (w_servers w sp) - 1"
proof -
  note f = init_failure [OF assms(1,2), of sp]
  then have "find_server e' w1 (p_serverId (pvt w1 p)) = Some sp"
    using assms(4,5) by (simp add: find_server_def)
  from hangup_effect [OF assms(3) this] f assms(6) show ?thesis by simp
qed

theorem failed_init_undercounts_witness:
  "\<exists>w w1 w2. channel_on_init sample_env 2 w = Inr (SWITCH_STATUS_FALSE, w1)
     \<and> channel_on_hangup sample_env 2 w1 = Inr (SWITCH_STATUS_SUCCESS, w2)
     \<and> callsInProgress (w_servers w 3) = 1 \<and> callsInProgress (w_servers w2 3) = 0"
proof -
  let ?w = "upd_server 3 (\<lambda>s. s\<lparr>callsInProgress := 1\<rparr>) (outbound_world ''true'')"
  have core: "e_core sample_env = e_core attach_env" "e_net sample_env = (\<lambda>_. None)"
    by (simp_all add: attach_env_def sample_env_def)
  have find: "find_server sample_env ?w (p_serverId (pvt ?w 2)) = Some 3"
    using outbound_simps(1) [of "''true''"] by (simp add: find_server_def core(1))
  have out: "test_pflag (zero_private\<lparr>p_flags := TFLAG_OUTBOUND, p_serverId := 5, p_senderId := 6, p_callId := c\<rparr>)
      TFLAG_OUTBOUND" for c
    by (simp add: test_pflag_def TFLAG_OUTBOUND_def)
  have attach: "apiGetSenderId hw sign (\<lambda>_. None) txn (w_servers (sample_world t) 3\<lparr>callsInProgress := n\<rparr>) sid c = Inr 0"
    for hw sign txn t n sid c
    by (simp add: apiGetSenderId_plenty encode_eq encodable_def)
  have "\<exists>w1. channel_on_init sample_env 2 ?w = Inr (SWITCH_STATUS_FALSE, w1)
      \<and> w_serverIdLookup w1 = w_serverIdLookup ?w \<and> p_serverId (pvt w1 2) = 5
      \<and> pUrl (w_servers w1 3) = Some ''http://j'' \<and> pHmacSecret (w_servers w1 3) = None"
    using find by (simp add: channel_on_init_def Let_def init_callId_def out core(2) attach)
  then obtain w1 where w1: "channel_on_init sample_env 2 ?w = Inr (SWITCH_STATUS_FALSE, w1)"
    and l: "w_serverIdLookup w1 = w_serverIdLookup ?w" "p_serverId (pvt w1 2) = 5"
      "pUrl (w_servers w1 3) = Some ''http://j''" "pHmacSecret (w_servers w1 3) = None" by blast
  have "find_server sample_env w1 (p_serverId (pvt w1 2)) = Some 3"
    using find l by (simp add: find_server_def)
  from hangup_silent [OF core(2) this l(3,4)] obtain w2 where
    w2: "channel_on_hangup sample_env 2 w1 = Inr (SWITCH_STATUS_SUCCESS, w2)" by blast
  from failed_init_undercounts [OF w1 _ w2 refl find] w1 w2 show ?thesis
    by (intro exI [of _ ?w] exI [of _ w1] exI [of _ w2]) simp
qed

text \<open>
  The lifetime of a call's token. For a signing server it is what the channel variable asks for if that is
  between one second and a day, a day for anything longer, and two hours when the variable is missing,
  empty, zero, negative or not a number; it is always between one second and a day.
\<close>

theorem routing_ttl_spec:
  assumes "pHmacSecret (w_servers w sp) \<noteq> None"
  shows "(routing_ttl w sp p = Inr ttl \<longrightarrow> 1 \<le> ttl \<and> ttl \<le> 86400)
    \<and> (zstr (var w p ''janus-hmac-token-ttl'') \<longrightarrow> routing_ttl w sp p = Inr 7200)
    \<and> (var w p ''janus-hmac-token-ttl'' = Some v \<and> v \<noteq> [] \<and> atoi v = Inr n \<longrightarrow>
        routing_ttl w sp p = Inr (if n \<le> 0 then 7200 else min n 86400))"
  using assms
  by (auto simp: routing_ttl_def Let_def cbind_Inr_iff API_HMAC_DEFAULT_CALL_TTL_def min_def
      split: if_splits)

theorem routing_ttl_spec_witness:
  "routing_ttl (set_variable 2 ''janus-hmac-token-ttl'' (Some ''100000'')
      (upd_server 3 (\<lambda>s. s\<lparr>pHmacSecret := Some ''k''\<rparr>) (sample_world zero_private))) 3 2 = Inr 86400"
proof -
  let ?w = "set_variable 2 ''janus-hmac-token-ttl'' (Some ''100000'')
      (upd_server 3 (\<lambda>s. s\<lparr>pHmacSecret := Some ''k''\<rparr>) (sample_world zero_private))"
  have n: "atoi ''100000'' = Inr 100000"
    by (simp add: atoi_def int_prefix_digits is_digit_def digits_val_def digit_val_def)
  have "pHmacSecret (w_servers ?w 3) \<noteq> None" "var ?w 2 ''janus-hmac-token-ttl'' = Some ''100000''"
    by (simp_all add: set_variable_def)
  with routing_ttl_spec [of ?w 3 2 86400 "''100000''" 100000] n show ?thesis by simp
qed

end
