(* ===== verification/Servers.thy ===== *)
theory Servers
  imports Session
begin

text \<open>
  \<open>servers.c\<close>: the configured servers, and the registry that keeps dynamic servers in step with the
  pods behind a headless service. The state is a record \<open>registry\<close> around the module's \<open>world\<close>: the name
  table \<open>pServerNameLookup\<close> (a core table over the parameter \<open>C\<close>), the defaults for dynamic
  servers, the configuration values of \<open>globals_t\<close> and the next pointer of the allocator.
  The network and the resolver are parameters, and so are the two thread functions
  \<open>start_server_thread\<close> and \<open>stop_server_thread\<close>, which are function pointers in the code.
\<close>

section \<open>State\<close>

definition REGISTRY_MAX_ENDPOINTS :: nat where "REGISTRY_MAX_ENDPOINTS = 64"
definition SERVER_VERIFY_TTL_US :: int where "SERVER_VERIFY_TTL_US = 5 * 1000000"
definition INET_ADDRSTRLEN :: nat where "INET_ADDRSTRLEN = 16"

record 'h registry =
  r_world :: "'h world"
  r_names :: 'h
  r_pod_defaults :: "'h server_t option"
  r_guess_ip :: string
  r_headless_service_url :: cstr
  r_registry_refresh_sec :: u32
  r_pod_server_fail_max :: u32
  r_registry_thread :: bool
  r_registry_terminating :: bool
  r_next :: ptr

abbreviation srv :: "'h registry \<Rightarrow> ptr \<Rightarrow> 'h server_t" where
  "srv R p \<equiv> w_servers (r_world R) p"

definition upd_srv :: "ptr \<Rightarrow> ('h server_t \<Rightarrow> 'h server_t) \<Rightarrow> 'h registry \<Rightarrow> 'h registry" where
  "upd_srv p f R = R\<lparr>r_world := upd_server p f (r_world R)\<rparr>"

definition serversFind :: "'h core_hash \<Rightarrow> 'h registry \<Rightarrow> string \<Rightarrow> ptr option" where
  "serversFind C R n = core_hash_find C (r_names R) n"

text \<open>All pointers \<open>serversIterate\<close> delivers, in its order.\<close>

definition serversIterate ::
  "'h core_hash \<Rightarrow> 'h registry \<Rightarrow> hash_index option \<Rightarrow> ptr option \<times> hash_index option" where
  "serversIterate C R ix = hashIterate C \<lparr>pMutex = True, pTable = r_names R\<rparr> ix"

definition all_servers :: "'h core_hash \<Rightarrow> 'h registry \<Rightarrow> ptr list" where
  "all_servers C R = map snd (core_hash_entries C (r_names R))"

section \<open>Configured servers\<close>

definition serverCloneDefaults :: "'h server_t \<Rightarrow> 'h server_t \<Rightarrow> 'h server_t" where
  "serverCloneDefaults dst src =
     (let d = dst\<lparr>codec_string := codec_string src, local_network := local_network src,
                  extrtpip := extrtpip src, rtpip := rtpip src, rtpip6 := rtpip6 src,
                  pSecret := pSecret src, pAuthToken := pAuthToken src,
                  pHmacSecret := pHmacSecret src, cand_acl := cand_acl src\<rparr>
      in if test_flag src SFLAG_AUTO_NAT then set_flag SFLAG_AUTO_NAT d else d)"

definition serversCaptureDefaults :: "'h core_hash \<Rightarrow> ptr \<Rightarrow> 'h registry \<Rightarrow> 'h registry" where
  "serversCaptureDefaults C p R =
     (let d = (case r_pod_defaults R of None \<Rightarrow> zero_server (snd (core_hash_init C)) | Some d \<Rightarrow> d)
      in R\<lparr>r_pod_defaults := Some (serverCloneDefaults d (srv R p))\<rparr>)"

datatype family = AF_UNSPEC | AF_INET | AF_INET6

record net_env =
  n_find_interface_ip :: "string \<Rightarrow> family \<Rightarrow> cstr"
  n_true :: "string \<Rightarrow> bool"
  n_max_cand_acl :: nat
  n_have_ws :: bool

definition ext_rtp_ip :: "string \<Rightarrow> string \<Rightarrow> 'h server_t \<Rightarrow> 'h server_t" where
  "ext_rtp_ip guess_ip v s =
     (let (ip, s) =
        (if v = ''0.0.0.0'' then (Some guess_ip, s)
         else if strcasecmp_eq v ''auto-nat'' then (None, s)
         else (Some (if strcasecmp_eq v ''auto'' then guess_ip else v), clear_flag SFLAG_AUTO_NAT s))
      in case ip of
           None \<Rightarrow> s
         | Some i \<Rightarrow>
             if strncasecmp_eq 8 i ''autonat:''
             then set_flag SFLAG_AUTO_NAT (s\<lparr>extrtpip := Some (drop 8 i)\<rparr>)
             else s\<lparr>extrtpip := Some i\<rparr>)"

definition skip_prefix :: "string \<Rightarrow> family \<Rightarrow> string \<times> family \<Rightarrow> string \<times> family" where
  "skip_prefix pre f x = (if strncasecmp_eq 5 (fst x) pre then (drop 5 (fst x), f) else x)"

definition rtp_ip :: "net_env \<Rightarrow> string \<Rightarrow> string \<Rightarrow> 'h server_t \<Rightarrow> 'h server_t" where
  "rtp_ip n guess_ip v s =
     (let ip =
        (if v = [] then guess_ip
         else if v = ''0.0.0.0'' then guess_ip
         else if strncasecmp_eq 10 v ''interface:'' then
           (case skip_prefix ''ipv6/'' AF_INET6 (skip_prefix ''ipv4/'' AF_INET
                   (skip_prefix ''auto/'' AF_UNSPEC (drop 10 v, AF_UNSPEC))) of
              (ifname, fam) \<Rightarrow>
                (case n_find_interface_ip n ifname fam of
                   None \<Rightarrow> guess_ip | Some b \<Rightarrow> snprintf_text 64 b))
         else if strcasecmp_eq v ''auto'' then guess_ip else v)
      in if CHR '':'' \<in> set ip then s\<lparr>rtpip6 := Some ip\<rparr> else s\<lparr>rtpip := Some ip\<rparr>)"

definition apply_param :: "net_env \<Rightarrow> string \<Rightarrow> string \<times> string \<Rightarrow> 'h server_t \<Rightarrow> 'h server_t" where
  "apply_param n guess_ip kv s =
     (let (k, v) = kv in
      if k = ''url'' \<and> k \<noteq> [] then s\<lparr>pUrl := Some v\<rparr>
      else if k = ''secret'' \<and> v \<noteq> [] then s\<lparr>pSecret := Some v\<rparr>
      else if k = ''auth-token'' \<and> v \<noteq> [] then s\<lparr>pAuthToken := Some v\<rparr>
      else if k = ''hmac-secret'' \<and> v \<noteq> [] then s\<lparr>pHmacSecret := Some v\<rparr>
      else if k = ''local-network-acl'' \<and> v \<noteq> [] then
        (if strcasecmp_eq v ''none'' then s else s\<lparr>local_network := Some v\<rparr>)
      else if k = ''ext-rtp-ip'' \<and> v \<noteq> [] then ext_rtp_ip guess_ip v s
      else if k = ''rtp-ip'' then rtp_ip n guess_ip v s
      else if strcasecmp_eq k ''apply-candidate-acl'' \<and> v \<noteq> [] then
        (if strcasecmp_eq v ''none'' then s\<lparr>cand_acl := []\<rparr>
         else if length (cand_acl s) < n_max_cand_acl n then s\<lparr>cand_acl := cand_acl s @ [v]\<rparr>
         else s)
      else if strcasecmp_eq k ''codec-string'' \<and> v \<noteq> [] then s\<lparr>codec_string := Some v\<rparr>
      else if k = ''enabled'' \<and> v \<noteq> [] then
        (if n_true n v then set_flag SFLAG_ENABLED s else s)
      else s)"

definition is_ws_url :: "string \<Rightarrow> bool" where
  "is_ws_url u \<longleftrightarrow> strncasecmp_eq 5 u ''ws://'' \<or> strncasecmp_eq 6 u ''wss://''"

definition serversAdd ::
  "'h core_hash \<Rightarrow> net_env \<Rightarrow> string \<Rightarrow> (string \<times> string) list \<Rightarrow> 'h registry \<Rightarrow> switch_status_t \<times> 'h registry" where
  "serversAdd C n pName params R =
     (if serversFind C R pName \<noteq> None then (SWITCH_STATUS_FALSE, R)
      else let p = r_next R;
               s = (zero_server (snd (core_hash_init C)))
                     \<lparr>name := Some pName, codec_string := Some ''opus'', local_network := Some ''localnet.auto''\<rparr>;
               s = fold (apply_param n (r_guess_ip R)) params s;
               R = upd_srv p (\<lambda>_. s) (R\<lparr>r_next := Suc p\<rparr>)
           in case pUrl s of
                None \<Rightarrow> (SWITCH_STATUS_FALSE, R)
              | Some u \<Rightarrow>
                  if is_ws_url u \<and> \<not> n_have_ws n then (SWITCH_STATUS_FALSE, R)
                  else let tp = (if is_ws_url u then JANUS_TP_WS else JANUS_TP_HTTP);
                           R = upd_srv p (\<lambda>s. s\<lparr>transport := tp\<rparr>) R;
                           R = R\<lparr>r_names := snd (core_hash_insert C (r_names R) pName p)\<rparr>
                       in (SWITCH_STATUS_SUCCESS,
                           if r_pod_defaults R = None then serversCaptureDefaults C p R else R))"

section \<open>Pod names and URLs\<close>

definition pod_char :: "char \<Rightarrow> bool" where
  "pod_char c \<longleftrightarrow> (let n = of_char c :: nat in
     (97 \<le> n \<and> n \<le> 122) \<or> (48 \<le> n \<and> n \<le> 57) \<or> c = CHR ''-'')"

fun pod_chars_ok :: "string \<Rightarrow> bool" where
  "pod_chars_ok [] = True"
| "pod_chars_ok (c # cs) = (if \<not> pod_char c then False else pod_chars_ok cs)"

definition serversPodNameValid :: "cstr \<Rightarrow> bool" where
  "serversPodNameValid pod_name =
     (case pod_name of
        None \<Rightarrow> False
      | Some s \<Rightarrow>
          if s = [] then False
          else if length s > 63 then False
          else if \<not> pod_chars_ok s then False
          else \<not> (s ! 0 = CHR ''-'' \<or> s ! (length s - 1) = CHR ''-''))"

definition url_scheme :: "string \<Rightarrow> (string \<times> string) option" where
  "url_scheme url =
     (if strncmp_eq 7 url ''http://'' then Some (drop 7 url, ''80'')
      else if strncmp_eq 8 url ''https://'' then Some (drop 8 url, ''443'')
      else None)"

definition serversParseHttpUrlParts ::
  "string \<Rightarrow> nat \<Rightarrow> nat \<Rightarrow> nat \<Rightarrow> (string \<times> string \<times> string) option" where
  "serversParseHttpUrlParts url host_size port_size path_size =
     (if url = [] \<or> host_size = 0 then None
      else case url_scheme url of
        None \<Rightarrow> None
      | Some (p, default_port) \<Rightarrow>
          let host = takeWhile (\<lambda>c. c \<noteq> CHR '':'' \<and> c \<noteq> CHR ''/'') p;
              rest = drop (length host) p in
          if length host \<ge> host_size then None
          else (case rest of
                  [] \<Rightarrow> Some (host, snprintf_text port_size default_port, [])
                | c # cs \<Rightarrow>
                    if c = CHR '':'' then
                      (let port = takeWhile (\<lambda>c. c \<noteq> CHR ''/'') cs in
                       if length port \<ge> port_size then None
                       else Some (host, port, snprintf_text path_size (drop (length port) cs)))
                    else Some (host, snprintf_text port_size default_port, snprintf_text path_size rest)))"

definition serversBuildJanusUrl :: "string \<Rightarrow> string \<Rightarrow> string \<Rightarrow> string" where
  "serversBuildJanusUrl ip port path =
     snprintf_text 512 (''http://'' @ ip @ '':'' @ port @ (if path = [] then ''/janus'' else path))"

definition info_url :: "string \<Rightarrow> string \<Rightarrow> string \<Rightarrow> string" where
  "info_url ip port path = snprintf_text 512
     (''http://'' @ ip @ '':'' @ port @ (if path = [] then ''/janus'' else path) @ ''/info'')"

definition serversProbeJanusPodAtIp ::
  "(wire \<Rightarrow> cjson option) \<Rightarrow> string \<Rightarrow> string \<Rightarrow> string \<Rightarrow> nat \<Rightarrow> cstr" where
  "serversProbeJanusPodAtIp net ip port path pod_name_size =
     (case net (HttpGet (info_url ip port path) 2000) of
        None \<Rightarrow> None
      | Some json \<Rightarrow>
          let server_name = getcs (Some json) ''server-name'' in
          if cJSON_IsString server_name \<and> valuestring (the server_name) \<noteq> None
             \<and> serversPodNameValid (valuestring (the server_name))
          then Some (snprintf_text pod_name_size (the (valuestring (the server_name))))
          else None)"
section \<open>The registry of dynamic servers\<close>

type_synonym 'h thread_fn = "(ptr \<Rightarrow> 'h registry \<Rightarrow> 'h registry) option"

definition call_thread_fn :: "'h thread_fn \<Rightarrow> ptr \<Rightarrow> 'h registry \<Rightarrow> 'h registry" where
  "call_thread_fn f p R = (case f of None \<Rightarrow> R | Some g \<Rightarrow> g p R)"

record registry_endpoint_t =
  ep_pod_name :: string
  ep_pod_ip :: string
  ep_url :: string

definition serversCreateRegistryServer ::
  "'h core_hash \<Rightarrow> 'h thread_fn \<Rightarrow> string \<Rightarrow> string \<Rightarrow> string \<Rightarrow> 'h registry \<Rightarrow> 'h registry" where
  "serversCreateRegistryServer C start pod_name ip url R =
     (let p = r_next R;
          s = (zero_server (snd (core_hash_init C)))
                \<lparr>last_activity := w_now (r_world R), name := Some pod_name, pUrl := Some url, pod_ip := Some ip\<rparr>;
          s = serverCloneDefaults s (the (r_pod_defaults R));
          s = set_flag SFLAG_DYNAMIC (set_flag SFLAG_ENABLED s);
          R = upd_srv p (\<lambda>_. s) (R\<lparr>r_next := Suc p\<rparr>);
          R = R\<lparr>r_names := snd (core_hash_insert C (r_names R) pod_name p)\<rparr>
      in call_thread_fn start p R)"

definition update_server :: "int \<Rightarrow> string \<Rightarrow> string \<Rightarrow> 'h server_t \<Rightarrow> 'h server_t" where
  "update_server now ip url s =
     (let s = (if ip \<noteq> [] \<and> pod_ip s \<noteq> Some ip then s\<lparr>pod_ip := Some ip\<rparr> else s);
          s = (if url \<noteq> [] \<and> pUrl s \<noteq> Some url then s\<lparr>pUrl := Some url, last_verified := 0\<rparr> else s)
      in s\<lparr>last_activity := now, connect_failures := 0\<rparr>)"

definition serversUpdateRegistryServer :: "ptr \<Rightarrow> string \<Rightarrow> string \<Rightarrow> 'h registry \<Rightarrow> 'h registry" where
  "serversUpdateRegistryServer p ip url R = upd_srv p (update_server (w_now (r_world R)) ip url) R"

definition serversVerifyDynamicIdentity ::
  "(wire \<Rightarrow> cjson option) \<Rightarrow> ptr \<Rightarrow> 'h registry \<Rightarrow> bool \<times> 'h registry" where
  "serversVerifyDynamicIdentity net p R =
     (let s = srv R p; now = w_now (r_world R) in
      if \<not> test_flag s SFLAG_DYNAMIC then (True, R)
      else let url = snprintf_text 512 (case pUrl s of None \<Rightarrow> [] | Some u \<Rightarrow> u);
               ip = snprintf_text INET_ADDRSTRLEN (case pod_ip s of None \<Rightarrow> [] | Some i \<Rightarrow> i) in
      if last_verified s \<noteq> 0 \<and> now - last_verified s < SERVER_VERIFY_TTL_US then (True, R)
      else if ip = [] then (False, R)
      else case serversParseHttpUrlParts url 256 16 128 of
        None \<Rightarrow> (False, R)
      | Some (host, port, path) \<Rightarrow>
          let path = (if path = [] then ''/janus'' else path) in
          (case serversProbeJanusPodAtIp net ip port path 64 of
             None \<Rightarrow> (False, R)
           | Some pod_name \<Rightarrow>
               if Some pod_name = name s
               then (True, upd_srv p (\<lambda>s. s\<lparr>last_verified := now, last_activity := now, connect_failures := 0\<rparr>) R)
               else (False, R)))"

text \<open>
  The loop over the addresses of the service. An entry is \<open>None\<close> when its family is not \<open>AF_INET\<close>
  or its address has no text; \<open>acc\<close> is the filled part of the array \<open>endpoints\<close>.
\<close>

fun collect_endpoints ::
  "(wire \<Rightarrow> cjson option) \<Rightarrow> string \<Rightarrow> string \<Rightarrow> registry_endpoint_t list \<Rightarrow> cstr list \<Rightarrow> registry_endpoint_t list" where
  "collect_endpoints net port path acc [] = acc"
| "collect_endpoints net port path acc (rp # rps) =
     (if length acc \<ge> REGISTRY_MAX_ENDPOINTS then acc
      else case rp of
        None \<Rightarrow> collect_endpoints net port path acc rps
      | Some ip \<Rightarrow>
          (case serversProbeJanusPodAtIp net ip port path 64 of
             None \<Rightarrow> collect_endpoints net port path acc rps
           | Some pod_name \<Rightarrow>
               if list_ex (\<lambda>e. ep_pod_name e = pod_name) acc
               then collect_endpoints net port path acc rps
               else collect_endpoints net port path
                      (acc @ [\<lparr>ep_pod_name = snprintf_text 64 pod_name,
                               ep_pod_ip = snprintf_text INET_ADDRSTRLEN ip,
                               ep_url = serversBuildJanusUrl ip port path\<rparr>]) rps))"

definition apply_endpoint ::
  "'h core_hash \<Rightarrow> 'h thread_fn \<Rightarrow> registry_endpoint_t \<Rightarrow> 'h registry \<Rightarrow> 'h registry" where
  "apply_endpoint C start ep R =
     (case serversFind C R (ep_pod_name ep) of
        None \<Rightarrow> serversCreateRegistryServer C start (ep_pod_name ep) (ep_pod_ip ep) (ep_url ep) R
      | Some p \<Rightarrow>
          if test_flag (srv R p) SFLAG_DYNAMIC then
            (let R = serversUpdateRegistryServer p (ep_pod_ip ep) (ep_url ep) R in
             if \<not> test_flag (srv R p) SFLAG_ENABLED then call_thread_fn start p R else R)
          else R)"

definition must_evict :: "string list \<Rightarrow> 'h server_t \<Rightarrow> bool" where
  "must_evict seen s \<longleftrightarrow>
     test_flag s SFLAG_DYNAMIC \<and> (case name s of None \<Rightarrow> True | Some n \<Rightarrow> n \<notin> set seen)
     \<and> \<not> callsInProgress s > 0"

definition serversDynamicRemoveFromLookup :: "'h core_hash \<Rightarrow> ptr \<Rightarrow> 'h registry \<Rightarrow> 'h registry" where
  "serversDynamicRemoveFromLookup C p R =
     (if \<not> test_flag (srv R p) SFLAG_DYNAMIC then R
      else case name (srv R p) of
        None \<Rightarrow> R
      | Some n \<Rightarrow>
          if core_hash_find C (r_names R) n = None then R
          else let sid = serverId (srv R p);
                   R = upd_srv p (\<lambda>s. s\<lparr>serverId := 0\<rparr>) R;
                   w = r_world R;
                   R = (if sid \<noteq> 0
                        then R\<lparr>r_world := w\<lparr>w_serverIdLookup := snd (hashDelete C (w_serverIdLookup w) sid)\<rparr>\<rparr>
                        else R);
                   R = R\<lparr>r_names := snd (core_hash_delete C (r_names R) n)\<rparr>
               in upd_srv p (clear_flag SFLAG_ENABLED) R)"

definition evict_server :: "'h core_hash \<Rightarrow> 'h thread_fn \<Rightarrow> ptr \<Rightarrow> 'h registry \<Rightarrow> 'h registry" where
  "evict_server C stop p R =
     (let R = upd_srv p (set_flag SFLAG_EVICTED) R in
      case stop of None \<Rightarrow> serversDynamicRemoveFromLookup C p R | Some g \<Rightarrow> g p R)"

definition serversRegistryRefresh ::
  "'h core_hash \<Rightarrow> (wire \<Rightarrow> cjson option) \<Rightarrow> (string \<Rightarrow> cstr list option) \<Rightarrow> 'h thread_fn \<Rightarrow> 'h thread_fn \<Rightarrow>
   'h registry \<Rightarrow> switch_status_t \<times> 'h registry" where
  "serversRegistryRefresh C net resolve start stop R =
     (if zstr (r_headless_service_url R) \<or> r_pod_defaults R = None then (SWITCH_STATUS_FALSE, R)
      else case serversParseHttpUrlParts (the (r_headless_service_url R)) 256 16 128 of
        None \<Rightarrow> (SWITCH_STATUS_FALSE, R)
      | Some (headless_host, port, path) \<Rightarrow>
          let path = (if path = [] then ''/janus'' else path) in
          (case resolve headless_host of
             None \<Rightarrow> (SWITCH_STATUS_FALSE, R)
           | Some addrs \<Rightarrow>
               let endpoints = collect_endpoints net port path [] addrs;
                   R = fold (apply_endpoint C start) endpoints R;
                   evict_list = take REGISTRY_MAX_ENDPOINTS
                     (filter (\<lambda>p. must_evict (map ep_pod_name endpoints) (srv R p)) (all_servers C R))
               in (SWITCH_STATUS_SUCCESS, fold (evict_server C stop) evict_list R)))"

definition registry_refresh_usec :: "'h registry \<Rightarrow> u32" where
  "registry_refresh_usec R =
     (if r_registry_refresh_sec R \<noteq> 0 then r_registry_refresh_sec R else 30) * 1000000"

text \<open>
  The registry thread: a refresh, then one per period. The flag \<open>registry_terminating\<close> belongs to
  another thread; the list holds its values at the successive tests, two per period.
\<close>

fun registry_loop :: "(bool \<times> bool) list \<Rightarrow> ('h registry \<Rightarrow> switch_status_t \<times> 'h registry) \<Rightarrow> 'h registry \<Rightarrow> 'h registry" where
  "registry_loop [] refresh R = R"
| "registry_loop ((t1, t2) # ts) refresh R =
     (if t1 then R
      else if t2 \<or> zstr (r_headless_service_url R) then R
      else registry_loop ts refresh (snd (refresh R)))"

definition servers_registry_run ::
  "(bool \<times> bool) list \<Rightarrow> ('h registry \<Rightarrow> switch_status_t \<times> 'h registry) \<Rightarrow> 'h registry \<Rightarrow> 'h registry" where
  "servers_registry_run ts refresh R = registry_loop ts refresh (snd (refresh R))"

definition serversStartRegistry :: "'h registry \<Rightarrow> 'h registry" where
  "serversStartRegistry R =
     (if r_registry_thread R \<or> zstr (r_headless_service_url R) then R
      else R\<lparr>r_registry_terminating := False, r_registry_thread := True\<rparr>)"

definition serversStopRegistry :: "'h registry \<Rightarrow> 'h registry" where
  "serversStopRegistry R =
     (if \<not> r_registry_thread R then R
      else R\<lparr>r_registry_terminating := True, r_registry_thread := False\<rparr>)"

definition serversDynamicEvictable :: "'h registry \<Rightarrow> ptr \<Rightarrow> bool" where
  "serversDynamicEvictable R p =
     (let s = srv R p in
      if \<not> test_flag s SFLAG_DYNAMIC then False
      else if callsInProgress s > 0 then False
      else r_pod_server_fail_max R \<noteq> 0 \<and> connect_failures s \<ge> r_pod_server_fail_max R \<and> serverId s = 0)"

section \<open>Listing\<close>

definition serversList :: "'h core_hash \<Rightarrow> 'h registry \<Rightarrow> cstr list" where
  "serversList C R = map (\<lambda>p. name (srv R p)) (all_servers C R)"

definition summary_line :: "'h server_t \<Rightarrow> string" where
  "summary_line s =
     (let b = (\<lambda>x. if x then ''true'' else ''false''); t = (\<lambda>c. case c of None \<Rightarrow> [] | Some x \<Rightarrow> x) in
      snprintf_text 512
        ((case name s of None \<Rightarrow> ''(null)'' | Some x \<Rightarrow> x) @ ''|''
         @ b (test_flag s SFLAG_ENABLED) @ ''|'' @ b (test_flag s SFLAG_DYNAMIC) @ ''|''
         @ t (pod_ip s) @ ''|'' @ t (pUrl s) @ ''|''
         @ nat_str (unat (totalCalls s)) @ ''|'' @ nat_str (unat (callsInProgress s)) @ ''|''
         @ int_str (started s) @ ''|'' @ nat_str (unat (serverId s)) @ [CHR 0x0A]))"

definition serversSummary :: "'h core_hash \<Rightarrow> 'h registry \<Rightarrow> string list" where
  "serversSummary C R =
     (''name|enabled|registry|pod_ip|url|totalCalls|callsInProgress|started|id'' @ [CHR 0x0A])
     # map (\<lambda>p. summary_line (srv R p)) (all_servers C R)"

definition serversDestroy :: "'h core_hash \<Rightarrow> 'h registry \<Rightarrow> switch_status_t \<times> 'h registry" where
  "serversDestroy C R = (let (st, t) = core_hash_destroy C (r_names R) in (st, R\<lparr>r_names := t\<rparr>))"

section \<open>Facts on the registry operations\<close>

lemma registry_simps [simp]:
  "r_names (upd_srv p f R) = r_names R" "r_next (upd_srv p f R) = r_next R"
  "r_pod_defaults (upd_srv p f R) = r_pod_defaults R" "w_now (r_world (upd_srv p f R)) = w_now (r_world R)"
  "srv (upd_srv p f R) q = (if q = p then f (srv R p) else srv R q)"
  by (simp_all add: upd_srv_def)

lemma flag_simps [simp]:
  "pUrl (set_flag f s) = pUrl s" "pUrl (clear_flag f s) = pUrl s"
  "name (set_flag f s) = name s" "name (clear_flag f s) = name s"
  "callsInProgress (set_flag f s) = callsInProgress s" "callsInProgress (clear_flag f s) = callsInProgress s"
  by (simp_all add: set_flag_def clear_flag_def)

lemma param_frame [simp]:
  "pUrl (ext_rtp_ip g v s) = pUrl s" "name (ext_rtp_ip g v s) = name s"
  "pUrl (rtp_ip n g v s) = pUrl s" "name (rtp_ip n g v s) = name s"
  by (simp_all add: ext_rtp_ip_def rtp_ip_def Let_def)

lemma apply_param_url: "pUrl (apply_param n g kv s) = (if fst kv = ''url'' then Some (snd kv) else pUrl s)"
  by (cases kv) (simp add: apply_param_def)

lemma apply_param_name: "name (apply_param n g kv s) = name s"
  by (cases kv) (simp add: apply_param_def)

lemma apply_params_url:
  "pUrl (fold (apply_param n g) params s) =
     (case map_of (rev params) ''url'' of None \<Rightarrow> pUrl s | Some u \<Rightarrow> Some u)"
  by (induction params arbitrary: s)
    (auto simp: apply_param_url map_add_def split: option.splits)

lemma apply_params_name: "name (fold (apply_param n g) params s) = name s"
  by (induction params arbitrary: s) (auto simp: apply_param_name)

lemma capture_simps [simp]:
  "r_names (serversCaptureDefaults C p R) = r_names R" "r_world (serversCaptureDefaults C p R) = r_world R"
  by (simp_all add: serversCaptureDefaults_def Let_def)

lemma pod_chars_ok_iff: "pod_chars_ok s \<longleftrightarrow> (\<forall>c \<in> set s. pod_char c)"
  by (induction s) auto

lemma pod_name_valid_iff:
  "serversPodNameValid (Some s) \<longleftrightarrow>
     s \<noteq> [] \<and> length s \<le> 63 \<and> (\<forall>c \<in> set s. pod_char c) \<and> hd s \<noteq> CHR ''-'' \<and> last s \<noteq> CHR ''-''"
  by (cases "s = []") (auto simp: serversPodNameValid_def pod_chars_ok_iff hd_conv_nth last_conv_nth)

text \<open>A probe returns the reported name unchanged: a valid name fits the buffer.\<close>

lemma probe_name:
  assumes "serversProbeJanusPodAtIp net ip port path 64 = Some n"
  shows "serversPodNameValid (Some n)
    \<and> (\<exists>json. net (HttpGet (info_url ip port path) 2000) = Some json \<and> jstr json ''server-name'' = Some n)"
proof -
  from assms obtain json where j: "net (HttpGet (info_url ip port path) 2000) = Some json"
    by (auto simp: serversProbeJanusPodAtIp_def split: option.splits)
  obtain item where item: "find_cs ''server-name'' (child json) = Some item"
    using assms j by (cases "find_cs ''server-name'' (child json)") (simp_all add: serversProbeJanusPodAtIp_def)
  then obtain s where s: "cJSON_IsString (Some item)" "valuestring item = Some s"
    "serversPodNameValid (Some s)" "n = snprintf_text 64 s"
    using assms j by (auto simp: serversProbeJanusPodAtIp_def Let_def split: if_splits)
  then have "n = s" by (simp add: pod_name_valid_iff snprintf_text_fits)
  with j item s show ?thesis by (auto simp: jstr_def)
qed

lemma takeWhile_stop:
  "\<forall>c \<in> set a. P c \<Longrightarrow> \<not> P x \<Longrightarrow> takeWhile P (a @ x # b) = a"
  by (induction a) auto

section \<open>Properties\<close>

text \<open>
  C19: adding a configured server. It succeeds exactly when the name is new, some \<open>url\<close> parameter is given
  and a WebSocket URL meets a build with WebSocket support; the server is then found under its name,
  with the URL of the last such parameter and the transport its scheme asks for, and every other name and
  server is as before. A failure leaves every lookup as it was.
\<close>

theorem serversAdd_spec:
  assumes "core_table C" and "fst (core_hash_insert C (r_names R) n (r_next R)) = SWITCH_STATUS_SUCCESS"
    and "serversAdd C ne n params R = (st, R')"
  shows "(st = SWITCH_STATUS_SUCCESS \<longleftrightarrow>
        serversFind C R n = None \<and> (\<exists>u. map_of (rev params) ''url'' = Some u \<and> (is_ws_url u \<longrightarrow> n_have_ws ne)))
    \<and> (st = SWITCH_STATUS_SUCCESS \<longrightarrow>
        serversFind C R' m = (if m = n then Some (r_next R) else serversFind C R m)
        \<and> name (srv R' (r_next R)) = Some n \<and> pUrl (srv R' (r_next R)) = map_of (rev params) ''url''
        \<and> (transport (srv R' (r_next R)) = JANUS_TP_WS \<longleftrightarrow> is_ws_url (the (map_of (rev params) ''url'')))
        \<and> (p \<noteq> r_next R \<longrightarrow> srv R' p = srv R p))
    \<and> (st \<noteq> SWITCH_STATUS_SUCCESS \<longrightarrow> serversFind C R' m = serversFind C R m)"
proof -
  obtain t where ins: "core_hash_insert C (r_names R) n (r_next R) = (SWITCH_STATUS_SUCCESS, t)"
    using assms(2) by (cases "core_hash_insert C (r_names R) n (r_next R)") simp
  have t: "core_hash_find C t m = (if m = n then Some (r_next R) else core_hash_find C (r_names R) m)" for m
    by (rule core_table.insert_success [OF assms(1) ins])
  show ?thesis
  proof (cases "serversFind C R n = None")
    case False
    with assms(3) show ?thesis by (auto simp: serversAdd_def)
  next
    case True
    let ?u = "map_of (rev params) ''url''"
    show ?thesis
    proof (cases ?u)
      case None
      with True assms(3) show ?thesis
        by (auto simp: serversAdd_def Let_def apply_params_url zero_server_def serversFind_def)
    next
      case (Some u)
      with True assms(3) ins t show ?thesis
        by (auto simp: serversAdd_def Let_def apply_params_url apply_params_name zero_server_def
            serversFind_def split: if_splits)
    qed
  qed
qed

text \<open>A registry without servers, and an environment for reading the configuration.\<close>

definition sample_registry :: "(string \<times> ptr) list registry" where
  "sample_registry = \<lparr>r_world = sample_world zero_private, r_names = [], r_pod_defaults = None,
     r_guess_ip = ''10.0.0.1'', r_headless_service_url = None, r_registry_refresh_sec = 0,
     r_pod_server_fail_max = 0, r_registry_thread = False, r_registry_terminating = False, r_next = 10\<rparr>"

definition sample_net :: net_env where
  "sample_net = \<lparr>n_find_interface_ip = (\<lambda>_ _. None), n_true = (\<lambda>v. v = ''true''), n_max_cand_acl = 25,
     n_have_ws = False\<rparr>"

theorem serversAdd_spec_witness:
  "serversFind alist_core (snd (serversAdd alist_core sample_net ''demo''
      [(''url'', ''http://j''), (''enabled'', ''true'')] sample_registry)) ''demo'' = Some 10"
proof -
  let ?r = "serversAdd alist_core sample_net ''demo'' [(''url'', ''http://j''), (''enabled'', ''true'')] sample_registry"
  have ins: "fst (core_hash_insert alist_core (r_names sample_registry) ''demo'' (r_next sample_registry)) =
      SWITCH_STATUS_SUCCESS" by simp
  have eq: "?r = (fst ?r, snd ?r)" by simp
  have ws: "\<not> is_ws_url ''http://j''"
    by (simp add: is_ws_url_def strncasecmp_eq_def c_tolower_def Let_def)
  have new: "serversFind alist_core sample_registry ''demo'' = None"
    by (simp add: serversFind_def sample_registry_def)
  show ?thesis
    using serversAdd_spec [OF alist.core_table_axioms ins eq, of "''demo''" 0] ws new
    by (simp add: sample_registry_def)
qed

text \<open>
  The URL built for a pod can be taken apart again. For an address and a port that fit their
  buffers and a path that is empty or begins with a slash, parsing the built URL gives back the address, the
  port and the path, \<open>/janus\<close> when it was empty; nothing is cut.
\<close>

theorem build_parse_url:
  assumes "CHR '':'' \<notin> set ip" "CHR ''/'' \<notin> set ip" "CHR ''/'' \<notin> set port"
    and "length ip < 256" "length port < 16" "length path < 128"
    and "path = [] \<or> hd path = CHR ''/''"
  shows "serversParseHttpUrlParts (serversBuildJanusUrl ip port path) 256 16 128 =
    Some (ip, port, if path = [] then ''/janus'' else path)"
proof -
  define pa where "pa = (if path = [] then ''/janus'' else path)"
  obtain q where q: "pa = CHR ''/'' # q" "length pa < 128"
    using assms(6,7) by (cases path) (auto simp: pa_def)
  have url: "serversBuildJanusUrl ip port path = ''http://'' @ ip @ '':'' @ port @ pa"
    unfolding serversBuildJanusUrl_def pa_def [symmetric]
    by (rule snprintf_text_fits) (use assms(4,5) q(2) in simp)
  have sch: "url_scheme (''http://'' @ x) = Some (x, ''80'')" for x
    by (simp add: url_scheme_def strncmp_eq_def)
  have host: "takeWhile (\<lambda>c. c \<noteq> CHR '':'' \<and> c \<noteq> CHR ''/'') (ip @ '':'' @ port @ pa) = ip"
    using takeWhile_stop [of ip "\<lambda>c. c \<noteq> CHR '':'' \<and> c \<noteq> CHR ''/''" "CHR '':''" "port @ pa"] assms(1,2)
    by (simp, metis)
  have pt: "takeWhile (\<lambda>c. c \<noteq> CHR ''/'') (port @ pa) = port"
    using takeWhile_stop [of port "\<lambda>c. c \<noteq> CHR ''/''" "CHR ''/''" q] assms(3) q(1) by (simp, metis)
  have "serversParseHttpUrlParts (''http://'' @ ip @ '':'' @ port @ pa) 256 16 128 = Some (ip, port, pa)"
    unfolding serversParseHttpUrlParts_def sch
    using assms(4,5) q(2) pt host by (simp add: Let_def snprintf_text_fits)
  then show ?thesis unfolding url pa_def .
qed

theorem build_parse_url_witness:
  "serversParseHttpUrlParts (serversBuildJanusUrl ''10.0.0.7'' ''8088'' []) 256 16 128 =
     Some (''10.0.0.7'', ''8088'', ''/janus'')"
  using build_parse_url [of "''10.0.0.7''" "''8088''" "[]"] by simp

text \<open>What it means that the identity of a server is established, in terms of what the network answers.\<close>

definition identity_checked :: "(wire \<Rightarrow> cjson option) \<Rightarrow> 'h registry \<Rightarrow> ptr \<Rightarrow> bool" where
  "identity_checked net R p \<longleftrightarrow>
     \<not> test_flag (srv R p) SFLAG_DYNAMIC
     \<or> (last_verified (srv R p) \<noteq> 0 \<and> w_now (r_world R) - last_verified (srv R p) < 5000000)
     \<or> (\<exists>port path json i. pod_ip (srv R p) = Some i
          \<and> net (HttpGet (info_url (take 15 i) port path) 2000) = Some json
          \<and> jstr json ''server-name'' = name (srv R p))"

lemma verify_identity_cases:
  assumes "serversVerifyDynamicIdentity net p R = (ok, R')"
  obtains (refused) "\<not> ok" "R' = R"
  | (configured) "ok" "\<not> test_flag (srv R p) SFLAG_DYNAMIC" "R' = R"
  | (recent) "ok" "last_verified (srv R p) \<noteq> 0" "w_now (r_world R) - last_verified (srv R p) < 5000000" "R' = R"
  | (probed) port path json i where "ok" "pod_ip (srv R p) = Some i"
      "net (HttpGet (info_url (take 15 i) port path) 2000) = Some json"
      "jstr json ''server-name'' = name (srv R p)"
      "R' = upd_srv p (\<lambda>s. s\<lparr>last_verified := w_now (r_world R),
                      last_activity := w_now (r_world R), connect_failures := 0\<rparr>) R"
proof (cases "ok \<and> test_flag (srv R p) SFLAG_DYNAMIC
      \<and> \<not> (last_verified (srv R p) \<noteq> 0 \<and> w_now (r_world R) - last_verified (srv R p) < 5000000)")
  case True
  let ?ip = "snprintf_text INET_ADDRSTRLEN (case pod_ip (srv R p) of None \<Rightarrow> [] | Some i \<Rightarrow> i)"
  from True obtain host port path where parse: "serversParseHttpUrlParts
      (snprintf_text 512 (case pUrl (srv R p) of None \<Rightarrow> [] | Some u \<Rightarrow> u)) 256 16 128 = Some (host, port, path)"
    and ne: "?ip \<noteq> []"
    using assms by (auto simp: serversVerifyDynamicIdentity_def Let_def SERVER_VERIFY_TTL_US_def
        split: if_splits option.splits)
  from ne obtain i where i: "pod_ip (srv R p) = Some i" "?ip = take 15 i"
    by (auto simp: snprintf_text_def INET_ADDRSTRLEN_def split: option.splits)
  let ?path = "if path = [] then ''/janus'' else path"
  have "serversVerifyDynamicIdentity net p R =
      (case serversProbeJanusPodAtIp net ?ip port ?path 64 of
           None \<Rightarrow> (False, R)
         | Some pod_name \<Rightarrow>
             if Some pod_name = name (srv R p)
             then (True, upd_srv p (\<lambda>s. s\<lparr>last_verified := w_now (r_world R),
                    last_activity := w_now (r_world R), connect_failures := 0\<rparr>) R)
             else (False, R))"
    using True ne parse by (simp only: serversVerifyDynamicIdentity_def Let_def SERVER_VERIFY_TTL_US_def) auto
  then obtain n where n: "serversProbeJanusPodAtIp net (take 15 i) port ?path 64 = Some n" "Some n = name (srv R p)"
    and R': "R' = upd_srv p (\<lambda>s. s\<lparr>last_verified := w_now (r_world R),
                    last_activity := w_now (r_world R), connect_failures := 0\<rparr>) R"
    using assms True unfolding i(2)
    by (cases "serversProbeJanusPodAtIp net (take 15 i) port ?path 64")
      (simp_all only: option.case prod.inject split: if_splits, auto)
  from probe_name [OF n(1)] n(2) i(1) R' True show ?thesis by (metis probed)
next
  case False
  then show ?thesis
    using assms refused configured recent
    by (auto simp: serversVerifyDynamicIdentity_def Let_def SERVER_VERIFY_TTL_US_def
        split: if_splits option.splits)
qed

lemma verify_identity_checked:
  assumes "serversVerifyDynamicIdentity net p R = (True, R')"
  shows "identity_checked net R p"
  using assms by (cases rule: verify_identity_cases) (auto simp: identity_checked_def)

text \<open>
  C20: the identity check before dialling. It trusts a server only if the server is a configured one, was
  verified less than five seconds ago, or a request to its own address just now returned its
  own name; in the last case the check is recorded. A failed check leaves the registry unchanged.
\<close>

theorem verify_identity_sound:
  assumes "serversVerifyDynamicIdentity net p R = (ok, R')"
  shows "(ok \<longrightarrow> \<not> test_flag (srv R p) SFLAG_DYNAMIC
      \<or> (last_verified (srv R p) \<noteq> 0 \<and> w_now (r_world R) - last_verified (srv R p) < 5000000)
      \<or> (\<exists>port path json i. pod_ip (srv R p) = Some i
           \<and> net (HttpGet (info_url (take 15 i) port path) 2000) = Some json
           \<and> jstr json ''server-name'' = name (srv R p) \<and> last_verified (srv R' p) = w_now (r_world R)))
    \<and> (\<not> ok \<longrightarrow> R' = R)"
  using assms
proof (cases rule: verify_identity_cases)
  case (probed port path json i)
  then have "last_verified (srv R' p) = w_now (r_world R)" by simp
  with probed(1-4) show ?thesis by blast
qed auto

theorem verify_identity_sound_witness:
  "serversVerifyDynamicIdentity (\<lambda>_. None) 0
      (upd_srv 0 (\<lambda>s. set_flag SFLAG_DYNAMIC (s\<lparr>pod_ip := Some ''10.0.0.7'', pUrl := Some ''http://10.0.0.7:8088/janus''\<rparr>))
        sample_registry) =
   (False, upd_srv 0 (\<lambda>s. set_flag SFLAG_DYNAMIC (s\<lparr>pod_ip := Some ''10.0.0.7'', pUrl := Some ''http://10.0.0.7:8088/janus''\<rparr>))
        sample_registry)"
proof -
  let ?R = "upd_srv 0 (\<lambda>s. set_flag SFLAG_DYNAMIC
      (s\<lparr>pod_ip := Some ''10.0.0.7'', pUrl := Some ''http://10.0.0.7:8088/janus''\<rparr>)) sample_registry"
  have eq: "serversVerifyDynamicIdentity (\<lambda>_. None) 0 ?R =
      (fst (serversVerifyDynamicIdentity (\<lambda>_. None) 0 ?R), snd (serversVerifyDynamicIdentity (\<lambda>_. None) 0 ?R))"
    by simp
  have dyn: "test_flag (srv ?R 0) SFLAG_DYNAMIC" by (simp add: test_set_flag)
  have "last_verified (srv ?R 0) = 0"
    by (simp add: set_flag_def sample_registry_def sample_world_def zero_server_def)
  with verify_identity_sound [OF eq] dyn have "\<not> fst (serversVerifyDynamicIdentity (\<lambda>_. None) 0 ?R)" by auto
  with verify_identity_sound [OF eq] have "snd (serversVerifyDynamicIdentity (\<lambda>_. None) 0 ?R) = ?R" by simp
  with \<open>\<not> fst (serversVerifyDynamicIdentity (\<lambda>_. None) 0 ?R)\<close> show ?thesis
    by (cases "serversVerifyDynamicIdentity (\<lambda>_. None) 0 ?R") auto
qed

text \<open>
  The refresh period wraps. It is computed in 32-bit arithmetic; it is the configured number of seconds, 30 by
  default, up to 4294 seconds, and from 4295 seconds on it is shorter than that; 4295
  seconds become 32704 microseconds.
\<close>

theorem refresh_period:
  "(r_registry_refresh_sec R = 0 \<longrightarrow> unat (registry_refresh_usec R) = 30 * 10 ^ 6)
   \<and> (0 < r_registry_refresh_sec R \<and> unat (r_registry_refresh_sec R) \<le> 4294 \<longrightarrow>
        unat (registry_refresh_usec R) = unat (r_registry_refresh_sec R) * 10 ^ 6)
   \<and> (4294 < unat (r_registry_refresh_sec R) \<longrightarrow>
        unat (registry_refresh_usec R) < unat (r_registry_refresh_sec R) * 10 ^ 6)
   \<and> (r_registry_refresh_sec R = 4295 \<longrightarrow> registry_refresh_usec R = 32704)"
proof -
  let ?s = "r_registry_refresh_sec R"
  have mod: "unat (?s * 1000000) = (unat ?s * 1000000) mod 2 ^ 32"
    by (simp add: unat_word_ariths)
  show ?thesis
  proof (intro conjI impI)
    assume "0 < ?s \<and> unat ?s \<le> 4294"
    then show "unat (registry_refresh_usec R) = unat ?s * 10 ^ 6"
      using mod by (auto simp: registry_refresh_usec_def)
  next
    assume big: "4294 < unat ?s"
    then have "?s \<noteq> 0" by auto
    moreover have "(unat ?s * 1000000) mod 2 ^ 32 < 2 ^ 32" by simp
    ultimately show "unat (registry_refresh_usec R) < unat ?s * 10 ^ 6"
      using mod big by (simp add: registry_refresh_usec_def)
  qed (simp_all add: registry_refresh_usec_def)
qed

theorem refresh_period_witness:
  "registry_refresh_usec (sample_registry\<lparr>r_registry_refresh_sec := 4295\<rparr>) = 32704"
  using refresh_period [of "sample_registry\<lparr>r_registry_refresh_sec := 4295\<rparr>"] by simp

end
