(* ===== verification/Registry.thy ===== *)
theory Registry
  imports Servers
begin

text \<open>
  What a refresh of the registry guarantees, stated against the contract of the two thread functions it
  calls. The contract is the locale \<open>thread_control\<close>; the functions of \<open>mod_janus.c\<close> are shown to meet
  it in \<open>Server_Thread\<close>.
\<close>

section \<open>The contract of the thread functions\<close>

text \<open>What of a server its users rely on and no thread function may change.\<close>

definition kept :: "'h server_t \<Rightarrow> 'h server_t \<Rightarrow> bool" where
  "kept s s' \<longleftrightarrow> name s' = name s \<and> test_flag s' SFLAG_DYNAMIC = test_flag s SFLAG_DYNAMIC
     \<and> callsInProgress s' = callsInProgress s \<and> pUrl s' = pUrl s"

lemma kept_refl [simp]: "kept s s"
  by (simp add: kept_def)

lemma kept_trans: "kept s s1 \<Longrightarrow> kept s1 s2 \<Longrightarrow> kept s s2"
  by (simp add: kept_def)

definition kept_calls :: "'h server_t \<Rightarrow> 'h server_t \<Rightarrow> bool" where
  "kept_calls s s' \<longleftrightarrow> name s' = name s \<and> test_flag s' SFLAG_DYNAMIC = test_flag s SFLAG_DYNAMIC
     \<and> callsInProgress s' = callsInProgress s"

lemma kept_calls_trans: "kept_calls s s1 \<Longrightarrow> kept_calls s1 s2 \<Longrightarrow> kept_calls s s2"
  by (simp add: kept_calls_def)

lemma kept_kept_calls: "kept s s' \<Longrightarrow> kept_calls s s'"
  by (simp add: kept_def kept_calls_def)

lemma other_flags [simp]:
  "SFLAG_EVICTED \<noteq> SFLAG_DYNAMIC" "SFLAG_ENABLED \<noteq> SFLAG_DYNAMIC" "SFLAG_TERMINATING \<noteq> SFLAG_DYNAMIC"
  by (simp_all add: SFLAGS)

lemma dynamic_frame [simp]:
  "test_flag (s\<lparr>serverId := i\<rparr>) f = test_flag s f" "test_flag (s\<lparr>pThread := b\<rparr>) f = test_flag s f"
  "test_flag (s\<lparr>senderIdLookup := h\<rparr>) f = test_flag s f" "test_flag (s\<lparr>janus_ws_handle := b\<rparr>) f = test_flag s f"
  by (simp_all add: test_flag_def)

definition consistent :: "'h core_hash \<Rightarrow> 'h registry \<Rightarrow> bool" where
  "consistent C R \<longleftrightarrow>
     (\<forall>n p. serversFind C R n = Some p \<longrightarrow> name (srv R p) = Some n \<and> p < r_next R)"

context core_table
begin

lemma removed_names:
  assumes "name (srv R p) \<noteq> Some n"
  shows "core_hash_find C (r_names (serversDynamicRemoveFromLookup C p R)) n = core_hash_find C (r_names R) n"
proof -
  have del: "core_hash_find C (snd (core_hash_delete C t k)) n = core_hash_find C t n" if "n \<noteq> k" for t k
    using delete_find [of t k "fst (core_hash_delete C t k)" "snd (core_hash_delete C t k)" n] that by simp
  show ?thesis
    using assms del by (auto simp: serversDynamicRemoveFromLookup_def Let_def split: option.splits)
qed

lemma removed_kept: "kept (srv R q) (srv (serversDynamicRemoveFromLookup C p R) q)"
  by (auto simp: serversDynamicRemoveFromLookup_def Let_def kept_def test_clear_flag split: option.splits)

end

locale thread_control = core_table C for C :: "'h core_hash" +
  fixes start :: "'h thread_fn" and stop :: "'h thread_fn"
  assumes start_names: "start = Some f \<Longrightarrow> r_names (f p R) = r_names R \<and> r_next (f p R) = r_next R"
    and start_kept: "start = Some f \<Longrightarrow> kept (srv R q) (srv (f p R) q)"
    and stop_names: "stop = Some g \<Longrightarrow> name (srv R p) \<noteq> Some n \<Longrightarrow>
      core_hash_find C (r_names (g p R)) n = core_hash_find C (r_names R) n"
    and stop_kept: "stop = Some g \<Longrightarrow> kept (srv R q) (srv (g p R) q)"
begin

lemma call_start:
  "r_names (call_thread_fn start p R) = r_names R" "r_next (call_thread_fn start p R) = r_next R"
  "kept (srv R q) (srv (call_thread_fn start p R) q)"
  using start_names start_kept by (auto simp: call_thread_fn_def split: option.splits)

lemma evict_names:
  "name (srv R p) \<noteq> Some n \<Longrightarrow>
   core_hash_find C (r_names (evict_server C stop p R)) n = core_hash_find C (r_names R) n"
  by (auto simp: evict_server_def Let_def removed_names stop_names split: option.splits)

lemma evict_kept: "kept (srv R q) (srv (evict_server C stop p R) q)"
proof -
  have "kept (srv R q) (srv (upd_srv p (set_flag SFLAG_EVICTED) R) q)"
    by (simp add: kept_def test_set_flag)
  moreover have "kept (srv (upd_srv p (set_flag SFLAG_EVICTED) R) q) (srv (evict_server C stop p R) q)"
    by (cases stop) (simp_all only: evict_server_def Let_def option.case removed_kept stop_kept)
  ultimately show ?thesis by (rule kept_trans)
qed

lemma evict_all:
  assumes "\<forall>q \<in> set qs. name (srv R q) \<noteq> Some n"
  shows "serversFind C (fold (evict_server C stop) qs R) n = serversFind C R n
    \<and> kept (srv R p) (srv (fold (evict_server C stop) qs R) p)"
  using assms
proof (induction qs arbitrary: R)
  case (Cons q qs)
  let ?R = "evict_server C stop q R"
  have names: "\<forall>q' \<in> set qs. name (srv ?R q') \<noteq> Some n"
    using Cons.prems evict_kept [of R _ q] by (auto simp: kept_def)
  have "serversFind C ?R n = serversFind C R n"
    using Cons.prems by (simp add: serversFind_def evict_names)
  with Cons.IH [OF names] show ?case by (auto intro: kept_trans evict_kept)
qed simp


lemma clone_frame [simp]:
  "name (serverCloneDefaults d s) = name d" "pUrl (serverCloneDefaults d s) = pUrl d"
  "callsInProgress (serverCloneDefaults d s) = callsInProgress d"
  by (simp_all add: serverCloneDefaults_def Let_def)

text \<open>Creating a server under a new name leaves the others found and adds the new one.\<close>

lemma create_names:
  assumes "serversFind C R pod = None" and "R' = serversCreateRegistryServer C start pod ip url R"
  shows "serversFind C R' n = serversFind C R n \<or> (n = pod \<and> serversFind C R' n = Some (r_next R))"
    and "r_next R' = Suc (r_next R)"
    and "name (srv R' (r_next R)) = Some pod" and "pUrl (srv R' (r_next R)) = Some url"
    and "test_flag (srv R' (r_next R)) SFLAG_DYNAMIC"
    and "q \<noteq> r_next R \<Longrightarrow> kept (srv R q) (srv R' q)"
proof -
  define s where "s = set_flag SFLAG_DYNAMIC (set_flag SFLAG_ENABLED (serverCloneDefaults
      ((zero_server (snd (core_hash_init C)))
        \<lparr>last_activity := w_now (r_world R), name := Some pod, pUrl := Some url, pod_ip := Some ip\<rparr>)
      (the (r_pod_defaults R))))"
  define R1 where "R1 = upd_srv (r_next R) (\<lambda>_. s) (R\<lparr>r_next := Suc (r_next R)\<rparr>)"
  define R2 where "R2 = R1\<lparr>r_names := snd (core_hash_insert C (r_names R) pod (r_next R))\<rparr>"
  have R': "R' = call_thread_fn start (r_next R) R2"
    using assms(2) by (simp add: serversCreateRegistryServer_def Let_def s_def R1_def R2_def)
  have s: "name s = Some pod" "pUrl s = Some url" "test_flag s SFLAG_DYNAMIC"
    by (simp_all add: s_def test_set_flag)
  have srv2: "srv R2 q = (if q = r_next R then s else srv R q)" for q
    by (simp add: R2_def R1_def)
  obtain st t where ins: "core_hash_insert C (r_names R) pod (r_next R) = (st, t)" by fastforce
  have find: "core_hash_find C t n = core_hash_find C (r_names R) n
      \<or> (n = pod \<and> core_hash_find C t n = Some (r_next R))" for n
    using insert_success [of "r_names R" pod "r_next R" t n] insert_failure [of "r_names R" pod "r_next R" st t n] ins
    by (cases "st = SWITCH_STATUS_SUCCESS") auto
  show "serversFind C R' n = serversFind C R n \<or> (n = pod \<and> serversFind C R' n = Some (r_next R))"
    using find [of n] ins by (simp add: serversFind_def R' call_start R2_def)
  show "r_next R' = Suc (r_next R)" by (simp add: R' call_start R2_def R1_def)
  show "name (srv R' (r_next R)) = Some pod" "pUrl (srv R' (r_next R)) = Some url"
    "test_flag (srv R' (r_next R)) SFLAG_DYNAMIC"
    using call_start(3) [of R2 "r_next R" "r_next R"] s by (simp_all add: R' srv2 kept_def)
  show "kept (srv R q) (srv R' q)" if "q \<noteq> r_next R"
    using call_start(3) [of R2 q "r_next R"] that by (simp add: R' srv2)
qed

lemma update_kept:
  "name (update_server now ip url s) = name s" "callsInProgress (update_server now ip url s) = callsInProgress s"
  "test_flag (update_server now ip url s) f = test_flag s f"
  "url \<noteq> [] \<Longrightarrow> pUrl (update_server now ip url s) = Some url"
  by (simp_all add: update_server_def Let_def test_flag_def)

lemma apply_endpoint_cases:
  assumes "consistent C R" and "R' = apply_endpoint C start ep R"
  obtains "serversFind C R (ep_pod_name ep) = None"
      "R' = serversCreateRegistryServer C start (ep_pod_name ep) (ep_pod_ip ep) (ep_url ep) R"
  | q where "serversFind C R (ep_pod_name ep) = Some q" "r_names R' = r_names R" "r_next R' = r_next R"
      "kept_calls (srv R q) (srv R' q)" "\<And>p. p \<noteq> q \<Longrightarrow> kept (srv R p) (srv R' p)"
      "test_flag (srv R q) SFLAG_DYNAMIC \<Longrightarrow> ep_url ep \<noteq> [] \<Longrightarrow> pUrl (srv R' q) = Some (ep_url ep)"
proof (cases "serversFind C R (ep_pod_name ep)")
  case None
  with assms(2) that(1) show ?thesis by (simp add: apply_endpoint_def)
next
  case (Some q)
  let ?R1 = "serversUpdateRegistryServer q (ep_pod_ip ep) (ep_url ep) R"
  have up: "r_names ?R1 = r_names R" "r_next ?R1 = r_next R" "kept_calls (srv R q) (srv ?R1 q)"
    "\<And>p. p \<noteq> q \<Longrightarrow> srv ?R1 p = srv R p" "ep_url ep \<noteq> [] \<Longrightarrow> pUrl (srv ?R1 q) = Some (ep_url ep)"
    by (simp_all add: serversUpdateRegistryServer_def kept_calls_def update_kept)
  have st: "kept (srv ?R1 p) (srv (call_thread_fn start q ?R1) p)" for p by (rule call_start(3))
  show ?thesis
  proof (cases "test_flag (srv R q) SFLAG_DYNAMIC")
    case False
    then have "R' = R" using assms(2) Some by (simp add: apply_endpoint_def)
    with Some False show ?thesis by (intro that(2) [of q]) (simp_all add: kept_calls_def)
  next
    case True
    then have R': "R' = (if \<not> test_flag (srv ?R1 q) SFLAG_ENABLED then call_thread_fn start q ?R1 else ?R1)"
      using assms(2) Some by (simp add: apply_endpoint_def Let_def)
    have k: "kept (srv ?R1 p) (srv R' p)" for p using st by (simp add: R')
    show ?thesis
    proof (rule that(2) [OF Some])
      show "r_names R' = r_names R" "r_next R' = r_next R" using up by (simp_all add: R' call_start)
      show "kept_calls (srv R q) (srv R' q)" using up(3) k by (blast intro: kept_calls_trans kept_kept_calls)
      show "kept (srv R p) (srv R' p)" if "p \<noteq> q" for p using k [of p] up(4) [OF that] by simp
      show "pUrl (srv R' q) = Some (ep_url ep)" if "ep_url ep \<noteq> []" using k [of q] up(5) [OF that] by (simp add: kept_def)
    qed
  qed
qed

lemma apply_endpoint_consistent:
  assumes "consistent C R" and "R' = apply_endpoint C start ep R"
  shows "consistent C R'"
  using assms
proof (cases rule: apply_endpoint_cases)
  case 1
  note c = create_names [OF 1]
  show ?thesis
    unfolding consistent_def
  proof (intro allI impI)
    fix n p
    assume f: "serversFind C R' n = Some p"
    show "name (srv R' p) = Some n \<and> p < r_next R'"
    proof (cases "serversFind C R n = Some p")
      case True
      with assms(1) have "name (srv R p) = Some n" "p < r_next R" by (auto simp: consistent_def)
      with c(2) c(6) [of p] show ?thesis by (simp add: kept_def)
    next
      case False
      with f c(1) [of n] have "n = ep_pod_name ep" "p = r_next R" by auto
      with c(2,3) show ?thesis by simp
    qed
  qed
next
  case (2 q)
  have "name (srv R' p) = name (srv R p)" for p
    using 2(4) 2(5) [of p] by (cases "p = q") (simp_all add: kept_calls_def kept_def)
  with assms(1) 2(2,3) show ?thesis by (simp add: consistent_def serversFind_def)
qed

lemma apply_endpoint_found:
  assumes "consistent C R" and "R' = apply_endpoint C start ep R" and "serversFind C R n = Some p"
  shows "serversFind C R' n = Some p \<and> kept_calls (srv R p) (srv R' p)
    \<and> (n \<noteq> ep_pod_name ep \<longrightarrow> kept (srv R p) (srv R' p))"
  using assms(1,2)
proof (cases rule: apply_endpoint_cases)
  case 1
  note c = create_names [OF 1]
  have "p < r_next R" using assms(1,3) by (auto simp: consistent_def)
  then have "kept (srv R p) (srv R' p)" using c(6) [of p] by simp
  moreover have "n \<noteq> ep_pod_name ep" using 1(1) assms(3) by auto
  ultimately show ?thesis using c(1) [of n] assms(3) by (auto intro: kept_kept_calls)
next
  case (2 q)
  have "p = q \<Longrightarrow> n = ep_pod_name ep"
    using assms(1,3) 2(1) unfolding consistent_def by (metis option.inject)
  with 2 assms(3) show ?thesis
    by (cases "p = q") (auto simp: serversFind_def intro: kept_kept_calls)
qed

lemma apply_endpoints_found:
  assumes "consistent C R" and "serversFind C R n = Some p"
  shows "consistent C (fold (apply_endpoint C start) eps R)
    \<and> serversFind C (fold (apply_endpoint C start) eps R) n = Some p
    \<and> kept_calls (srv R p) (srv (fold (apply_endpoint C start) eps R) p)"
  using assms
proof (induction eps arbitrary: R)
  case (Cons ep eps)
  note f = apply_endpoint_found [OF Cons.prems(1) refl Cons.prems(2), of ep]
  show ?case
    using Cons.IH [OF apply_endpoint_consistent [OF Cons.prems(1) refl, of ep], of ] f
    by (auto intro: kept_calls_trans)
qed (simp add: kept_calls_def)

lemma in_all_servers:
  assumes "consistent C R" and "q \<in> set (all_servers C R)"
  shows "\<exists>m. serversFind C R m = Some q \<and> name (srv R q) = Some m"
proof -
  from assms(2) obtain m where "(m, q) \<in> set (core_hash_entries C (r_names R))"
    by (auto simp: all_servers_def)
  then have "map_of (core_hash_entries C (r_names R)) m = Some q"
    using entries_distinct by (simp add: map_of_eq_Some_iff)
  then have "serversFind C R m = Some q" by (simp add: serversFind_def entries_find)
  with assms(1) show ?thesis by (auto simp: consistent_def)
qed

lemma refresh_keeps:
  assumes "consistent C R" and "serversFind C R n = Some p"
    and "\<not> test_flag (srv R p) SFLAG_DYNAMIC \<or> 0 < callsInProgress (srv R p)"
  shows "serversFind C (snd (serversRegistryRefresh C net resolve start stop R)) n = Some p
    \<and> kept_calls (srv R p) (srv (snd (serversRegistryRefresh C net resolve start stop R)) p)"
proof -
  have main: "serversFind C R2 n = Some p \<and> kept_calls (srv R p) (srv R2 p)"
    if "R1 = fold (apply_endpoint C start) eps R" and "R2 = fold (evict_server C stop)
        (take k (filter (\<lambda>p. must_evict (map ep_pod_name eps) (srv R1 p)) (all_servers C R1))) R1"
    for eps R1 R2 k
  proof -
    note f = apply_endpoints_found [OF assms(1,2), of eps, folded that(1)]
    have no: "\<not> must_evict seen (srv R1 p)" for seen
      using f assms(3) by (auto simp: must_evict_def kept_calls_def)
    have "name (srv R1 q) \<noteq> Some n"
      if "q \<in> set (take k (filter (\<lambda>p. must_evict (map ep_pod_name eps) (srv R1 p)) (all_servers C R1)))" for q
    proof
      assume "name (srv R1 q) = Some n"
      moreover have "q \<in> set (all_servers C R1)" "must_evict (map ep_pod_name eps) (srv R1 q)"
        using that by (auto dest: in_set_takeD)
      ultimately have "serversFind C R1 n = Some q"
        using in_all_servers [of R1 q] f by auto
      with f no \<open>must_evict (map ep_pod_name eps) (srv R1 q)\<close> show False by auto
    qed
    then have e: "serversFind C R2 n = serversFind C R1 n \<and> kept (srv R1 p) (srv R2 p)"
      unfolding that(2) by (intro evict_all) blast
    then have "kept_calls (srv R p) (srv R2 p)"
      using f kept_calls_trans [OF _ kept_kept_calls] by blast
    with e f show ?thesis by simp
  qed
  have "kept_calls (srv R p) (srv R p)" by (simp add: kept_calls_def)
  then show ?thesis
    using assms(2) main [OF refl refl]
    by (auto simp: serversRegistryRefresh_def Let_def split: option.splits)
qed

text \<open>A pod counts as registered when its name is taken and, if by a dynamic server, with its present URL.\<close>

lemma apply_endpoint_registers:
  assumes "consistent C R" and "\<And>t k p. fst (core_hash_insert C t k p) = SWITCH_STATUS_SUCCESS"
    and "ep_url ep \<noteq> []" and "R' = apply_endpoint C start ep R"
  shows "\<exists>q. serversFind C R' (ep_pod_name ep) = Some q
    \<and> (test_flag (srv R' q) SFLAG_DYNAMIC \<longrightarrow> pUrl (srv R' q) = Some (ep_url ep))"
  using assms(1,4)
proof (cases rule: apply_endpoint_cases)
  case 1
  note c = create_names [OF 1]
  have "serversFind C R' (ep_pod_name ep) \<noteq> None"
  proof -
    obtain t where ins: "core_hash_insert C (r_names R) (ep_pod_name ep) (r_next R) = (SWITCH_STATUS_SUCCESS, t)"
      using assms(2) by (metis prod.collapse)
    have "r_names R' = t"
      using 1(2) ins by (simp add: serversCreateRegistryServer_def Let_def call_start)
    with insert_success [OF ins, of "ep_pod_name ep"] show ?thesis by (simp add: serversFind_def)
  qed
  with c(1) [of "ep_pod_name ep"] c(4) 1(1) show ?thesis by auto
next
  case (2 q)
  have "test_flag (srv R' q) SFLAG_DYNAMIC = test_flag (srv R q) SFLAG_DYNAMIC"
    using 2(4) by (simp add: kept_calls_def)
  with 2 assms(3) show ?thesis by (intro exI [of _ q]) (simp add: serversFind_def)
qed

lemma apply_endpoints_register:
  assumes "consistent C R" and "\<And>t k p. fst (core_hash_insert C t k p) = SWITCH_STATUS_SUCCESS"
    and "distinct (map ep_pod_name eps)" and "ep \<in> set eps" and "ep_url ep \<noteq> []"
  shows "\<exists>q. serversFind C (fold (apply_endpoint C start) eps R) (ep_pod_name ep) = Some q
    \<and> (test_flag (srv (fold (apply_endpoint C start) eps R) q) SFLAG_DYNAMIC \<longrightarrow>
       pUrl (srv (fold (apply_endpoint C start) eps R) q) = Some (ep_url ep))"
  using assms(1,3,4)
proof (induction eps rule: rev_induct)
  case (snoc x xs)
  let ?R = "fold (apply_endpoint C start) xs R"
  let ?R' = "apply_endpoint C start x ?R"
  have con: "consistent C ?R"
    using snoc.prems(1) by (induction xs arbitrary: R) (auto intro: apply_endpoint_consistent)
  show ?case
  proof (cases "ep = x")
    case True
    with apply_endpoint_registers [OF con assms(2) assms(5) refl] show ?thesis by simp
  next
    case False
    then have mem: "ep \<in> set xs" using snoc.prems(3) by simp
    have "ep_pod_name x \<notin> ep_pod_name ` set xs" using snoc.prems(2) by simp
    with mem have "ep_pod_name ep \<noteq> ep_pod_name x" by (metis imageI)
    moreover obtain q where q: "serversFind C ?R (ep_pod_name ep) = Some q"
      "test_flag (srv ?R q) SFLAG_DYNAMIC \<longrightarrow> pUrl (srv ?R q) = Some (ep_url ep)"
      using snoc.IH [OF snoc.prems(1)] snoc.prems(2) mem by auto
    ultimately show ?thesis
      using apply_endpoint_found [OF con refl q(1), of x] by (auto simp: kept_def)
  qed
qed simp

lemma refresh_registers:
  assumes "consistent C R" and "\<And>t k p. fst (core_hash_insert C t k p) = SWITCH_STATUS_SUCCESS"
    and "distinct (map ep_pod_name eps)" and "ep \<in> set eps" and "ep_url ep \<noteq> []"
    and "R1 = fold (apply_endpoint C start) eps R"
    and "R2 = fold (evict_server C stop)
        (take k (filter (\<lambda>p. must_evict (map ep_pod_name eps) (srv R1 p)) (all_servers C R1))) R1"
  shows "\<exists>q. serversFind C R2 (ep_pod_name ep) = Some q
    \<and> (test_flag (srv R2 q) SFLAG_DYNAMIC \<longrightarrow> pUrl (srv R2 q) = Some (ep_url ep))"
proof -
  obtain q where q: "serversFind C R1 (ep_pod_name ep) = Some q"
    "test_flag (srv R1 q) SFLAG_DYNAMIC \<longrightarrow> pUrl (srv R1 q) = Some (ep_url ep)"
    using apply_endpoints_register [OF assms(1-5)] assms(6) by auto
  have "\<forall>p \<in> set (take k (filter (\<lambda>p. must_evict (map ep_pod_name eps) (srv R1 p)) (all_servers C R1))).
      name (srv R1 p) \<noteq> Some (ep_pod_name ep)"
    using assms(4) by (auto simp: must_evict_def dest!: in_set_takeD)
  from evict_all [OF this, of q, folded assms(7)] q show ?thesis by (auto simp: kept_def)
qed

end

section \<open>Collecting the endpoints\<close>

lemma build_url_not_Nil [simp]: "serversBuildJanusUrl ip port path \<noteq> []"
  by (simp add: serversBuildJanusUrl_def snprintf_text_def)

text \<open>
  What a refresh should find, said without the loop of the code: the name the pod at an address reports, the first
  address of each name, and at most 64 names.
\<close>

definition pod_at :: "(wire \<Rightarrow> cjson option) \<Rightarrow> string \<Rightarrow> string \<Rightarrow> string \<Rightarrow> cstr" where
  "pod_at net port path ip =
     (case net (HttpGet (take 511 (''http://'' @ ip @ '':'' @ port @ path @ ''/info'')) 2000) of
        None \<Rightarrow> None
      | Some json \<Rightarrow> (case jstr json ''server-name'' of
          None \<Rightarrow> None
        | Some n \<Rightarrow> if serversPodNameValid (Some n) then Some n else None))"

definition answering :: "(string \<Rightarrow> cstr) \<Rightarrow> cstr list \<Rightarrow> (string \<times> string) list" where
  "answering pod addrs =
     map (\<lambda>ip. (the (pod ip), ip)) (filter (\<lambda>ip. pod ip \<noteq> None) (map the (filter (\<lambda>a. a \<noteq> None) addrs)))"

fun first_of_each :: "('a \<times> 'b) list \<Rightarrow> ('a \<times> 'b) list" where
  "first_of_each [] = []"
| "first_of_each (x # xs) = x # filter (\<lambda>y. fst y \<noteq> fst x) (first_of_each xs)"

definition pods_found :: "(wire \<Rightarrow> cjson option) \<Rightarrow> string \<Rightarrow> string \<Rightarrow> cstr list \<Rightarrow> (string \<times> string) list" where
  "pods_found net port path addrs = take 64 (first_of_each (answering (pod_at net port path) addrs))"

lemma first_of_each_names: "distinct (map fst (first_of_each xs)) \<and> fst ` set (first_of_each xs) = fst ` set xs"
  by (induction xs) (auto simp: distinct_map_filter, force+)

lemma first_of_each_address: "map_of (first_of_each xs) = map_of xs"
proof (induction xs)
  case (Cons x xs)
  have drop: "map_of (filter (\<lambda>y. fst y \<noteq> a) ys) = (map_of ys)(a := None)" for a and ys :: "('a \<times> 'b) list"
    by (induction ys) auto
  show ?case by (simp add: drop Cons.IH)
qed simp

text \<open>When no more than 64 names are reported, a refresh finds each pod that answers, at the first of its addresses.\<close>

lemma pods_found_all:
  assumes "card (fst ` set (answering (pod_at net port path) addrs)) \<le> 64" and "Some ip \<in> set addrs"
    and "pod_at net port path ip = Some n"
  shows "\<exists>ip'. (n, ip') \<in> set (pods_found net port path addrs) \<and> map_of (answering (pod_at net port path) addrs) n = Some ip'"
proof -
  let ?as = "answering (pod_at net port path) addrs"
  have "length (first_of_each ?as) \<le> 64"
    using assms(1) first_of_each_names [of ?as] by (metis distinct_card length_map set_map)
  then have all: "pods_found net port path addrs = first_of_each ?as" by (simp add: pods_found_def)
  have "(n, ip) \<in> set ?as" using assms(2,3) by (force simp: answering_def image_iff)
  then obtain ip' where "map_of ?as n = Some ip'" by (metis weak_map_of_SomeI)
  then show ?thesis unfolding all using map_of_SomeD first_of_each_address by metis
qed

lemma probe_pod_at:
  assumes "path \<noteq> []"
  shows "serversProbeJanusPodAtIp net ip port path 64 = pod_at net port path ip"
  using assms
  by (auto simp: serversProbeJanusPodAtIp_def pod_at_def info_url_def snprintf_text_def jstr_def pod_name_valid_iff Let_def
      split: option.splits)

definition endpoint_of :: "string \<Rightarrow> string \<Rightarrow> string \<times> string \<Rightarrow> registry_endpoint_t" where
  "endpoint_of port path x = \<lparr>ep_pod_name = fst x, ep_pod_ip = take 15 (snd x),
     ep_url = take 511 (''http://'' @ snd x @ '':'' @ port @ path)\<rparr>"

lemma collect_endpoints_eq:
  assumes "path \<noteq> []"
  shows "collect_endpoints net port path acc rps = acc @ take (64 - length acc) (map (endpoint_of port path)
    (filter (\<lambda>x. fst x \<notin> ep_pod_name ` set acc) (first_of_each (answering (pod_at net port path) rps))))"
proof (induction rps arbitrary: acc)
  case (Cons rp rps)
  show ?case
  proof (cases "length acc \<ge> 64 \<or> rp = None \<or> pod_at net port path (the rp) = None")
    case True
    then show ?thesis using Cons.IH probe_pod_at [OF assms]
      by (cases rp) (auto simp: answering_def REGISTRY_MAX_ENDPOINTS_def)
  next
    case False
    then obtain ip n where ip: "rp = Some ip" "pod_at net port path ip = Some n" "length acc < 64" by auto
    have valid: "snprintf_text 64 n = n"
      using ip(2) by (auto simp: pod_at_def pod_name_valid_iff snprintf_text_fits split: option.splits if_splits)
    have new: "\<lparr>ep_pod_name = snprintf_text 64 n, ep_pod_ip = snprintf_text INET_ADDRSTRLEN ip,
        ep_url = serversBuildJanusUrl ip port path\<rparr> = endpoint_of port path (n, ip)"
      using assms valid by (simp add: endpoint_of_def serversBuildJanusUrl_def snprintf_text_def INET_ADDRSTRLEN_def)
    have as: "answering (pod_at net port path) (rp # rps) = (n, ip) # answering (pod_at net port path) rps"
      using ip by (simp add: answering_def)
    have step: "collect_endpoints net port path acc (rp # rps) =
        (if n \<in> ep_pod_name ` set acc then collect_endpoints net port path acc rps
         else collect_endpoints net port path (acc @ [endpoint_of port path (n, ip)]) rps)"
      using ip probe_pod_at [OF assms] new by (auto simp: REGISTRY_MAX_ENDPOINTS_def list_ex_iff)
    have m: "64 - length acc = Suc (63 - length acc)" using ip(3) by simp
    have "ep_pod_name (endpoint_of port path (n, ip)) = n" by (simp add: endpoint_of_def)
    moreover have "filter (\<lambda>x. fst x \<notin> ep_pod_name ` set acc \<and> fst x \<noteq> n) xs = filter (\<lambda>x. fst x \<notin> ep_pod_name ` set acc) xs"
      if "n \<in> ep_pod_name ` set acc" for xs :: "(string \<times> string) list" using that by (intro filter_cong) auto
    ultimately show ?thesis unfolding step as Cons.IH
      using m by (auto simp: conj_commute simp flip: diff_diff_left)
  qed
qed (simp add: answering_def)

text \<open>The loop over the addresses finds what it should.\<close>

lemma collect_endpoints_pods:
  "path \<noteq> [] \<Longrightarrow> collect_endpoints net port path [] addrs = map (endpoint_of port path) (pods_found net port path addrs)"
  by (simp add: collect_endpoints_eq pods_found_def take_map)

lemma pods_found_names:
  "distinct (map fst (pods_found net port path addrs))"
  "(n, ip) \<in> set (pods_found net port path addrs) \<Longrightarrow> serversPodNameValid (Some n)"
proof -
  show "distinct (map fst (pods_found net port path addrs))"
    using first_of_each_names [of "answering (pod_at net port path) addrs"] by (simp add: pods_found_def distinct_take flip: take_map)
  assume "(n, ip) \<in> set (pods_found net port path addrs)"
  then have "map_of (first_of_each (answering (pod_at net port path) addrs)) n = Some ip"
    using first_of_each_names [of "answering (pod_at net port path) addrs"]
    by (auto simp: pods_found_def dest: in_set_takeD)
  then have "pod_at net port path ip = Some n" by (auto simp: first_of_each_address answering_def dest!: map_of_SomeD)
  then show "serversPodNameValid (Some n)" by (auto simp: pod_at_def split: option.splits if_splits)
qed

end
