(* ===== verification/Server_Thread.thy ===== *)
theory Server_Thread
  imports Registry
begin

unbundle bit_operations_syntax

text \<open>
  The thread of a server (\<open>mod_janus.c\<close>): \<open>server_thread_run\<close> as a machine that makes one step per
  test of its loops, and \<open>startServerThread\<close> and \<open>stopServerThread\<close>, the functions the registry is given.
  The thread's own variables are in the record \<open>thread_t\<close>; the effects of the core, of
  Janus and of the WebSocket layer during one step are in the parameter \<open>thread_env\<close>.
\<close>

section \<open>The thread\<close>

datatype pc = Outer | Polling | Finished

record 'h thread_t =
  t_pc :: pc
  t_serverId :: janus_id_t
  t_reconnect :: bool
  t_reg :: "'h registry"

record 'h thread_env =
  v_env :: "'h env"
  v_ws_open :: switch_status_t
  v_pump :: "'h world callbacks \<Rightarrow> 'h world \<Rightarrow> (switch_status_t \<times> 'h world) cres"
  v_mutex_init :: switch_status_t
  v_mutex_destroy :: switch_status_t

definition upd_world :: "('h world \<Rightarrow> 'h world) \<Rightarrow> 'h registry \<Rightarrow> 'h registry" where
  "upd_world f R = R\<lparr>r_world := f (r_world R)\<rparr>"

definition is_ws :: "'h thread_env \<Rightarrow> 'h server_t \<Rightarrow> bool" where
  "is_ws v s \<longleftrightarrow> e_have_ws (v_env v) \<and> transport s = JANUS_TP_WS"

definition ws_close :: "'h thread_env \<Rightarrow> ptr \<Rightarrow> 'h registry \<Rightarrow> 'h registry" where
  "ws_close v p R =
     (if is_ws v (srv R p) \<and> janus_ws_handle (srv R p)
      then upd_srv p (\<lambda>s. s\<lparr>janus_ws_handle := False\<rparr>) R else R)"

definition thread_start :: "'h thread_env \<Rightarrow> ptr \<Rightarrow> 'h registry \<Rightarrow> 'h thread_t" where
  "thread_start v p R =
     \<lparr>t_pc = Outer, t_serverId = 0, t_reconnect = False,
      t_reg = upd_srv p (\<lambda>s. s\<lparr>senderIdLookup :=
        snd (hashCreate (e_core (v_env v)) (v_mutex_init v) (senderIdLookup s))\<rparr>) R\<rparr>"

text \<open>Entering a server under its session identifier; a failed insertion forgets the identifier.\<close>

definition register_server ::
  "'h core_hash \<Rightarrow> ptr \<Rightarrow> janus_id_t \<Rightarrow> 'h registry \<Rightarrow> janus_id_t \<times> 'h registry" where
  "register_server C p sid R =
     (let (st, h) = hashInsert C (w_serverIdLookup (r_world R)) sid p;
          R = upd_world (\<lambda>w. w\<lparr>w_serverIdLookup := h\<rparr>) R
      in if st \<noteq> SWITCH_STATUS_SUCCESS then (0, upd_srv p (\<lambda>s. s\<lparr>serverId := 0\<rparr>) R)
         else (sid, R))"

text \<open>The session is gone: every call of the server is hung up and taken out of the table.\<close>

definition drop_call :: "'h core_hash \<Rightarrow> ptr \<Rightarrow> ptr \<Rightarrow> 'h registry \<Rightarrow> 'h registry" where
  "drop_call C p q R =
     (let hid = p_senderId (pvt (r_world R) q);
          R = upd_world (emit (HangupChannel q CAUSE_DESTINATION_OUT_OF_ORDER)) R
      in upd_srv p (\<lambda>s. s\<lparr>senderIdLookup := snd (hashDelete C (senderIdLookup s) hid)\<rparr>) R)"

definition session_lost :: "'h core_hash \<Rightarrow> ptr \<Rightarrow> 'h registry \<Rightarrow> 'h registry" where
  "session_lost C p R =
     fold (drop_call C p) (map snd (core_hash_entries C (pTable (senderIdLookup (srv R p))))) R"

definition thread_claim ::
  "'h thread_env \<Rightarrow> ptr \<Rightarrow> janus_id_t \<Rightarrow> 'h registry \<Rightarrow> (janus_id_t \<times> 'h registry) cres" where
  "thread_claim v p sid R =
     (let e = v_env v in
      cbind (apiClaimServerId (e_have_ws e) (e_sign e) (e_net e) (e_txn e 0) (srv R p) sid) (\<lambda>st.
      if st = SWITCH_STATUS_SOCKERR then Inr (sid, ws_close v p R)
      else if st = SWITCH_STATUS_SUCCESS
      then Inr (register_server (e_core e) p sid (upd_srv p (\<lambda>s. s\<lparr>serverId := sid\<rparr>) R))
      else Inr (0, session_lost (e_core e) p R)))"

text \<open>A new session; the first component says that the thread is to end (the server is evicted).\<close>

definition thread_create ::
  "'h thread_env \<Rightarrow> ptr \<Rightarrow> 'h registry \<Rightarrow> (bool \<times> janus_id_t \<times> 'h registry) cres" where
  "thread_create v p R =
     (let e = v_env v in
      cbind (apiGetServerId (e_have_ws e) (e_sign e) (e_net e) (e_txn e 0) (srv R p)) (\<lambda>sid.
      if sid = 0 then
        (let R = ws_close v p R in
         if test_flag (srv R p) SFLAG_DYNAMIC then
           (let R = upd_srv p serversDynamicRecordConnectFailure R in
            if serversDynamicEvictable R p
            then Inr (True, 0, upd_srv p (set_flag SFLAG_EVICTED) R)
            else Inr (False, 0, R))
         else Inr (False, 0, R))
      else
        (let now = w_now (r_world R);
             R = (if test_flag (srv R p) SFLAG_DYNAMIC
                  then upd_srv p (serversDynamicResetConnectFailures now) R else R);
             R = upd_srv p (\<lambda>s. s\<lparr>started := now, serverId := sid, callsInProgress := 0\<rparr>) R
         in Inr (False, register_server (e_core e) p sid R))))"

definition thread_done :: "'h thread_env \<Rightarrow> ptr \<Rightarrow> janus_id_t \<Rightarrow> 'h registry \<Rightarrow> 'h registry" where
  "thread_done v p sid R =
     (let C = e_core (v_env v);
          R = upd_srv p (\<lambda>s. s\<lparr>senderIdLookup := snd (hashDestroy C (v_mutex_destroy v) (senderIdLookup s))\<rparr>) R;
          R = upd_world (\<lambda>w. w\<lparr>w_serverIdLookup := snd (hashDelete C (w_serverIdLookup w) sid)\<rparr>) R;
          R = ws_close v p R
      in if test_flag (srv R p) SFLAG_EVICTED then serversDynamicRemoveFromLookup C p R else R)"

definition thread_connect :: "'h thread_env \<Rightarrow> ptr \<Rightarrow> 'h thread_t \<Rightarrow> 'h thread_t cres" where
  "thread_connect v p t =
     (let R = t_reg t;
          stamp = (\<lambda>R. if is_ws v (srv R p)
                       then upd_srv p (\<lambda>s. s\<lparr>ws_last_poll := w_now (r_world R)\<rparr>) R else R)
      in if t_serverId t \<noteq> 0 then
           cbind (thread_claim v p (t_serverId t) R) (\<lambda>(sid, R).
           Inr (t\<lparr>t_pc := Polling, t_serverId := sid, t_reg := stamp R\<rparr>))
         else
           cbind (thread_create v p R) (\<lambda>(stop, sid, R).
           if stop then Inr (t\<lparr>t_pc := Finished, t_serverId := sid, t_reg := thread_done v p sid R\<rparr>)
           else Inr (t\<lparr>t_pc := Polling, t_serverId := sid, t_reg := stamp R\<rparr>)))"

definition thread_outer :: "'h thread_env \<Rightarrow> ptr \<Rightarrow> 'h thread_t \<Rightarrow> 'h thread_t cres" where
  "thread_outer v p t =
     (if test_flag (srv (t_reg t) p) SFLAG_TERMINATING
      then Inr (t\<lparr>t_pc := Finished, t_reg := thread_done v p (t_serverId t) (t_reg t)\<rparr>)
      else let t = t\<lparr>t_reconnect := True\<rparr>; R = t_reg t in
           if is_ws v (srv R p) \<and> \<not> janus_ws_handle (srv R p) then
             (if v_ws_open v \<noteq> SWITCH_STATUS_SUCCESS then Inr t
              else thread_connect v p
                     (t\<lparr>t_reg := upd_srv p (\<lambda>s. s\<lparr>janus_ws_handle := True\<rparr>) R\<rparr>))
           else thread_connect v p t)"

definition thread_poll :: "'h thread_env \<Rightarrow> ptr \<Rightarrow> 'h thread_t \<Rightarrow> 'h thread_t cres" where
  "thread_poll v p t =
     (let R = t_reg t; e = v_env v; C = e_core e; sid = t_serverId t in
      if test_flag (srv R p) SFLAG_TERMINATING \<or> hashFind C (w_serverIdLookup (r_world R)) sid = None
      then Inr (t\<lparr>t_pc := Outer\<rparr>)
      else cbind (apiPoll (e_have_ws e) (e_sign e) (e_net e) (v_pump v) (srv R p) sid
                    (module_callbacks e) (r_world R)) (\<lambda>(st, w).
           let R = R\<lparr>r_world := w\<rparr> in
           if st \<noteq> SWITCH_STATUS_SUCCESS
           then Inr (t\<lparr>t_reg := upd_srv p (\<lambda>s. s\<lparr>serverId := 0\<rparr>)
                  (upd_world (\<lambda>w. w\<lparr>w_serverIdLookup := snd (hashDelete C (w_serverIdLookup w) sid)\<rparr>) R)\<rparr>)
           else Inr (t\<lparr>t_reg := R\<rparr>)))"

definition thread_step :: "'h thread_env \<Rightarrow> ptr \<Rightarrow> 'h thread_t \<Rightarrow> 'h thread_t cres" where
  "thread_step v p t = (case t_pc t of
     Outer \<Rightarrow> thread_outer v p t | Polling \<Rightarrow> thread_poll v p t | Finished \<Rightarrow> Inr t)"

section \<open>Starting and stopping\<close>

definition startServerThread :: "bool \<Rightarrow> ptr \<Rightarrow> 'h registry \<Rightarrow> 'h registry" where
  "startServerThread force p R =
     (if force \<or> \<not> test_flag (srv R p) SFLAG_ENABLED
      then upd_srv p (\<lambda>s. (set_flag SFLAG_ENABLED s)\<lparr>pThread := True\<rparr>) R
      else R)"

text \<open>
  \<open>stopServerThread\<close> asks the thread to end and joins it: at its next test the thread sees the flag and runs its
  exit, which is what \<open>terminating_thread_exits\<close> shows of its steps; \<open>sid\<close> is the thread's identifier at that point. The events a
  poll still under way may dispatch before that test are not part of this definition.
\<close>

definition stopServerThread :: "'h thread_env \<Rightarrow> (ptr \<Rightarrow> janus_id_t) \<Rightarrow> ptr \<Rightarrow> 'h registry \<Rightarrow> 'h registry" where
  "stopServerThread v sid p R =
     (if test_flag (srv R p) SFLAG_ENABLED \<and> \<not> test_flag (srv R p) SFLAG_TERMINATING \<and> pThread (srv R p)
      then let R = upd_srv p (set_flag SFLAG_TERMINATING) R;
               R = thread_done v p (sid p) R;
               R = upd_srv p (\<lambda>s. s\<lparr>pThread := False\<rparr>) R
           in upd_srv p (clear_flag (SFLAG_TERMINATING OR SFLAG_ENABLED)) R
      else if test_flag (srv R p) SFLAG_EVICTED
           then serversDynamicRemoveFromLookup (e_core (v_env v)) p R
           else R)"

lemma terminating_thread_exits:
  assumes "test_flag (srv (t_reg t) p) SFLAG_TERMINATING" and "t_pc t \<noteq> Finished"
  shows "\<exists>t'. cbind (thread_step v p t) (thread_step v p) = Inr t' \<and> t_pc t' = Finished
    \<and> t_reg t' = thread_done v p (t_serverId t) (t_reg t)"
  using assms by (cases "t_pc t") (simp_all add: thread_step_def thread_outer_def thread_poll_def Let_def)

section \<open>The thread functions meet their contract\<close>

lemma upd_world_simps [simp]:
  "r_names (upd_world f R) = r_names R" "r_next (upd_world f R) = r_next R"
  "r_world (upd_world f R) = f (r_world R)"
  by (simp_all add: upd_world_def)

lemma ws_close_simps [simp]:
  "r_names (ws_close v p R) = r_names R" "r_next (ws_close v p R) = r_next R"
  "w_serverIdLookup (r_world (ws_close v p R)) = w_serverIdLookup (r_world R)"
  "name (srv (ws_close v p R) q) = name (srv R q)"
  "test_flag (srv (ws_close v p R) q) f = test_flag (srv R q) f"
  "kept (srv R q) (srv (ws_close v p R) q)"
  by (auto simp: ws_close_def kept_def upd_srv_def)

lemma thread_done_names:
  assumes "core_table (e_core (v_env v))" and "name (srv R p) \<noteq> Some n"
  shows "core_hash_find (e_core (v_env v)) (r_names (thread_done v p i R)) n =
    core_hash_find (e_core (v_env v)) (r_names R) n"
  using assms(2) by (simp add: thread_done_def Let_def core_table.removed_names [OF assms(1)])

lemma thread_done_kept:
  assumes "core_table (e_core (v_env v))"
  shows "kept (srv R q) (srv (thread_done v p i R) q)"
proof -
  define R1 where "R1 = ws_close v p (upd_world (\<lambda>w. w\<lparr>w_serverIdLookup :=
      snd (hashDelete (e_core (v_env v)) (w_serverIdLookup w) i)\<rparr>)
    (upd_srv p (\<lambda>s. s\<lparr>senderIdLookup :=
      snd (hashDestroy (e_core (v_env v)) (v_mutex_destroy v) (senderIdLookup s))\<rparr>) R))"
  have "kept (srv R q) (srv R1 q)"
    unfolding R1_def by (rule kept_trans [OF _ ws_close_simps(6)]) (simp add: kept_def)
  moreover have "kept (srv R1 q) (srv (thread_done v p i R) q)"
    using core_table.removed_kept [OF assms, of R1 q p]
    by (simp add: thread_done_def Let_def R1_def)
  ultimately show ?thesis by (rule kept_trans)
qed

lemma clear_both_flags:
  "test_flag (clear_flag (SFLAG_TERMINATING OR SFLAG_ENABLED) s) SFLAG_DYNAMIC = test_flag s SFLAG_DYNAMIC"
  by (simp add: test_flag_bit clear_flag_def bit_and_iff bit_not_iff bit_or_iff) (simp add: SFLAGS)

lemma stop_kept_model:
  assumes "core_table (e_core (v_env v))"
  shows "kept (srv R q) (srv (stopServerThread v sid p R) q)"
proof -
  define R1 where "R1 = upd_srv p (set_flag SFLAG_TERMINATING) R"
  define R2 where "R2 = thread_done v p (sid p) R1"
  have "kept (srv R q) (srv R1 q)" by (simp add: R1_def kept_def test_set_flag)
  moreover have "kept (srv R1 q) (srv R2 q)" unfolding R2_def by (rule thread_done_kept [OF assms])
  ultimately have "kept (srv R q) (srv R2 q)" by (rule kept_trans)
  then have "kept (srv R q) (srv (upd_srv p (clear_flag (SFLAG_TERMINATING OR SFLAG_ENABLED))
      (upd_srv p (\<lambda>s. s\<lparr>pThread := False\<rparr>) R2)) q)"
    by (cases "q = p") (simp_all add: kept_def clear_both_flags)
  then show ?thesis
    using core_table.removed_kept [OF assms, of R q p]
    by (simp add: stopServerThread_def Let_def R1_def R2_def)
qed

lemma thread_control_model:
  assumes "core_table (e_core (v_env v))"
  shows "thread_control (e_core (v_env v)) (Some (startServerThread True)) (Some (stopServerThread v sid))"
proof -
  have start: "r_names (startServerThread True p R) = r_names R"
    "r_next (startServerThread True p R) = r_next R" "kept (srv R q) (srv (startServerThread True p R) q)"
    for p q and R :: "'a registry"
    by (simp_all add: startServerThread_def kept_def test_set_flag)
  have stop: "core_hash_find (e_core (v_env v)) (r_names (stopServerThread v sid p R)) n =
      core_hash_find (e_core (v_env v)) (r_names R) n" if "name (srv R p) \<noteq> Some n" for p R n
    using that
    by (simp add: stopServerThread_def Let_def thread_done_names [OF assms] core_table.removed_names [OF assms])
  show ?thesis
    unfolding thread_control_def thread_control_axioms_def
    using assms start stop stop_kept_model [OF assms] by auto
qed

definition sample_thread_env :: "(string \<times> ptr) list thread_env" where
  "sample_thread_env = \<lparr>v_env = sample_env, v_ws_open = SWITCH_STATUS_FALSE,
     v_pump = (\<lambda>_ w. Inr (SWITCH_STATUS_FALSE, w)), v_mutex_init = SWITCH_STATUS_SUCCESS,
     v_mutex_destroy = SWITCH_STATUS_SUCCESS\<rparr>"

lemma sample_thread_core: "e_core (v_env sample_thread_env) = alist_core"
  by (simp add: sample_thread_env_def sample_env_def)

interpretation threads: thread_control alist_core "Some (startServerThread True)"
    "Some (stopServerThread sample_thread_env (\<lambda>_. 0))"
  using thread_control_model [of sample_thread_env "\<lambda>_. 0"] alist.core_table_axioms
  by (simp only: sample_thread_core)

section \<open>Properties\<close>

text \<open>
  C21: a refresh of the registry never takes away a server that is in use. Run with the module's own
  thread functions, on a registry whose name table is consistent, every configured server
  and every dynamic server with a call in progress is found under its name afterwards as before, and keeps its
  name, its kind and its count of calls, whatever the resolver and the pods answer.
\<close>

theorem refresh_keeps_servers_in_use:
  assumes "core_table (e_core (v_env v))" and "C = e_core (v_env v)" and "consistent C R"
    and "serversFind C R n = Some p"
    and "\<not> test_flag (srv R p) SFLAG_DYNAMIC \<or> 0 < callsInProgress (srv R p)"
    and "serversRegistryRefresh C net resolve (Some (startServerThread True)) (Some (stopServerThread v sid)) R = (st, R')"
  shows "serversFind C R' n = Some p \<and> name (srv R' p) = name (srv R p)
    \<and> (test_flag (srv R' p) SFLAG_DYNAMIC \<longleftrightarrow> test_flag (srv R p) SFLAG_DYNAMIC)
    \<and> callsInProgress (srv R' p) = callsInProgress (srv R p)"
  using thread_control.refresh_keeps [OF thread_control_model [OF assms(1), of sid], of R n p net resolve] assms(2-6)
  by (simp add: kept_calls_def)

text \<open>A registry with one configured server, the template of the dynamic ones, and a headless service.\<close>

definition headless_registry :: "(string \<times> ptr) list registry" where
  "headless_registry = (snd (serversAdd alist_core sample_net ''demo'' [(''url'', ''http://j'')] sample_registry))
     \<lparr>r_headless_service_url := Some ''http://svc:8088''\<rparr>"

lemma headless_simps:
  "r_names headless_registry = [(''demo'', 10)]" "r_next headless_registry = 11"
  "name (srv headless_registry 10) = Some ''demo''" "\<not> test_flag (srv headless_registry 10) SFLAG_DYNAMIC"
  "r_headless_service_url headless_registry = Some ''http://svc:8088''" "r_pod_defaults headless_registry \<noteq> None"
  by (simp_all add: headless_registry_def serversAdd_def Let_def sample_registry_def sample_net_def
      serversFind_def apply_param_def zero_server_def is_ws_url_def strncasecmp_eq_def c_tolower_def
      serversCaptureDefaults_def test_flag_def)

lemma headless_consistent: "consistent alist_core headless_registry"
  by (auto simp: consistent_def serversFind_def headless_simps split: if_splits)

theorem refresh_keeps_servers_in_use_witness:
  "serversFind alist_core (snd (serversRegistryRefresh alist_core (\<lambda>_. None) (\<lambda>_. Some [Some ''10.0.0.7''])
      (Some (startServerThread True)) (Some (stopServerThread sample_thread_env (\<lambda>_. 0))) headless_registry)) ''demo'' = Some 10"
proof -
  have core: "core_table (e_core (v_env sample_thread_env))" "alist_core = e_core (v_env sample_thread_env)"
    using alist.core_table_axioms by (simp_all only: sample_thread_core)
  have find: "serversFind alist_core headless_registry ''demo'' = Some 10"
    by (simp add: serversFind_def headless_simps)
  show ?thesis
    using refresh_keeps_servers_in_use [OF core headless_consistent find _ surjective_pairing] headless_simps(4)
    by blast
qed

text \<open>
  C22: a refresh registers every pod that answers. When the service resolves and the core table takes every insertion,
  each pod of \<open>pods_found\<close> (the addresses of the service that report a valid name on their info URL, the first address of each name, at most 64
  names) is found under its name afterwards; if by a dynamic server, then with the
  URL of the address that answered. So when at most 64 names are reported every address that answers has its pod registered, whatever
  the other addresses do.
\<close>

theorem refresh_registers_pods:
  assumes "core_table (e_core (v_env v))" and "C = e_core (v_env v)" and "consistent C R"
    and "\<And>t k p. fst (core_hash_insert C t k p) = SWITCH_STATUS_SUCCESS"
    and "r_headless_service_url R = Some url" and "url \<noteq> []" and "r_pod_defaults R \<noteq> None"
    and "serversParseHttpUrlParts url 256 16 128 = Some (host, port, path)" and "resolve host = Some addrs"
    and "path' = (if path = [] then ''/janus'' else path)"
    and "serversRegistryRefresh C net resolve (Some (startServerThread True)) (Some (stopServerThread v sid)) R = (st, R')"
  shows "st = SWITCH_STATUS_SUCCESS
    \<and> (\<forall>(n, ip) \<in> set (pods_found net port path' addrs). serversPodNameValid (Some n)
        \<and> (\<exists>q. serversFind C R' n = Some q
             \<and> (test_flag (srv R' q) SFLAG_DYNAMIC \<longrightarrow> pUrl (srv R' q) = Some (take 511 (''http://'' @ ip @ '':'' @ port @ path')))))
    \<and> (\<forall>ip n. card (fst ` set (answering (pod_at net port path') addrs)) \<le> 64 \<and> Some ip \<in> set addrs
         \<and> pod_at net port path' ip = Some n \<longrightarrow> serversFind C R' n \<noteq> None)"
proof -
  have p: "path' \<noteq> []" using assms(10) by simp
  define eps where "eps = map (endpoint_of port path') (pods_found net port path' addrs)"
  have names: "distinct (map ep_pod_name eps)"
    using pods_found_names(1) by (simp add: eps_def endpoint_of_def comp_def)
  let ?R1 = "fold (apply_endpoint C (Some (startServerThread True))) eps R"
  have R': "st = SWITCH_STATUS_SUCCESS" "R' = fold (evict_server C (Some (stopServerThread v sid)))
      (take REGISTRY_MAX_ENDPOINTS (filter (\<lambda>p. must_evict (map ep_pod_name eps) (srv ?R1 p)) (all_servers C ?R1))) ?R1"
    using assms(5-9,11) by (cases "r_pod_defaults R";
        simp add: serversRegistryRefresh_def Let_def assms(10) [symmetric] collect_endpoints_pods [OF p] eps_def [symmetric])+
  have found: "\<exists>q. serversFind C R' n = Some q
      \<and> (test_flag (srv R' q) SFLAG_DYNAMIC \<longrightarrow> pUrl (srv R' q) = Some (take 511 (''http://'' @ ip @ '':'' @ port @ path')))"
    if "(n, ip) \<in> set (pods_found net port path' addrs)" for n ip
  proof -
    let ?ep = "endpoint_of port path' (n, ip)"
    have "?ep \<in> set eps" using that by (auto simp: eps_def)
    moreover have "ep_url ?ep \<noteq> []" by (simp add: endpoint_of_def)
    ultimately show ?thesis
      using thread_control.refresh_registers [OF thread_control_model [OF assms(1), of sid] _ _ names, of R ?ep] R'(2) assms(3,4)
      unfolding assms(2) by (simp add: endpoint_of_def)
  qed
  then show ?thesis using R'(1) pods_found_names(2) pods_found_all [of net port path' addrs] by fastforce
qed

text \<open>A service of two addresses, of which the first does not answer.\<close>

definition second_pod_net :: "wire \<Rightarrow> cjson option" where
  "second_pod_net w = (if w = HttpGet ''http://10.0.0.7:8088/janus/info'' 2000
     then Some (push cJSON_CreateObject (str_item ''server-name'' ''pod-1'')) else None)"

theorem refresh_registers_pods_witness:
  "\<exists>q. serversFind alist_core (snd (serversRegistryRefresh alist_core second_pod_net
       (\<lambda>_. Some [Some ''10.0.0.6'', Some ''10.0.0.7'']) (Some (startServerThread True))
       (Some (stopServerThread sample_thread_env (\<lambda>_. 0))) headless_registry)) ''pod-1'' = Some q"
proof -
  have core: "core_table (e_core (v_env sample_thread_env))" "alist_core = e_core (v_env sample_thread_env)"
    using alist.core_table_axioms by (simp_all only: sample_thread_core)
  have parse: "serversParseHttpUrlParts ''http://svc:8088'' 256 16 128 = Some (''svc'', ''8088'', [])"
    by (simp add: serversParseHttpUrlParts_def url_scheme_def strncmp_eq_def snprintf_text_def)
  have ins: "fst (core_hash_insert alist_core t k p) = SWITCH_STATUS_SUCCESS" for t k p by simp
  have "pod_at second_pod_net ''8088'' ''/janus'' ''10.0.0.7'' = Some ''pod-1''"
    "pod_at second_pod_net ''8088'' ''/janus'' ''10.0.0.6'' = None"
    by (simp_all add: pod_at_def second_pod_net_def jstr_def pod_name_valid_iff pod_char_def)
  then have pods: "pods_found second_pod_net ''8088'' ''/janus'' [Some ''10.0.0.6'', Some ''10.0.0.7''] = [(''pod-1'', ''10.0.0.7'')]"
    by (simp add: pods_found_def answering_def)
  have path: "''/janus'' = (if [] = ([] :: string) then ''/janus'' else [])" by simp
  show ?thesis
    using refresh_registers_pods [where resolve = "\<lambda>_. Some [Some ''10.0.0.6'', Some ''10.0.0.7'']" and net = second_pod_net
        and sid = "\<lambda>_. 0", OF core headless_consistent ins headless_simps(5) _ headless_simps(6) parse refl path surjective_pairing] pods
    by auto
qed

text \<open>
  C23: a server's thread ends when it is told to, and cleans up. With the terminating flag set, the thread is
  finished after at most two steps from wherever it is; its exit leaves
  its session identifier out of the lookup, and an evicted dynamic server is
  no longer found under its name.
\<close>

theorem thread_stops:
  assumes "core_table (e_core (v_env v))" and "test_flag (srv (t_reg t) p) SFLAG_TERMINATING"
    and "t_pc t \<noteq> Finished"
  shows "\<exists>t'. cbind (thread_step v p t) (thread_step v p) = Inr t' \<and> t_pc t' = Finished
    \<and> hashFind (e_core (v_env v)) (w_serverIdLookup (r_world (t_reg t'))) (t_serverId t) = None
    \<and> (test_flag (srv (t_reg t) p) SFLAG_EVICTED \<and> test_flag (srv (t_reg t) p) SFLAG_DYNAMIC
        \<and> name (srv (t_reg t) p) = Some n \<longrightarrow> serversFind (e_core (v_env v)) (t_reg t') n = None)"
proof -
  let ?C = "e_core (v_env v)" and ?sid = "t_serverId t" and ?R = "t_reg t"
  let ?R' = "thread_done v p ?sid ?R"
  note fin = terminating_thread_exits [OF assms(2,3), of v]
  have del: "hashFind ?C (snd (hashDelete ?C h i)) j = (if j = i then None else hashFind ?C h j)" for h i j
    by (simp add: core_table.hashFind_hashDelete [OF assms(1)])
  have sid: "hashFind ?C (w_serverIdLookup (r_world ?R')) ?sid = None"
    by (auto simp: thread_done_def Let_def serversDynamicRemoveFromLookup_def del upd_srv_def
        split: option.splits)
  have ndel: "core_hash_find ?C (snd (core_hash_delete ?C h k)) k = None" for h k
    using core_table.delete_find [OF assms(1), of h k "fst (core_hash_delete ?C h k)" "snd (core_hash_delete ?C h k)" k]
    by simp
  have nm: "serversFind ?C ?R' n = None"
    if "test_flag (srv ?R p) SFLAG_EVICTED" "test_flag (srv ?R p) SFLAG_DYNAMIC" "name (srv ?R p) = Some n"
    using that by (auto simp: thread_done_def Let_def serversDynamicRemoveFromLookup_def serversFind_def ndel)
  show ?thesis using fin sid nm by auto
qed

theorem thread_stops_witness:
  "\<exists>t'. cbind (thread_step sample_thread_env 3
        \<lparr>t_pc = Polling, t_serverId = 5, t_reconnect = True,
         t_reg = upd_srv 3 (set_flag SFLAG_TERMINATING) sample_registry\<rparr>)
      (thread_step sample_thread_env 3) = Inr t' \<and> t_pc t' = Finished
    \<and> hashFind alist_core (w_serverIdLookup (r_world (t_reg t'))) 5 = None"
proof -
  let ?t = "\<lparr>t_pc = Polling, t_serverId = 5, t_reconnect = True,
      t_reg = upd_srv 3 (set_flag SFLAG_TERMINATING) sample_registry\<rparr>"
  have "core_table (e_core (v_env sample_thread_env))"
    using alist.core_table_axioms by (simp only: sample_thread_core)
  moreover have "test_flag (srv (t_reg ?t) 3) SFLAG_TERMINATING" by (simp add: test_set_flag)
  ultimately show ?thesis
    using thread_stops [of sample_thread_env ?t 3] by (auto simp: sample_thread_core)
qed

text \<open>
  When Janus no longer knows the session of a server, every call of that server is cleared. The
  thread hangs up each session of the handle table once, in the order of the table; when
  the sessions are entered under their own handles the table is empty afterwards.
\<close>

theorem session_lost_clears:
  assumes "core_table C" and "es = core_hash_entries C (pTable (senderIdLookup (srv R p)))"
  shows "w_trace (r_world (session_lost C p R)) =
      w_trace (r_world R) @ map (\<lambda>q. HangupChannel q CAUSE_DESTINATION_OUT_OF_ORDER) (map snd es)
    \<and> ((\<forall>i q. hashFind C (senderIdLookup (srv R p)) i = Some q \<longrightarrow> p_senderId (pvt (r_world R) q) = i) \<longrightarrow>
        (\<forall>i. hashFind C (senderIdLookup (srv (session_lost C p R) p)) i = None))"
proof -
  have run: "w_trace (r_world (fold (drop_call C p) qs R)) =
        w_trace (r_world R) @ map (\<lambda>q. HangupChannel q CAUSE_DESTINATION_OUT_OF_ORDER) qs
      \<and> hashFind C (senderIdLookup (srv (fold (drop_call C p) qs R) p)) i =
        (if i \<in> (\<lambda>q. p_senderId (pvt (r_world R) q)) ` set qs then None
         else hashFind C (senderIdLookup (srv R p)) i)" for qs R i
  proof (induction qs arbitrary: R)
    case (Cons q qs)
    have step: "w_trace (r_world (drop_call C p q R)) =
        w_trace (r_world R) @ [HangupChannel q CAUSE_DESTINATION_OUT_OF_ORDER]"
      "pvt (r_world (drop_call C p q R)) = pvt (r_world R)"
      "hashFind C (senderIdLookup (srv (drop_call C p q R) p)) =
        (hashFind C (senderIdLookup (srv R p)))(p_senderId (pvt (r_world R) q) := None)"
      by (simp_all add: drop_call_def Let_def upd_srv_def core_table.hashFind_hashDelete [OF assms(1)])
    show ?case using Cons.IH [of "drop_call C p q R"] step fun_cong [OF step(2)] by auto
  qed simp
  have "hashFind C (senderIdLookup (srv (session_lost C p R) p)) i = None"
    if own: "\<forall>i q. hashFind C (senderIdLookup (srv R p)) i = Some q \<longrightarrow> p_senderId (pvt (r_world R) q) = i" for i
  proof (cases "hashFind C (senderIdLookup (srv R p)) i")
    case None
    then show ?thesis using run [of "map snd es" R i] assms(2) by (simp add: session_lost_def)
  next
    case (Some q)
    then have "map_of es (idToStr i) = Some q"
      using core_table.entries_find [OF assms(1), of "pTable (senderIdLookup (srv R p))"] assms(2)
      by (simp add: hashFind_def)
    then have "q \<in> set (map snd es)" by (force dest: map_of_SomeD)
    moreover have "p_senderId (pvt (r_world R) q) = i" using own Some by blast
    ultimately show ?thesis using run [of "map snd es" R i] assms(2) by (force simp: session_lost_def)
  qed
  then show ?thesis using run [of "map snd es" R] assms(2) by (simp add: session_lost_def)
qed

theorem session_lost_clears_witness:
  "w_trace (r_world (session_lost alist_core 3 sample_registry)) =
     [HangupChannel 2 CAUSE_DESTINATION_OUT_OF_ORDER]"
  using session_lost_clears [OF alist.core_table_axioms refl, where R = sample_registry and p = 3]
  by (simp add: sample_registry_def sample_world_def zero_server_def)

end
