(* ===== verification/Dialling.thy ===== *)
theory Dialling
  imports Server_Thread
begin

unbundle bit_operations_syntax

text \<open>
  Dialling out (\<open>mod_janus.c\<close>): \<open>waitServerActive\<close>, \<open>resolveServerForDial\<close> and \<open>channel_outgoing_channel\<close>, and
  the state handlers and I/O routines that do nothing. While \<open>waitServerActive\<close> sleeps, the threads of the
  servers run: the parameter \<open>others\<close> is what they do to the registry during one sleep, by the time waited so
  far. The registry refresh is run with the module's thread functions.
\<close>

section \<open>Finding the server\<close>

definition active_server :: "'h core_hash \<Rightarrow> ptr \<Rightarrow> 'h registry \<Rightarrow> ptr option" where
  "active_server C p R =
     (let sid = serverId (srv R p) in
      if sid \<noteq> 0 then hashFind C (w_serverIdLookup (r_world R)) sid else None)"

function wait_active ::
  "'h core_hash \<Rightarrow> (int \<Rightarrow> 'h registry \<Rightarrow> 'h registry) \<Rightarrow> ptr \<Rightarrow> int \<Rightarrow> int \<Rightarrow> 'h registry \<Rightarrow> ptr option \<times> 'h registry" where
  "wait_active C others p timeout_ms waited R =
     (if waited < timeout_ms then
        (case active_server C p R of
           Some q \<Rightarrow> (Some q, R)
         | None \<Rightarrow> wait_active C others p timeout_ms (waited + 100) (others waited R))
      else (None, R))"
  by pat_completeness auto
termination
  by (relation "measure (\<lambda>(C, others, p, timeout_ms, waited, R). nat (timeout_ms - waited))") auto

declare wait_active.simps [simp del]

definition waitServerActive ::
  "'h core_hash \<Rightarrow> (int \<Rightarrow> 'h registry \<Rightarrow> 'h registry) \<Rightarrow> ptr \<Rightarrow> int \<Rightarrow> 'h registry \<Rightarrow> ptr option \<times> 'h registry" where
  "waitServerActive C others p timeout_ms R = wait_active C others p timeout_ms 0 R"

text \<open>What the functions below take from the core, the network and the other threads.\<close>

record 'h dial_env =
  d_core :: "'h core_hash"
  d_net :: "wire \<Rightarrow> cjson option"
  d_resolve :: "string \<Rightarrow> cstr list option"
  d_start :: "'h thread_fn"
  d_stop :: "'h thread_fn"
  d_others :: "int \<Rightarrow> 'h registry \<Rightarrow> 'h registry"

definition refresh_if_headless :: "'h dial_env \<Rightarrow> 'h registry \<Rightarrow> 'h registry" where
  "refresh_if_headless d R =
     (if zstr (r_headless_service_url R) then R
      else snd (serversRegistryRefresh (d_core d) (d_net d) (d_resolve d) (d_start d) (d_stop d) R))"

definition verify_identity :: "'h dial_env \<Rightarrow> ptr \<Rightarrow> 'h registry \<Rightarrow> bool \<times> 'h registry" where
  "verify_identity d p R =
     (if test_flag (srv R p) SFLAG_DYNAMIC then serversVerifyDynamicIdentity (d_net d) p R else (True, R))"

definition resolveServerForDial :: "'h dial_env \<Rightarrow> string \<Rightarrow> 'h registry \<Rightarrow> ptr option \<times> 'h registry" where
  "resolveServerForDial d pServerName R =
     (let C = d_core d;
          R = (if serversFind C R pServerName = None then refresh_if_headless d R else R)
      in case serversFind C R pServerName of
           None \<Rightarrow> (None, R)
         | Some p \<Rightarrow>
             let (ok, R) = verify_identity d p R in
             if ok then waitServerActive C (d_others d) p 10000 R
             else let found = (if zstr (r_headless_service_url R) then Some p
                               else serversFind C (refresh_if_headless d R) pServerName);
                      R = refresh_if_headless d R
                  in case found of
                       None \<Rightarrow> (None, R)
                     | Some p \<Rightarrow>
                         let (ok, R) = verify_identity d p R in
                         if ok then waitServerActive C (d_others d) p 10000 R else (None, R))"

section \<open>The outgoing channel\<close>

definition dial_media :: "'h server_t \<Rightarrow> private_object \<Rightarrow> private_object" where
  "dial_media s t =
     (let t = (if zstr (rtpip s) then t else t\<lparr>p_rtpip4 := rtpip s, p_rtpip := rtpip s\<rparr>);
          t = (if zstr (rtpip6 s) then t else t\<lparr>p_rtpip6 := rtpip6 s\<rparr>)
      in t\<lparr>p_local_network := local_network s, p_extrtpip := extrtpip s, p_serverId := serverId s\<rparr>)"

definition dial_room :: "string \<Rightarrow> string \<Rightarrow> private_object \<Rightarrow> private_object" where
  "dial_room display room t =
     (let (n, end) = strtoull10 room in
      t\<lparr>p_pDisplay := Some display, p_pRoomIdStr := Some room, p_roomId := if end = [] then n else 0\<rparr>)"

definition on_calls :: "core_call list \<Rightarrow> 'h registry \<Rightarrow> 'h registry" where
  "on_calls cs R = upd_world (fold emit cs) R"

definition on_pvt :: "ptr \<Rightarrow> (private_object \<Rightarrow> private_object) \<Rightarrow> 'h registry \<Rightarrow> 'h registry" where
  "on_pvt q f R = upd_world (upd_pvt q f) R"

text \<open>
  \<open>new_session\<close> is the session the core made, \<open>None\<close> if it could not; \<open>profile\<close> is \<open>None\<close> without a caller
  profile and otherwise its destination number.
\<close>

definition channel_outgoing_channel ::
  "'h dial_env \<Rightarrow> ptr option \<Rightarrow> cstr option \<Rightarrow> 'h registry \<Rightarrow> (call_cause \<times> 'h registry) cres" where
  "channel_outgoing_channel d new_session profile R =
     (case new_session of
        None \<Rightarrow> Inr (CAUSE_DESTINATION_OUT_OF_ORDER, R)
      | Some q \<Rightarrow>
          let error = (\<lambda>cause R. Inr (cause, on_calls [DestroySession q] R)) in
          (case profile of
             None \<Rightarrow> error CAUSE_DESTINATION_OUT_OF_ORDER R
           | Some destination \<Rightarrow>
               cbind (deref destination) (\<lambda>pDialStr.
               cbind (strncat 2048 ''janus/'' pDialStr (2048 - 7)) (\<lambda>channelName.
               let R = on_calls [SetName q channelName] R in
               case strchr_split (CHR ''/'') pDialStr of
                 None \<Rightarrow> error CAUSE_PROTOCOL_ERROR R
               | Some (pServerName, pCurr) \<Rightarrow>
                   (case resolveServerForDial d pServerName R of
                      (None, R) \<Rightarrow> error CAUSE_NO_ROUTE_DESTINATION R
                    | (Some p, R) \<Rightarrow>
                        if \<not> test_flag (srv R p) SFLAG_ENABLED then Inr (CAUSE_OUTGOING_CALL_BARRED, R)
                        else let R = on_calls [AddStream q] R;
                                 R = on_pvt q (\<lambda>_. zero_private) R;
                                 R = on_calls [CreateMediaHandle q] R;
                                 R = on_pvt q (dial_media (srv R p)) R
                             in case strchr_split (CHR ''@'') pCurr of
                                  None \<Rightarrow> error CAUSE_PROTOCOL_ERROR R
                                | Some (display, room) \<Rightarrow>
                                    let R = on_pvt q (dial_room display room) R;
                                        R = on_calls [SetCallerProfile q] R;
                                        R = on_pvt q (set_pflag TFLAG_OUTBOUND) R
                                    in Inr (CAUSE_SUCCESS, on_calls [SetStateInit q] R))))))"

section \<open>Handlers without effect\<close>

definition channel_on_exchange_media :: "ptr \<Rightarrow> 'h step" where
  "channel_on_exchange_media p w = Inr (SWITCH_STATUS_SUCCESS, w)"

definition channel_on_soft_execute :: "ptr \<Rightarrow> 'h step" where
  "channel_on_soft_execute p w = Inr (SWITCH_STATUS_SUCCESS, w)"

definition channel_send_dtmf :: "ptr \<Rightarrow> 'h step" where
  "channel_send_dtmf p w = Inr (SWITCH_STATUS_SUCCESS, w)"

definition channel_receive_event :: "ptr \<Rightarrow> 'h step" where
  "channel_receive_event p w = Inr (SWITCH_STATUS_SUCCESS, w)"

section \<open>Waiting for the server\<close>

text \<open>The registry after the other threads have run during \<open>j\<close> sleeps of 100 ms.\<close>

fun others_run :: "(int \<Rightarrow> 'h registry \<Rightarrow> 'h registry) \<Rightarrow> nat \<Rightarrow> 'h registry \<Rightarrow> 'h registry" where
  "others_run others 0 R = R"
| "others_run others (Suc j) R = others (100 * int j) (others_run others j R)"

lemma wait_active_from:
  assumes "i \<le> 100"
  shows "wait_active C others p 10000 (100 * int i) (others_run others i R) =
    (case filter (\<lambda>j. active_server C p (others_run others j R) \<noteq> None) [i..<100] of
       [] \<Rightarrow> (None, others_run others 100 R)
     | j # _ \<Rightarrow> (active_server C p (others_run others j R), others_run others j R))"
  using assms
proof (induction "100 - i" arbitrary: i)
  case 0
  then show ?case by (simp add: wait_active.simps)
next
  case (Suc n)
  let ?R = "others_run others i R"
  have "i < 100" using Suc.hyps(2) by simp
  then have up: "[i..<100] = i # [Suc i..<100]" by (rule upt_conv_Cons)
  have step: "100 * int i + 100 = 100 * int (Suc i)" by simp
  show ?case
  proof (cases "active_server C p ?R")
    case None
    then have "wait_active C others p 10000 (100 * int i) ?R =
        wait_active C others p 10000 (100 * int (Suc i)) (others_run others (Suc i) R)"
      using \<open>i < 100\<close> by (subst wait_active.simps) (simp add: step)
    also have "\<dots> = (case filter (\<lambda>j. active_server C p (others_run others j R) \<noteq> None) [Suc i..<100] of
       [] \<Rightarrow> (None, others_run others 100 R)
     | j # _ \<Rightarrow> (active_server C p (others_run others j R), others_run others j R))"
      using Suc.hyps(2) \<open>i < 100\<close> by (intro Suc.hyps(1)) auto
    finally show ?thesis using None up by simp
  next
    case (Some q)
    with up \<open>i < 100\<close> show ?thesis by (simp add: wait_active.simps)
  qed
qed

lemma filter_upt_Cons:
  assumes "filter P [i..<n] = j # js"
  shows "P j \<and> i \<le> j \<and> j < n \<and> (\<forall>k. i \<le> k \<and> k < j \<longrightarrow> \<not> P k)"
  using assms
proof (induction "n - i" arbitrary: i)
  case 0
  then show ?case by simp
next
  case (Suc m)
  then have "i < n" by simp
  then have up: "[i..<n] = i # [Suc i..<n]" by (rule upt_conv_Cons)
  show ?case
  proof (cases "P i")
    case True
    with Suc.prems up \<open>i < n\<close> show ?thesis by auto
  next
    case False
    have "P j \<and> Suc i \<le> j \<and> j < n \<and> (\<forall>k. Suc i \<le> k \<and> k < j \<longrightarrow> \<not> P k)"
      using Suc.hyps(2) Suc.prems False up by (intro Suc.hyps(1)) auto
    with False show ?thesis by (metis Suc_leD le_antisym not_less_eq_eq)
  qed
qed

lemma wait_server_found:
  assumes "waitServerActive C others p 10000 R = (Some q, R')"
  shows "\<exists>j < 100. R' = others_run others j R \<and> active_server C p R' = Some q"
proof -
  let ?P = "\<lambda>j. active_server C p (others_run others j R) \<noteq> None"
  from assms wait_active_from [of 0 C others p R]
  have eq: "(Some q, R') = (case filter ?P [0..<100] of
       [] \<Rightarrow> (None, others_run others 100 R)
     | j # _ \<Rightarrow> (active_server C p (others_run others j R), others_run others j R))"
    by (simp add: waitServerActive_def)
  then obtain j js where f: "filter ?P [0..<100] = j # js" by (cases "filter ?P [0..<100]") auto
  from filter_upt_Cons [OF f] f eq show ?thesis by auto
qed

text \<open>
  Waiting for a server. Within its ten seconds \<open>waitServerActive\<close> looks for the server a hundred times, 100 ms
  apart. If the other threads have registered it by one of these looks, the first such look finds it and
  nothing is waited for after that; if none does, the wait ends after ten seconds without a server.
\<close>

theorem wait_server_active:
  "(\<forall>j q. j < 100 \<and> active_server C p (others_run others j R) = Some q
       \<and> (\<forall>i < j. active_server C p (others_run others i R) = None) \<longrightarrow>
       waitServerActive C others p 10000 R = (Some q, others_run others j R))
   \<and> ((\<forall>j < 100. active_server C p (others_run others j R) = None) \<longrightarrow>
       waitServerActive C others p 10000 R = (None, others_run others 100 R))"
proof -
  let ?P = "\<lambda>j. active_server C p (others_run others j R) \<noteq> None"
  have w: "waitServerActive C others p 10000 R = (case filter ?P [0..<100] of
       [] \<Rightarrow> (None, others_run others 100 R)
     | j # _ \<Rightarrow> (active_server C p (others_run others j R), others_run others j R))"
    using wait_active_from [of 0 C others p R] by (simp add: waitServerActive_def)
  show ?thesis
  proof (intro conjI allI impI)
    fix j q
    assume a: "j < 100 \<and> active_server C p (others_run others j R) = Some q
       \<and> (\<forall>i < j. active_server C p (others_run others i R) = None)"
    then have "filter ?P [0..<100] \<noteq> []" by (auto simp: filter_empty_conv)
    then obtain k ks where f: "filter ?P [0..<100] = k # ks" by (meson neq_Nil_conv)
    from filter_upt_Cons [OF f] a have "k = j" by (metis le0 linorder_neqE_nat option.distinct(1))
    with w f a show "waitServerActive C others p 10000 R = (Some q, others_run others j R)" by simp
  next
    assume "\<forall>j < 100. active_server C p (others_run others j R) = None"
    then have "filter ?P [0..<100] = []" by simp
    with w show "waitServerActive C others p 10000 R = (None, others_run others 100 R)" by simp
  qed
qed


theorem wait_server_active_witness:
  "waitServerActive alist_core (\<lambda>t R. if t = 200 then upd_srv 3 (\<lambda>s. s\<lparr>serverId := 5\<rparr>) R else R) 3 10000
     (upd_srv 3 (\<lambda>s. s\<lparr>serverId := 0\<rparr>) sample_registry) =
   (Some 3, upd_srv 3 (\<lambda>s. s\<lparr>serverId := 5\<rparr>) (upd_srv 3 (\<lambda>s. s\<lparr>serverId := 0\<rparr>) sample_registry))"
proof -
  let ?R = "upd_srv 3 (\<lambda>s. s\<lparr>serverId := 0\<rparr>) sample_registry"
  let ?o = "\<lambda>t (R :: (string \<times> ptr) list registry). if t = 200 then upd_srv 3 (\<lambda>s. s\<lparr>serverId := 5\<rparr>) R else R"
  have run: "others_run ?o 0 ?R = ?R" "others_run ?o 1 ?R = ?R" "others_run ?o 2 ?R = ?R"
    "others_run ?o 3 ?R = upd_srv 3 (\<lambda>s. s\<lparr>serverId := 5\<rparr>) ?R"
    by (simp_all add: numeral_2_eq_2 numeral_3_eq_3)
  have early: "active_server alist_core 3 (others_run ?o i ?R) = None" if "i < 3" for i
    using that run(1-3) by (auto simp: active_server_def less_Suc_eq numeral_3_eq_3)
  have late: "active_server alist_core 3 (others_run ?o 3 ?R) = Some 3"
    unfolding run(4)
    by (simp add: active_server_def hashFind_def upd_srv_def sample_registry_def sample_world_def
        alist_core_def idToStr_def nat_str.simps digit_char_literals)
  from wait_server_active [of alist_core 3 ?o ?R] early late
  have "waitServerActive alist_core ?o 3 10000 ?R = (Some 3, others_run ?o 3 ?R)" by auto
  then show ?thesis unfolding run(4) .
qed


section \<open>Resolving and dialling\<close>

lemma fold_emit [simp]:
  "pvt (fold emit cs w) q = pvt w q" "w_trace (fold emit cs w) = w_trace w @ cs"
  "w_servers (fold emit cs w) = w_servers w"
  by (induction cs arbitrary: w) auto

lemma dial_simps [simp]:
  "srv (on_calls cs R) p = srv R p" "srv (on_pvt q f R) p = srv R p"
  "pvt (r_world (on_pvt q f R)) q = f (pvt (r_world R) q)"
  "w_trace (r_world (on_pvt q f R)) = w_trace (r_world R)"
  by (auto simp: on_calls_def on_pvt_def upd_world_def)

lemma on_calls_world [simp]:
  "pvt (r_world (on_calls cs R)) q = pvt (r_world R) q"
  "w_trace (r_world (on_calls cs R)) = w_trace (r_world R) @ cs"
  by (simp_all add: on_calls_def upd_world_def)

lemma verify_identity_result:
  assumes "verify_identity d p R = (ok, R')"
  shows "if ok then identity_checked (d_net d) R p else R' = R"
proof (cases "test_flag (srv R p) SFLAG_DYNAMIC")
  case True
  with assms have "serversVerifyDynamicIdentity (d_net d) p R = (ok, R')" by (simp add: verify_identity_def)
  then show ?thesis
    by (cases rule: verify_identity_cases) (auto simp: identity_checked_def)
qed (use assms in \<open>simp add: verify_identity_def identity_checked_def\<close>)

text \<open>
  A resolved server was found under the dialled name in the registry as it was, or refreshed once or twice, its
  identity was established there, and the wait for it then ended with the server returned.
\<close>

lemma resolve_server_sound:
  assumes "resolveServerForDial d n R = (Some q, R')"
  shows "\<exists>k p. k \<le> 2 \<and> serversFind (d_core d) ((refresh_if_headless d ^^ k) R) n = Some p
    \<and> identity_checked (d_net d) ((refresh_if_headless d ^^ k) R) p
    \<and> waitServerActive (d_core d) (d_others d) p 10000 (snd (verify_identity d p ((refresh_if_headless d ^^ k) R))) =
        (Some q, R')"
proof -
  let ?C = "d_core d" and ?rf = "refresh_if_headless d"
  define i :: nat where "i = (if serversFind ?C R n = None then 1 else 0)"
  define R1 where "R1 = (?rf ^^ i) R"
  have start: "(if serversFind ?C R n = None then ?rf R else R) = R1" by (simp add: R1_def i_def)
  note def = assms [unfolded resolveServerForDial_def Let_def start]
  then obtain p where p: "serversFind ?C R1 n = Some p" by (cases "serversFind ?C R1 n") auto
  obtain ok R2 where v: "verify_identity d p R1 = (ok, R2)" by (cases "verify_identity d p R1")
  show ?thesis
  proof (cases ok)
    case True
    with def p v have "waitServerActive ?C (d_others d) p 10000 R2 = (Some q, R')" by simp
    with True p v verify_identity_result [OF v] show ?thesis
      by (intro exI [of _ i] exI [of _ p]) (simp add: R1_def i_def)
  next
    case False
    with verify_identity_result [OF v] have R2: "R2 = R1" by simp
    let ?found = "if zstr (r_headless_service_url R1) then Some p else serversFind ?C (?rf R1) n"
    have found: "?found = serversFind ?C (?rf R1) n" using p by (simp add: refresh_if_headless_def)
    from def p v False R2 found obtain p' where p': "serversFind ?C (?rf R1) n = Some p'"
      by (cases "serversFind ?C (?rf R1) n") auto
    obtain ok' R3 where v': "verify_identity d p' (?rf R1) = (ok', R3)" by (cases "verify_identity d p' (?rf R1)")
    from def p v False R2 found p' v' have "ok'" and w: "waitServerActive ?C (d_others d) p' 10000 R3 = (Some q, R')"
      by (auto split: if_splits)
    with p' v' verify_identity_result [OF v'] show ?thesis
      by (intro exI [of _ "Suc i"] exI [of _ p']) (simp add: R1_def i_def)
  qed
qed


lemma channel_name_fits: "\<exists>cn. strncat 2048 ''janus/'' s (2048 - 7) = Inr cn"
  by (auto simp: strncat_def Let_def)

lemma outgoing_channel_cases:
  assumes "channel_outgoing_channel d (Some q) (Some (Some dest)) R = Inr (cause, R')"
  obtains cn where "strncat 2048 ''janus/'' dest (2048 - 7) = Inr cn" "CHR ''/'' \<notin> set dest"
      "cause = CAUSE_PROTOCOL_ERROR" "R' = on_calls [SetName q cn, DestroySession q] R"
  | (split) cn sname rest where "strncat 2048 ''janus/'' dest (2048 - 7) = Inr cn"
      "dest = sname @ CHR ''/'' # rest" "CHR ''/'' \<notin> set sname"
      "(case resolveServerForDial d sname (on_calls [SetName q cn] R) of
          (None, R1) \<Rightarrow> cause = CAUSE_NO_ROUTE_DESTINATION \<and> R' = on_calls [DestroySession q] R1
        | (Some p, R1) \<Rightarrow>
            if \<not> test_flag (srv R1 p) SFLAG_ENABLED then cause = CAUSE_OUTGOING_CALL_BARRED \<and> R' = R1
            else case strchr_split (CHR ''@'') rest of
                   None \<Rightarrow> cause = CAUSE_PROTOCOL_ERROR \<and> DestroySession q \<in> set (w_trace (r_world R'))
                 | Some (display, room) \<Rightarrow> cause = CAUSE_SUCCESS
                     \<and> w_trace (r_world R') = w_trace (r_world R1) @
                         [AddStream q, CreateMediaHandle q, SetCallerProfile q, SetStateInit q]
                     \<and> pvt (r_world R') q =
                         set_pflag TFLAG_OUTBOUND (dial_room display room (dial_media (srv R1 p) zero_private)))"
proof -
  obtain cn where cn: "strncat 2048 ''janus/'' dest (2048 - 7) = Inr cn" using channel_name_fits by blast
  show ?thesis
  proof (cases "strchr_split (CHR ''/'') dest")
    case None
    with assms cn that(1) show ?thesis
      by (simp add: channel_outgoing_channel_def strchr_split_None_iff on_calls_def upd_world_def)
  next
    case (Some e)
    then obtain sname rest where e: "strchr_split (CHR ''/'') dest = Some (sname, rest)" by (cases e) auto
    obtain r R1 where r: "resolveServerForDial d sname (on_calls [SetName q cn] R) = (r, R1)"
      by (cases "resolveServerForDial d sname (on_calls [SetName q cn] R)")
    from assms cn e r split [OF cn, of sname rest] show ?thesis
      by (cases "strchr_split (CHR ''@'') rest")
        (auto simp: channel_outgoing_channel_def strchr_split_Some_iff [of "CHR ''/''"] Let_def
          split: option.splits if_splits)
  qed
qed


text \<open>
  C27: a call is placed only on a verified, active and enabled server. When dialling succeeds, the part of the dial
  string before the first slash names a server that the registry held as it was or after at most two refreshes;
  the identity of that server was established there (it is a configured one, was verified less than five
  seconds ago, or its address answered with its name); within ten seconds it was registered under a nonzero
  identifier in the server table; and the server so found is enabled and is the one whose identifier the call leg stores.
\<close>

theorem dial_verified:
  assumes "channel_outgoing_channel d (Some q) (Some (Some dest)) R = Inr (CAUSE_SUCCESS, R')"
  shows "\<exists>sname display room cn k p sp j. dest = sname @ CHR ''/'' # display @ CHR ''@'' # room \<and> k \<le> 2 \<and> j < 100
    \<and> (let Rk = (refresh_if_headless d ^^ k) (on_calls [SetName q cn] R);
           Rj = others_run (d_others d) j (snd (verify_identity d p Rk))
       in serversFind (d_core d) Rk sname = Some p \<and> identity_checked (d_net d) Rk p
          \<and> serverId (srv Rj p) \<noteq> 0
          \<and> hashFind (d_core d) (w_serverIdLookup (r_world Rj)) (serverId (srv Rj p)) = Some sp
          \<and> test_flag (srv Rj sp) SFLAG_ENABLED
          \<and> p_serverId (pvt (r_world R') q) = serverId (srv Rj sp))"
  using assms
proof (cases rule: outgoing_channel_cases)
  case (split cn sname rest)
  then obtain sp R1 where r: "resolveServerForDial d sname (on_calls [SetName q cn] R) = (Some sp, R1)"
    by (auto split: prod.splits option.splits)
  with split(4) obtain display room where en: "test_flag (srv R1 sp) SFLAG_ENABLED"
    and "strchr_split (CHR ''@'') rest = Some (display, room)"
    and pv: "pvt (r_world R') q = set_pflag TFLAG_OUTBOUND (dial_room display room (dial_media (srv R1 sp) zero_private))"
    by (auto split: if_splits option.splits)
  then have dest: "dest = sname @ CHR ''/'' # display @ CHR ''@'' # room"
    using split(2) by (simp add: strchr_split_Some_iff)
  from resolve_server_sound [OF r] obtain k p Rk where k: "k \<le> 2"
    and Rk: "Rk = (refresh_if_headless d ^^ k) (on_calls [SetName q cn] R)"
    and f: "serversFind (d_core d) Rk sname = Some p" "identity_checked (d_net d) Rk p"
    and w: "waitServerActive (d_core d) (d_others d) p 10000 (snd (verify_identity d p Rk)) = (Some sp, R1)"
    by blast
  from wait_server_found [OF w] obtain j where j: "j < 100"
    "R1 = others_run (d_others d) j (snd (verify_identity d p Rk))"
    "active_server (d_core d) p R1 = Some sp" by blast
  have act: "serverId (srv R1 p) \<noteq> 0"
    "hashFind (d_core d) (w_serverIdLookup (r_world R1)) (serverId (srv R1 p)) = Some sp"
    using j(3) by (auto simp: active_server_def Let_def split: if_splits)
  have sid: "p_serverId (pvt (r_world R') q) = serverId (srv R1 sp)"
    by (simp add: pv set_pflag_def dial_room_def dial_media_def Let_def split: prod.splits)
  show ?thesis
    unfolding Let_def
    by (rule exI [of _ sname], rule exI [of _ display], rule exI [of _ room], rule exI [of _ cn],
        rule exI [of _ k], rule exI [of _ p], rule exI [of _ sp], rule exI [of _ j],
        fold Rk, fold j(2), intro conjI dest k j(1) f act en sid)
qed auto


text \<open>
  A registry with one configured, enabled and active server, and an environment in which nothing else happens.
\<close>

definition dial_registry :: "(string \<times> ptr) list registry" where
  "dial_registry = (upd_srv 3 (set_flag SFLAG_ENABLED) sample_registry)\<lparr>r_names := [(''demo'', 3)]\<rparr>"

definition quiet_dial :: "(string \<times> ptr) list dial_env" where
  "quiet_dial = \<lparr>d_core = alist_core, d_net = (\<lambda>_. None), d_resolve = (\<lambda>_. None), d_start = None,
     d_stop = None, d_others = (\<lambda>t R. R)\<rparr>"

lemma dial_registry_simps:
  "serversFind alist_core dial_registry ''demo'' = Some 3" "\<not> test_flag (srv dial_registry 3) SFLAG_DYNAMIC"
  "test_flag (srv dial_registry 3) SFLAG_ENABLED" "serverId (srv dial_registry 3) = 5"
  "hashFind alist_core (w_serverIdLookup (r_world dial_registry)) 5 = Some 3"
  by (simp_all add: dial_registry_def serversFind_def sample_registry_def sample_world_def test_flag_def set_flag_def
      SFLAG_DYNAMIC_def SFLAG_ENABLED_def upd_srv_def zero_server_def hashFind_def alist_core_def idToStr_def
      nat_str.simps digit_char_literals)

lemma on_calls_frame [simp]:
  "serversFind C (on_calls cs R) n = serversFind C R n"
  "w_serverIdLookup (r_world (on_calls cs R)) = w_serverIdLookup (r_world R)"
proof -
  have "w_serverIdLookup (fold emit cs w) = w_serverIdLookup w" for w :: "'h world"
    by (induction cs arbitrary: w) auto
  then show "w_serverIdLookup (r_world (on_calls cs R)) = w_serverIdLookup (r_world R)"
    by (simp add: on_calls_def upd_world_def)
qed (simp add: serversFind_def on_calls_def upd_world_def)

lemma dial_registry_resolves:
  "resolveServerForDial quiet_dial ''demo'' (on_calls cs dial_registry) = (Some 3, on_calls cs dial_registry)"
  by (simp add: resolveServerForDial_def quiet_dial_def verify_identity_def dial_registry_simps
      waitServerActive_def wait_active.simps [of alist_core "\<lambda>t R. R" 3] active_server_def Let_def)

theorem dial_verified_witness:
  "\<exists>R'. channel_outgoing_channel quiet_dial (Some 7) (Some (Some ''demo/Alice@1234'')) dial_registry =
     Inr (CAUSE_SUCCESS, R') \<and> (\<exists>sname. prefix (sname @ ''/'') ''demo/Alice@1234'' \<and> p_serverId (pvt (r_world R') 7) \<noteq> 0)"
proof -
  have s: "strchr_split (CHR ''/'') ''demo/Alice@1234'' = Some (''demo'', ''Alice@1234'')"
    "strchr_split (CHR ''@'') ''Alice@1234'' = Some (''Alice'', ''1234'')" by simp_all
  obtain R' where R': "channel_outgoing_channel quiet_dial (Some 7) (Some (Some ''demo/Alice@1234'')) dial_registry =
     Inr (CAUSE_SUCCESS, R')" "p_serverId (pvt (r_world R') 7) = 5"
    by (simp add: channel_outgoing_channel_def strncat_def Let_def s dial_registry_resolves dial_registry_simps
        set_pflag_def dial_room_def dial_media_def split: prod.splits)
  from dial_verified [OF R'(1)] obtain sname rest where "''demo/Alice@1234'' = sname @ CHR ''/'' # rest" by blast
  then have "prefix (sname @ ''/'') ''demo/Alice@1234''" by (simp add: prefix_def)
  with R' show ?thesis by auto
qed

text \<open>
  Every failed dialling attempt destroys the session it requested, except one to a disabled server, which leaves it.
\<close>

lemma dial_failure_destroys:
  assumes "channel_outgoing_channel d (Some q) (Some (Some dest)) R = Inr (cause, R')" "cause \<noteq> CAUSE_SUCCESS"
  shows "DestroySession q \<in> set (w_trace (r_world R')) \<or> cause = CAUSE_OUTGOING_CALL_BARRED"
  using assms(1)
proof (cases rule: outgoing_channel_cases)
  case (split cn sname rest)
  with assms(2) show ?thesis by (auto split: prod.splits option.splits if_splits)
qed auto

text \<open>
  C28: a well-formed dial string is taken apart as written. Dialling \<open>server/display@room\<close>, where the server
  resolves and is enabled, succeeds without a buffer overrun; the call leg keeps the display name and the room as
  text, the number of the room if its text is a decimal number below \<open>2 ^ 64\<close>, the identifier and the addresses
  of the server, and the outbound flag that \<open>channel_on_init\<close> asks for; the session is sent into its initial state
  last, and it is not destroyed.
\<close>

theorem dial_stores_target:
  assumes dest: "dest = sname @ CHR ''/'' # display @ CHR ''@'' # room"
    and "CHR ''/'' \<notin> set sname" "CHR ''@'' \<notin> set display"
    and res: "resolveServerForDial d sname (on_calls [SetName q (take 2047 (''janus/'' @ dest))] R) = (Some p, R1)"
    and en: "test_flag (srv R1 p) SFLAG_ENABLED"
  shows "\<exists>R'. channel_outgoing_channel d (Some q) (Some (Some dest)) R = Inr (CAUSE_SUCCESS, R')
    \<and> w_trace (r_world R') = w_trace (r_world R1) @ [AddStream q, CreateMediaHandle q, SetCallerProfile q, SetStateInit q]
    \<and> (let t = pvt (r_world R') q; s = srv R1 p in
        p_pDisplay t = Some display \<and> p_pRoomIdStr t = Some room
        \<and> (\<forall>n < 2 ^ 64. room = nat_str n \<longrightarrow> p_roomId t = of_nat n)
        \<and> p_serverId t = serverId s \<and> p_extrtpip t = extrtpip s \<and> p_local_network t = local_network s
        \<and> (\<not> zstr (rtpip s) \<longrightarrow> p_rtpip t = rtpip s) \<and> test_pflag t TFLAG_OUTBOUND)"
proof -
  have cn: "strncat 2048 ''janus/'' dest (2048 - 7) = Inr (take 2047 (''janus/'' @ dest))"
    by (auto simp: strncat_def Let_def)
  have s1: "strchr_split (CHR ''/'') dest = Some (sname, display @ CHR ''@'' # room)"
    using assms(2) by (simp add: dest strchr_split_append)
  have s2: "strchr_split (CHR ''@'') (display @ CHR ''@'' # room) = Some (display, room)"
    using assms(3) by (simp add: strchr_split_append)
  obtain cause R' where r: "channel_outgoing_channel d (Some q) (Some (Some dest)) R = Inr (cause, R')"
    using cn s1 s2 res en by (simp add: channel_outgoing_channel_def Let_def)
  from r show ?thesis
  proof (cases rule: outgoing_channel_cases)
    case (split cn' sname' rest)
    from split(2,3) s1 have eq: "sname' = sname" "rest = display @ CHR ''@'' # room"
      using strchr_split_append [of "CHR ''/''" sname' rest] by auto
    from split(1) cn have "cn' = take 2047 (''janus/'' @ dest)" by simp
    with split(4) eq s2 res en have out: "cause = CAUSE_SUCCESS"
        "w_trace (r_world R') = w_trace (r_world R1) @ [AddStream q, CreateMediaHandle q, SetCallerProfile q, SetStateInit q]"
        "pvt (r_world R') q = set_pflag TFLAG_OUTBOUND (dial_room display room (dial_media (srv R1 p) zero_private))"
      by auto
    then show ?thesis
      using r by (auto simp: Let_def dial_room_def dial_media_def set_pflag_def test_pflag_def TFLAG_OUTBOUND_def
          strtoull10_nat_str zero_private_def split: prod.splits)
  qed (use dest in simp)
qed

theorem dial_stores_target_witness:
  "\<exists>R'. channel_outgoing_channel quiet_dial (Some 7) (Some (Some ''demo/Alice@1234'')) dial_registry =
     Inr (CAUSE_SUCCESS, R') \<and> p_pDisplay (pvt (r_world R') 7) = Some ''Alice'' \<and> p_roomId (pvt (r_world R') 7) = 1234"
proof -
  have room: "''1234'' = nat_str 1234" by (simp add: nat_str.simps digit_char_literals)
  have "\<exists>R'. channel_outgoing_channel quiet_dial (Some 7) (Some (Some ''demo/Alice@1234'')) dial_registry =
     Inr (CAUSE_SUCCESS, R') \<and> p_pDisplay (pvt (r_world R') 7) = Some ''Alice''
     \<and> (\<forall>n < 2 ^ 64. ''1234'' = nat_str n \<longrightarrow> p_roomId (pvt (r_world R') 7) = of_nat n)"
    using dial_stores_target [of "''demo/Alice@1234''" "''demo''" "''Alice''" "''1234''", OF _ _ _ dial_registry_resolves]
    by (fastforce simp: Let_def dial_registry_simps)
  then obtain R' where R': "channel_outgoing_channel quiet_dial (Some 7) (Some (Some ''demo/Alice@1234'')) dial_registry =
     Inr (CAUSE_SUCCESS, R')" "p_pDisplay (pvt (r_world R') 7) = Some ''Alice''"
     and n: "\<forall>n < 2 ^ 64. ''1234'' = nat_str n \<longrightarrow> p_roomId (pvt (r_world R') 7) = of_nat n" by blast
  from n [rule_format, of 1234] room have "p_roomId (pvt (r_world R') 7) = 1234" by simp
  with R' show ?thesis by blast
qed

end
