(* ===== verification/Websocket.thy ===== *)
theory Websocket
  imports Api
begin

text \<open>
  The WebSocket transport (\<open>janus_ws.c\<close>). One socket per server carries the replies to requests
  and the asynchronous events; the functions here sort the frames: a reply to the request in flight
  goes to its caller, an event that arrives meanwhile is put on the deferred list, and the
  pump of the server's thread dispatches the deferred events and then those on the socket.

  The socket of libks, the clock, the random strings and the JSON text functions are the
  parameter \<open>'k kws_ops\<close> over a socket state \<open>'k\<close>; the result of polling is the record of the
  flags the code tests. A callback of the dispatcher may itself make requests, so callbacks act on the whole
  context, of which the state \<open>'s\<close> of the module is a part. Memory allocation succeeds.
  The loops have a fuel argument; \<open>None\<close> means that it was not enough. The deferred list, which the
  code links with a head and a tail pointer, is a list.
\<close>

section \<open>The context\<close>

datatype kws_opcode_t = WSOC_TEXT | WSOC_OTHER

record poll_result =
  pr_negative :: bool
  pr_read :: bool
  pr_error :: bool
  pr_hup :: bool
  pr_invalid :: bool

record 'k kws_ops =
  kws_wait_sock :: "'k \<Rightarrow> u32 \<Rightarrow> poll_result \<times> 'k"
  kws_read_frame :: "'k \<Rightarrow> (int \<times> kws_opcode_t \<times> string) \<times> 'k"
  kws_write_frame :: "'k \<Rightarrow> string \<Rightarrow> int \<times> 'k"
  ks_time_now :: "'k \<Rightarrow> int \<times> 'k"
  ks_random_string :: "'k \<Rightarrow> string \<times> 'k"
  ks_parse :: "string \<Rightarrow> cjson option"
  ks_print :: "cjson \<Rightarrow> cstr"

record ('k, 's) janus_ws_ctx_t =
  ctx_connected :: bool
  ctx_kws :: 'k
  rpc_txn :: cstr
  rpc_result :: "cjson option"
  deferred :: "cjson list"
  ctx_last_activity :: "int option"
  ctx_module :: 's

definition JANUS_WS_PUMP_SLICE_MS :: int where "JANUS_WS_PUMP_SLICE_MS = 200"

type_synonym ('k, 's) handlers = "('k, 's) janus_ws_ctx_t callbacks option"

definition upd_kws :: "('k \<Rightarrow> 'a \<times> 'k) \<Rightarrow> ('k, 's) janus_ws_ctx_t \<Rightarrow> 'a \<times> ('k, 's) janus_ws_ctx_t" where
  "upd_kws f c = (let (a, k) = f (ctx_kws c) in (a, c\<lparr>ctx_kws := k\<rparr>))"

section \<open>Sorting the frames\<close>

definition janus_ws_defer_event :: "cjson \<Rightarrow> ('k, 's) janus_ws_ctx_t \<Rightarrow> ('k, 's) janus_ws_ctx_t" where
  "janus_ws_defer_event json c = c\<lparr>deferred := deferred c @ [json]\<rparr>"

definition janus_ws_match_rpc_reply ::
  "cjson \<Rightarrow> ('k, 's) janus_ws_ctx_t \<Rightarrow> (bool \<times> ('k, 's) janus_ws_ctx_t) cres" where
  "janus_ws_match_rpc_reply json c =
     (case rpc_txn c of
        None \<Rightarrow> Inr (False, c)
      | Some t \<Rightarrow>
          let txn = getcs (Some json) ''transaction''; jt = getcs (Some json) ''janus'' in
          if \<not> cJSON_IsString txn \<or> \<not> cJSON_IsString jt then Inr (False, c)
          else cbind (deref (valuestring (the txn))) (\<lambda>x.
               if x \<noteq> t then Inr (False, c)
               else cbind (deref (valuestring (the jt))) (\<lambda>j.
                    if j \<noteq> ''success'' \<and> j \<noteq> ''ack'' \<and> j \<noteq> ''error'' then Inr (False, c)
                    else Inr (True, c\<lparr>rpc_result := Some json\<rparr>))))"

definition janus_ws_dispatch_event ::
  "('k, 's) janus_ws_ctx_t callbacks \<Rightarrow> cjson \<Rightarrow> ('k, 's) janus_ws_ctx_t \<Rightarrow> ('k, 's) janus_ws_ctx_t cres" where
  "janus_ws_dispatch_event cb json c = api_dispatch_poll_event cb (Some json) c"

definition ws_frame ::
  "('k, 's) handlers \<Rightarrow> cjson \<Rightarrow> ('k, 's) janus_ws_ctx_t \<Rightarrow> ('k, 's) janus_ws_ctx_t cres" where
  "ws_frame d json c =
     cbind (janus_ws_match_rpc_reply json c) (\<lambda>(matched, c).
       if matched then Inr c
       else case d of Some cb \<Rightarrow> janus_ws_dispatch_event cb json c
                    | None \<Rightarrow> Inr (janus_ws_defer_event json c))"

text \<open>One round of the loop of \<open>janus_ws_drain\<close>: a status ends the loop.\<close>

definition drain_round ::
  "'k kws_ops \<Rightarrow> ('k, 's) handlers \<Rightarrow> ('k, 's) janus_ws_ctx_t \<Rightarrow>
   (switch_status_t option \<times> ('k, 's) janus_ws_ctx_t) cres" where
  "drain_round K d c =
     (let (pr, c) = upd_kws (\<lambda>k. kws_wait_sock K k 0) c in
      if pr_negative pr \<or> pr_invalid pr \<or> (pr_error pr \<and> \<not> pr_read pr)
      then Inr (Some SWITCH_STATUS_FALSE, c)
      else if \<not> pr_read pr then Inr (Some SWITCH_STATUS_SUCCESS, c)
      else let ((bytes, oc, text), c) = upd_kws (kws_read_frame K) c in
           if bytes < 0 then Inr (Some SWITCH_STATUS_FALSE, c)
           else if bytes = 0 then Inr (Some SWITCH_STATUS_SUCCESS, c)
           else if oc \<noteq> WSOC_TEXT then Inr (None, c)
           else case ks_parse K text of
                  None \<Rightarrow> Inr (None, c)
                | Some json \<Rightarrow> cbind (ws_frame d json c) (\<lambda>c. Inr (None, c)))"

fun janus_ws_drain ::
  "nat \<Rightarrow> 'k kws_ops \<Rightarrow> ('k, 's) handlers \<Rightarrow> ('k, 's) janus_ws_ctx_t \<Rightarrow>
   (switch_status_t \<times> ('k, 's) janus_ws_ctx_t) cres option" where
  "janus_ws_drain 0 K d c = None"
| "janus_ws_drain (Suc n) K d c =
     (case drain_round K d c of
        Inl u \<Rightarrow> Some (Inl u)
      | Inr (Some st, c) \<Rightarrow> Some (Inr (st, c))
      | Inr (None, c) \<Rightarrow> janus_ws_drain n K d c)"

definition janus_ws_flush_deferred ::
  "('k, 's) handlers \<Rightarrow> ('k, 's) janus_ws_ctx_t \<Rightarrow> ('k, 's) janus_ws_ctx_t cres" where
  "janus_ws_flush_deferred d c =
     (let nodes = deferred c; c = c\<lparr>deferred := []\<rparr> in
      case d of Some cb \<Rightarrow> dispatch_events cb nodes c | None \<Rightarrow> Inr c)"

section \<open>Requests\<close>

text \<open>The wait of one round, in C's arithmetic: the quotient of a negative number rounds towards 0 and the
  conversion to 32 bits wraps.\<close>

definition rpc_slice_ms :: "int \<Rightarrow> u32" where
  "rpc_slice_ms remaining =
     (let m = (if remaining < 100000 then remaining else 100000)
      in word_of_int (if m < 0 then - ((- m) div 1000) else m div 1000))"

fun rpc_wait ::
  "nat \<Rightarrow> 'k kws_ops \<Rightarrow> int \<Rightarrow> ('k, 's) janus_ws_ctx_t \<Rightarrow> ('k, 's) janus_ws_ctx_t cres option" where
  "rpc_wait 0 K deadline c = None"
| "rpc_wait (Suc n) K deadline c =
     (if rpc_result c \<noteq> None then Some (Inr c)
      else let (now, c) = upd_kws (ks_time_now K) c in
      if \<not> now < deadline then Some (Inr c)
      else let (now, c) = upd_kws (ks_time_now K) c;
               (pr, c) = upd_kws (\<lambda>k. kws_wait_sock K k (rpc_slice_ms (deadline - now))) c in
           if pr_negative pr \<or> pr_invalid pr \<or> (pr_error pr \<and> \<not> pr_read pr) then Some (Inr c)
           else if pr_read pr then
             (case janus_ws_drain n K None c of
                None \<Rightarrow> None
              | Some (Inl u) \<Rightarrow> Some (Inl u)
              | Some (Inr (st, c)) \<Rightarrow>
                  if st \<noteq> SWITCH_STATUS_SUCCESS then Some (Inr c) else rpc_wait n K deadline c)
           else rpc_wait n K deadline c)"

definition rpc_finish ::
  "('k, 's) janus_ws_ctx_t cres option \<Rightarrow> (cjson option \<times> ('k, 's) janus_ws_ctx_t) cres option" where
  "rpc_finish r = map_option (\<lambda>x. cbind x (\<lambda>c.
     Inr (rpc_result c, c\<lparr>rpc_txn := None, rpc_result := None\<rparr>))) r"

definition janus_ws_rpc_json ::
  "nat \<Rightarrow> 'k kws_ops \<Rightarrow> cjson option \<Rightarrow> cstr \<Rightarrow> int \<Rightarrow> ('k, 's) janus_ws_ctx_t \<Rightarrow>
   (cjson option \<times> ('k, 's) janus_ws_ctx_t) cres option" where
  "janus_ws_rpc_json n K request transaction timeout_us c =
     (if \<not> ctx_connected c \<or> request = None \<or> transaction = None then Some (Inr (None, c))
      else case ks_print K (the request) of
        None \<Rightarrow> Some (Inr (None, c))
      | Some payload \<Rightarrow>
          let (written, c) = upd_kws (\<lambda>k. kws_write_frame K k payload) c in
          if written < 0 then Some (Inr (None, c))
          else let c = c\<lparr>rpc_txn := transaction, rpc_result := None\<rparr>;
                   (now, c) = upd_kws (ks_time_now K) c
               in rpc_finish (rpc_wait n K (now + timeout_us) c))"


section \<open>The pump\<close>

definition JANUS_WS_DEFAULT_RPC_US :: int where "JANUS_WS_DEFAULT_RPC_US = 15 * 1000000"

definition keepalive_armed :: "janus_id_t \<Rightarrow> int \<Rightarrow> ('k, 's) janus_ws_ctx_t \<Rightarrow> bool" where
  "keepalive_armed sid interval c \<longleftrightarrow>
     interval > 0 \<and> sid \<noteq> 0 \<and> (case ctx_last_activity c of None \<Rightarrow> False | Some t \<Rightarrow> t > 0)"

definition keepalive_request :: "janus_id_t \<Rightarrow> cstr \<Rightarrow> string \<Rightarrow> cjson" where
  "keepalive_request sid secret txn =
     (let add = (\<lambda>k v j. case cJSON_AddStringToObject j k v of None \<Rightarrow> j | Some j' \<Rightarrow> j');
          j = add ''janus'' (Some ''keepalive'') cJSON_CreateObject;
          j = (case cJSON_AddRawToObject j ''session_id'' (Some (snprintf_text 32 (nat_str (unat sid)))) of
                 None \<Rightarrow> j | Some j' \<Rightarrow> j');
          j = add ''transaction'' (Some txn) j
      in if secret \<noteq> None then add ''apisecret'' secret j else j)"

definition pump_keepalive ::
  "nat \<Rightarrow> 'k kws_ops \<Rightarrow> janus_id_t \<Rightarrow> cstr \<Rightarrow> int \<Rightarrow> ('k, 's) janus_ws_ctx_t \<Rightarrow>
   ('k, 's) janus_ws_ctx_t cres option" where
  "pump_keepalive n K sid secret interval c =
     (if \<not> keepalive_armed sid interval c then Some (Inr c)
      else let (now, c) = upd_kws (ks_time_now K) c in
      if \<not> now - the (ctx_last_activity c) > interval then Some (Inr c)
      else let (txn, c) = upd_kws (ks_random_string K) c in
           map_option (\<lambda>r. cbind r (\<lambda>(resp, c).
             let (now, c) = upd_kws (ks_time_now K) c in Inr (c\<lparr>ctx_last_activity := Some now\<rparr>)))
             (janus_ws_rpc_json n K (Some (keepalive_request sid secret txn)) (Some txn) JANUS_WS_DEFAULT_RPC_US c))"

definition pump_slice_ms :: "int \<Rightarrow> u32" where
  "pump_slice_ms remain_us =
     (let s = (if remain_us < JANUS_WS_PUMP_SLICE_MS * 1000 then word_of_int (remain_us div 1000)
               else word_of_int JANUS_WS_PUMP_SLICE_MS)
      in if s = 0 then 1 else s)"

fun pump_loop ::
  "nat \<Rightarrow> 'k kws_ops \<Rightarrow> int \<Rightarrow> ('k, 's) janus_ws_ctx_t callbacks \<Rightarrow> ('k, 's) janus_ws_ctx_t \<Rightarrow>
   (switch_status_t \<times> ('k, 's) janus_ws_ctx_t) cres option" where
  "pump_loop 0 K deadline cb c = None"
| "pump_loop (Suc n) K deadline cb c =
     (let (now, c) = upd_kws (ks_time_now K) c; remain_us = deadline - now in
      if remain_us \<le> 0 then Some (Inr (SWITCH_STATUS_SUCCESS, c))
      else case janus_ws_flush_deferred (Some cb) c of
        Inl u \<Rightarrow> Some (Inl u)
      | Inr c \<Rightarrow>
          let (pr, c) = upd_kws (\<lambda>k. kws_wait_sock K k (pump_slice_ms remain_us)) c in
          if pr_negative pr \<or> pr_invalid pr \<or> ((pr_error pr \<or> pr_hup pr) \<and> \<not> pr_read pr)
          then Some (Inr (SWITCH_STATUS_FALSE, c))
          else if pr_read pr then
            (case janus_ws_drain n K (Some cb) c of
               None \<Rightarrow> None
             | Some (Inl u) \<Rightarrow> Some (Inl u)
             | Some (Inr (st, c)) \<Rightarrow>
                 if st \<noteq> SWITCH_STATUS_SUCCESS then Some (Inr (SWITCH_STATUS_FALSE, c))
                 else if ctx_last_activity c = None then Some (Inr (SWITCH_STATUS_SUCCESS, c))
                 else let (now, c) = upd_kws (ks_time_now K) c
                      in Some (Inr (SWITCH_STATUS_SUCCESS, c\<lparr>ctx_last_activity := Some now\<rparr>)))
          else pump_loop n K deadline cb c)"



section \<open>Opening and closing\<close>

text \<open>
  libks is initialised by the first socket and shut down with the last; \<open>libks_live\<close> says whether
  \<open>ks_init\<close> was called after the last \<open>ks_shutdown\<close>.
\<close>

record libks =
  g_libks_ref_mutex :: bool
  g_libks_refs :: int
  libks_live :: bool

definition janus_ws_libks_acquire :: "libks \<Rightarrow> libks" where
  "janus_ws_libks_acquire L =
     (let L = L\<lparr>g_libks_ref_mutex := True\<rparr>; first = (g_libks_refs L = 0); L = L\<lparr>g_libks_refs := g_libks_refs L + 1\<rparr>
      in if first then L\<lparr>libks_live := True\<rparr> else L)"

definition janus_ws_libks_release :: "libks \<Rightarrow> libks" where
  "janus_ws_libks_release L =
     (if \<not> g_libks_ref_mutex L then L
      else if g_libks_refs L > 0 then
        (let L = L\<lparr>g_libks_refs := g_libks_refs L - 1\<rparr>
         in if g_libks_refs L = 0 then L\<lparr>libks_live := False\<rparr> else L)
      else L)"

definition janus_ws_mod_global_shutdown :: "libks \<Rightarrow> libks" where
  "janus_ws_mod_global_shutdown L =
     (if \<not> g_libks_ref_mutex L then L
      else if g_libks_refs L > 0 then L\<lparr>g_libks_refs := 0, libks_live := False\<rparr> else L)"

text \<open>
  Opening a server's socket; \<open>mem\<close> and \<open>kpool\<close> say whether the two pools could be created,
  \<open>connect\<close> is the socket of a successful connection to the given URL, \<open>last_poll\<close> the time of the
  server's last activity, which lives in the server.
\<close>

definition janus_ws_server_open ::
  "bool \<Rightarrow> bool \<Rightarrow> (cstr \<Rightarrow> 'k option) \<Rightarrow> cstr \<Rightarrow> int option \<Rightarrow> 's \<Rightarrow> libks \<times> ('k, 's) janus_ws_ctx_t option \<Rightarrow>
   switch_status_t \<times> libks \<times> ('k, 's) janus_ws_ctx_t option" where
  "janus_ws_server_open mem kpool connect url last_poll s = (\<lambda>(L, handle).
     if handle \<noteq> None then (SWITCH_STATUS_SUCCESS, L, handle)
     else let L = janus_ws_libks_acquire L in
          if \<not> mem then (SWITCH_STATUS_FALSE, janus_ws_libks_release L, None)
          else if \<not> kpool then (SWITCH_STATUS_FALSE, janus_ws_libks_release L, None)
          else case connect url of
                 None \<Rightarrow> (SWITCH_STATUS_FALSE, janus_ws_libks_release L, None)
               | Some k \<Rightarrow> (SWITCH_STATUS_SUCCESS, L,
                   Some \<lparr>ctx_connected = True, ctx_kws = k, rpc_txn = None, rpc_result = None,
                         deferred = [], ctx_last_activity = last_poll, ctx_module = s\<rparr>))"

definition janus_ws_server_close ::
  "libks \<times> ('k, 's) janus_ws_ctx_t option \<Rightarrow> libks \<times> ('k, 's) janus_ws_ctx_t option" where
  "janus_ws_server_close = (\<lambda>(L, handle).
     case handle of None \<Rightarrow> (L, None) | Some c \<Rightarrow> (janus_ws_libks_release L, None))"

section \<open>The socket as a history\<close>

text \<open>
  What the code relies on: \<open>seen\<close> is the sequence of JSON texts the socket has delivered so far; only
  reading a text frame extends it.
\<close>

locale ws_socket =
  fixes K :: "'k kws_ops" and seen :: "'k \<Rightarrow> cjson list"
  assumes wait_seen: "seen (snd (kws_wait_sock K k ms)) = seen k"
    and write_seen: "seen (snd (kws_write_frame K k text)) = seen k"
    and time_seen: "seen (snd (ks_time_now K k)) = seen k"
    and random_seen: "seen (snd (ks_random_string K k)) = seen k"
    and read_seen: "kws_read_frame K k = ((bytes, oc, text), k') \<Longrightarrow>
      seen k' = seen k @ (if 0 < bytes \<and> oc = WSOC_TEXT
        then (case ks_parse K text of None \<Rightarrow> [] | Some j \<Rightarrow> [j]) else [])"

text \<open>A frame is the reply to a transaction, in terms of its members.\<close>

definition rpc_reply :: "string \<Rightarrow> cjson \<Rightarrow> bool" where
  "rpc_reply t j \<longleftrightarrow> jstr j ''transaction'' = Some t
     \<and> jstr j ''janus'' \<in> {Some ''success'', Some ''ack'', Some ''error''}"

definition replies :: "('k, 's) janus_ws_ctx_t \<Rightarrow> cjson \<Rightarrow> bool" where
  "replies c j \<longleftrightarrow> (case rpc_txn c of None \<Rightarrow> False | Some t \<Rightarrow> rpc_reply t j)"

definition last_opt :: "'a option \<Rightarrow> 'a list \<Rightarrow> 'a option" where
  "last_opt d xs = (if xs = [] then d else Some (last xs))"

definition absorb :: "cjson list \<Rightarrow> 'k \<Rightarrow> ('k, 's) janus_ws_ctx_t \<Rightarrow> ('k, 's) janus_ws_ctx_t" where
  "absorb new k c = c\<lparr>ctx_kws := k, deferred := deferred c @ filter (\<lambda>j. \<not> replies c j) new,
     rpc_result := last_opt (rpc_result c) (filter (replies c) new)\<rparr>"

lemma last_opt_simps [simp]:
  "last_opt d [] = d" "last_opt (last_opt d xs) ys = last_opt d (xs @ ys)"
  by (simp_all add: last_opt_def)

lemma replies_absorb [simp]: "replies (absorb new k c) = replies c"
  by (simp add: absorb_def replies_def fun_eq_iff)

lemma absorb_absorb [simp]: "absorb ys k' (absorb xs k c) = absorb (xs @ ys) k' c"
proof -
  have "replies (absorb xs k c) = replies c" by simp
  then show ?thesis by (simp only: absorb_def [of ys]) (simp add: absorb_def)
qed

lemma absorb_Nil: "absorb [] k c = c\<lparr>ctx_kws := k\<rparr>"
  by (simp add: absorb_def)

lemma replies_kws [simp]: "replies (c\<lparr>ctx_kws := k\<rparr>) = replies c"
  by (simp add: replies_def fun_eq_iff)

lemma absorb_upd_kws [simp]: "absorb new k (c\<lparr>ctx_kws := k'\<rparr>) = absorb new k c"
  by (simp add: absorb_def)

lemma absorb_kws [simp]: "ctx_kws (absorb new k c) = k"
  by (simp add: absorb_def)

lemma match_spec:
  assumes "janus_ws_match_rpc_reply json c = Inr (b, c')"
  shows "b \<longleftrightarrow> replies c json" and "c' = (if b then c\<lparr>rpc_result := Some json\<rparr> else c)"
  using assms
  by (auto simp: janus_ws_match_rpc_reply_def replies_def rpc_reply_def jstr_def Let_def cbind_Inr_iff
      split: option.splits if_splits)

lemma frame_deferred:
  assumes "ws_frame None json c = Inr c'"
  shows "c' = absorb [json] (ctx_kws c) c"
proof (cases "janus_ws_match_rpc_reply json c")
  case (Inr x)
  then obtain b c1 where m: "janus_ws_match_rpc_reply json c = Inr (b, c1)" by (cases x) simp
  then have "c' = (if b then c1 else janus_ws_defer_event json c1)"
    using assms by (auto simp: ws_frame_def)
  then show ?thesis using match_spec [OF m] by (simp add: absorb_def janus_ws_defer_event_def last_opt_def)
qed (use assms in \<open>simp add: ws_frame_def\<close>)


lemma upd_kws_eq: "upd_kws f c = (a, c') \<Longrightarrow> a = fst (f (ctx_kws c)) \<and> c' = c\<lparr>ctx_kws := snd (f (ctx_kws c))\<rparr>"
  by (auto simp: upd_kws_def split: prod.splits)

lemma upd_kws_pair: "upd_kws f c = (fst (f (ctx_kws c)), c\<lparr>ctx_kws := snd (f (ctx_kws c))\<rparr>)"
  by (simp add: upd_kws_def split: prod.splits)

text \<open>The context after taking in the frames delivered since, none of them dispatched.\<close>

definition grown ::
  "('k \<Rightarrow> cjson list) \<Rightarrow> ('k, 's) janus_ws_ctx_t \<Rightarrow> ('k, 's) janus_ws_ctx_t \<Rightarrow> bool" where
  "grown seen c c' \<longleftrightarrow> (\<exists>new k. c' = absorb new k c \<and> seen k = seen (ctx_kws c) @ new)"

lemma grown_kws: "seen k = seen (ctx_kws c) \<Longrightarrow> grown seen c (c\<lparr>ctx_kws := k\<rparr>)"
  unfolding grown_def by (intro exI [of _ "[]"] exI [of _ k]) (simp add: absorb_Nil)

lemma grown_refl: "grown seen c c"
  using grown_kws [of seen "ctx_kws c" c] by simp

lemma grown_trans: "grown seen c c1 \<Longrightarrow> grown seen c1 c2 \<Longrightarrow> grown seen c c2"
  unfolding grown_def by (metis absorb_absorb absorb_kws append_assoc)

context ws_socket
begin

lemma drain_round_deferred:
  assumes "drain_round K None c = Inr (st, c')"
  shows "grown seen c c'"
proof -
  define k1 where "k1 = snd (kws_wait_sock K (ctx_kws c) 0)"
  obtain bytes oc tx k2 where rd: "kws_read_frame K k1 = ((bytes, oc, tx), k2)"
    by (metis prod.collapse)
  have s1: "seen k1 = seen (ctx_kws c)" by (simp add: k1_def wait_seen)
  note s2 = read_seen [OF rd]
  consider "c' = c\<lparr>ctx_kws := k1\<rparr>" | "c' = c\<lparr>ctx_kws := k2\<rparr>" "seen k2 = seen (ctx_kws c)"
    | json where "ws_frame None json (c\<lparr>ctx_kws := k2\<rparr>) = Inr c'" "seen k2 = seen (ctx_kws c) @ [json]"
    using assms s1 s2
    by (auto simp: drain_round_def upd_kws_pair rd Let_def cbind_Inr_iff k1_def [symmetric]
        split: if_splits option.splits)
  then show ?thesis
  proof cases
    case 3
    then show ?thesis using frame_deferred [OF 3(1)]
      unfolding grown_def by (intro exI [of _ "[json]"] exI [of _ k2]) simp
  qed (simp_all add: s1 grown_kws)
qed

lemma drain_deferred:
  "janus_ws_drain n K None c = Some (Inr (st, c')) \<Longrightarrow> grown seen c c'"
proof (induction n arbitrary: c)
  case (Suc n)
  from Suc.prems obtain r c1 where r: "drain_round K None c = Inr (r, c1)"
    by (auto split: sum.splits)
  note 1 = drain_round_deferred [OF r]
  show ?case
    using Suc.prems r 1 Suc.IH [of c1] grown_trans [OF 1] by (cases r) auto
qed simp

lemma rpc_wait_deferred:
  "rpc_wait n K deadline c = Some (Inr c') \<Longrightarrow> grown seen c c'"
proof (induction n arbitrary: c)
  case (Suc n)
  define k1 where "k1 = snd (ks_time_now K (ctx_kws c))"
  define k2 where "k2 = snd (ks_time_now K k1)"
  define pr where "pr = fst (kws_wait_sock K k2 (rpc_slice_ms (deadline - fst (ks_time_now K k1))))"
  define k3 where "k3 = snd (kws_wait_sock K k2 (rpc_slice_ms (deadline - fst (ks_time_now K k1))))"
  define c1 where "c1 = c\<lparr>ctx_kws := k3\<rparr>"
  have sn: "grown seen c (c\<lparr>ctx_kws := k1\<rparr>)" "grown seen c c1"
    by (simp_all add: k1_def k2_def k3_def c1_def grown_kws time_seen wait_seen)
  have step: "rpc_wait (Suc n) K deadline c =
    (if rpc_result c \<noteq> None then Some (Inr c)
     else if \<not> fst (ks_time_now K (ctx_kws c)) < deadline then Some (Inr (c\<lparr>ctx_kws := k1\<rparr>))
     else if pr_negative pr \<or> pr_invalid pr \<or> (pr_error pr \<and> \<not> pr_read pr) then Some (Inr c1)
     else if pr_read pr then
       (case janus_ws_drain n K None c1 of None \<Rightarrow> None | Some (Inl u) \<Rightarrow> Some (Inl u)
        | Some (Inr (st, c)) \<Rightarrow>
            if st \<noteq> SWITCH_STATUS_SUCCESS then Some (Inr c) else rpc_wait n K deadline c)
     else rpc_wait n K deadline c1)"
    by (simp add: upd_kws_pair Let_def k1_def k2_def k3_def pr_def c1_def)
  have drained: "grown seen c c2" if "janus_ws_drain n K None c1 = Some (Inr (st, c2))" for st c2
    using drain_deferred [OF that] sn(2) grown_trans by blast
  have again: "grown seen c c'" if "grown seen c c2" "rpc_wait n K deadline c2 = Some (Inr c')" for c2
    using that Suc.IH grown_trans by blast
  show ?case
    using Suc.prems sn drained grown_refl [of seen c] again unfolding step
    by (auto split: if_splits option.splits sum.splits prod.splits)
qed simp

text \<open>A request leaves the events it met on the deferred list, in order, and the reply to its caller.\<close>

lemma rpc_deferred:
  assumes "janus_ws_rpc_json n K (Some request) (Some t) timeout c = Some (Inr (r, c'))"
    and "rpc_txn c = None" and "rpc_result c = None"
  shows "\<exists>new k. seen k = seen (ctx_kws c) @ new \<and> r = last_opt None (filter (rpc_reply t) new)
    \<and> c' = c\<lparr>ctx_kws := k, deferred := deferred c @ filter (\<lambda>j. \<not> rpc_reply t j) new\<rparr>"
proof -
  have idle: "c\<lparr>rpc_txn := None, rpc_result := None\<rparr> = c" using assms(2,3) by simp
  have nil: ?thesis if "r = None" "c' = c\<lparr>ctx_kws := k\<rparr>" "seen k = seen (ctx_kws c)" for k
    using that by (intro exI [of _ "[]"] exI [of _ k]) simp
  consider "r = None" "c' = c" | k where "r = None" "c' = c\<lparr>ctx_kws := k\<rparr>" "seen k = seen (ctx_kws c)"
    | k d c1 where "rpc_wait n K d (c\<lparr>rpc_txn := Some t, rpc_result := None, ctx_kws := k\<rparr>) = Some (Inr c1)"
      "seen k = seen (ctx_kws c)" "r = rpc_result c1" "c' = c1\<lparr>rpc_txn := None, rpc_result := None\<rparr>"
    using assms(1)
    by (auto simp: janus_ws_rpc_json_def rpc_finish_def upd_kws_pair Let_def cbind_Inr_iff write_seen time_seen
        split: if_splits option.splits)
  then show ?thesis
  proof cases
    case 1
    then show ?thesis using nil [of "ctx_kws c"] by simp
  next
    case 2
    then show ?thesis by (rule nil)
  next
    case 3
    obtain new k' where "c1 = absorb new k' (c\<lparr>rpc_txn := Some t, rpc_result := None, ctx_kws := k\<rparr>)"
      "seen k' = seen k @ new"
      using rpc_wait_deferred [OF 3(1)] by (auto simp: grown_def)
    moreover have "replies (c\<lparr>rpc_txn := Some t, rpc_result := None\<rparr>) = rpc_reply t"
      by (simp add: replies_def fun_eq_iff)
    ultimately show ?thesis using 3(2-4) assms(2,3)
      by (intro exI [of _ new] exI [of _ k']) (simp add: absorb_def)
  qed
qed

end


section \<open>Callbacks that leave the connection alone\<close>

text \<open>A callback of the module that makes no request acts on the state of the module only.\<close>

definition on_module ::
  "('s \<Rightarrow> (switch_status_t \<times> 's) cres) \<Rightarrow> ('k, 's) janus_ws_ctx_t \<Rightarrow>
   (switch_status_t \<times> ('k, 's) janus_ws_ctx_t) cres" where
  "on_module f c = cbind (f (ctx_module c)) (\<lambda>(st, s). Inr (st, c\<lparr>ctx_module := s\<rparr>))"

definition module_handlers :: "'s callbacks \<Rightarrow> ('k, 's) janus_ws_ctx_t callbacks" where
  "module_handlers cb = \<lparr>
     pJoinedFunc = (\<lambda>sid hid r p. on_module (pJoinedFunc cb sid hid r p)),
     pAcceptedFunc = (\<lambda>sid hid sdp. on_module (pAcceptedFunc cb sid hid sdp)),
     pTrickleFunc = (\<lambda>sid hid x. on_module (pTrickleFunc cb sid hid x)),
     pAnswerOnWebrtcupFunc = map_option (\<lambda>f sid hid c. f sid hid (ctx_module c)) (pAnswerOnWebrtcupFunc cb),
     pAnsweredFunc = (\<lambda>sid hid. on_module (pAnsweredFunc cb sid hid)),
     pHungupFunc = (\<lambda>sid hid r. on_module (pHungupFunc cb sid hid r)),
     pParticipantFunc = map_option (\<lambda>f sid hid i self b. on_module (f sid hid i self b)) (pParticipantFunc cb)\<rparr>"

definition in_module :: "('k, 's) janus_ws_ctx_t \<Rightarrow> 's cres \<Rightarrow> ('k, 's) janus_ws_ctx_t cres" where
  "in_module c r = cbind r (\<lambda>s. Inr (c\<lparr>ctx_module := s\<rparr>))"

lemma in_module_simps [simp]: "in_module c (Inr s) = Inr (c\<lparr>ctx_module := s\<rparr>)" "in_module c (Inl u) = Inl u"
  by (simp_all add: in_module_def)

lemma in_module_again [simp]: "in_module (c\<lparr>ctx_module := s\<rparr>) r = in_module c r"
  by (cases r) simp_all

lemma run_cb_on_module: "run_cb (on_module f c) = in_module c (run_cb (f (ctx_module c)))"
  by (cases "f (ctx_module c)") (auto simp: run_cb_def on_module_def split: prod.splits)

lemma run_call_module:
  "run_call (module_handlers cb) sid hid x c = in_module c (run_call cb sid hid x (ctx_module c))"
  by (cases x) (auto simp: module_handlers_def run_cb_on_module split: option.splits)

lemma run_calls_module:
  "run_calls (module_handlers cb) sid hid xs c = in_module c (run_calls cb sid hid xs (ctx_module c))"
proof (induction xs arbitrary: c)
  case (Cons x xs)
  then show ?case by (cases "run_call cb sid hid x (ctx_module c)") (simp_all add: run_call_module)
qed simp

lemma dispatch_module:
  assumes "pParticipantFunc cb = Some f"
  shows "api_dispatch_poll_event (module_handlers cb) ev c =
    in_module c (api_dispatch_poll_event cb ev (ctx_module c))"
proof -
  have p: "pParticipantFunc (module_handlers cb) =
      Some (\<lambda>sid hid i self b. on_module (f sid hid i self b))"
    by (simp add: module_handlers_def assms)
  show ?thesis
    by (cases "decode ev") (auto simp: api_dispatch_poll_event_def dispatch_message_calls [OF assms]
        dispatch_message_calls [OF p] run_calls_module split: option.splits)
qed

lemma dispatch_events_module:
  assumes "pParticipantFunc cb = Some f"
  shows "dispatch_events (module_handlers cb) es c = in_module c (dispatch_events cb es (ctx_module c))"
proof (induction es arbitrary: c)
  case (Cons e es)
  then show ?case
    by (cases "api_dispatch_poll_event cb (Some e) (ctx_module c)") (simp_all add: dispatch_module [OF assms])
qed simp

lemma dispatch_events_append:
  "dispatch_events cb (xs @ ys) s = cbind (dispatch_events cb xs s) (dispatch_events cb ys)"
  by (induction xs arbitrary: s) (auto simp: cbind_assoc intro!: cbind_cong)


text \<open>The context after dispatching, in order, the deferred events and all frames delivered since.\<close>

definition pumped ::
  "('k \<Rightarrow> cjson list) \<Rightarrow> 's callbacks \<Rightarrow> ('k, 's) janus_ws_ctx_t \<Rightarrow> ('k, 's) janus_ws_ctx_t \<Rightarrow> bool" where
  "pumped seen cb c c' \<longleftrightarrow> (\<exists>k s new l. seen k = seen (ctx_kws c) @ new
     \<and> dispatch_events cb (deferred c @ new) (ctx_module c) = Inr s
     \<and> c' = c\<lparr>ctx_kws := k, deferred := [], ctx_last_activity := l, ctx_module := s\<rparr>)"

lemma pumped_kws: "seen k = seen (ctx_kws c) \<Longrightarrow> deferred c = [] \<Longrightarrow> pumped seen cb c (c\<lparr>ctx_kws := k\<rparr>)"
  unfolding pumped_def
  by (intro exI [of _ k] exI [of _ "ctx_module c"] exI [of _ "[]"] exI [of _ "ctx_last_activity c"]) simp

lemma pumped_trans:
  assumes "pumped seen cb c c1" and "pumped seen cb c1 c2"
  shows "pumped seen cb c c2"
proof -
  obtain k s new l where 1: "seen k = seen (ctx_kws c) @ new"
    "dispatch_events cb (deferred c @ new) (ctx_module c) = Inr s"
    "c1 = c\<lparr>ctx_kws := k, deferred := [], ctx_last_activity := l, ctx_module := s\<rparr>"
    using assms(1) by (auto simp: pumped_def)
  obtain k' s' new' l' where 2: "seen k' = seen k @ new'" "dispatch_events cb new' s = Inr s'"
    "c2 = c\<lparr>ctx_kws := k', deferred := [], ctx_last_activity := l', ctx_module := s'\<rparr>"
    using assms(2) 1(3) by (auto simp: pumped_def)
  have "dispatch_events cb (deferred c @ new @ new') (ctx_module c) = Inr s'"
    using 1(2) 2(2) by (simp add: dispatch_events_append [of cb "deferred c @ new", simplified])
  then show ?thesis
    unfolding pumped_def using 1(1) 2
    by (intro exI [of _ k'] exI [of _ s'] exI [of _ "new @ new'"] exI [of _ l']) simp
qed

lemma pumped_idle: "pumped seen cb c c' \<Longrightarrow> deferred c' = [] \<and> rpc_txn c' = rpc_txn c \<and> rpc_result c' = rpc_result c
    \<and> ctx_connected c' = ctx_connected c"
  by (auto simp: pumped_def)

context ws_socket
begin

lemma frame_dispatched:
  assumes "pParticipantFunc cb = Some f" and "rpc_txn c = None"
    and "ws_frame (Some (module_handlers cb)) json c = Inr c'"
  shows "\<exists>s. api_dispatch_poll_event cb (Some json) (ctx_module c) = Inr s \<and> c' = c\<lparr>ctx_module := s\<rparr>"
  using assms(2,3)
  by (cases "api_dispatch_poll_event cb (Some json) (ctx_module c)")
    (auto simp: ws_frame_def janus_ws_match_rpc_reply_def janus_ws_dispatch_event_def dispatch_module [OF assms(1)])

lemma drain_round_dispatched:
  assumes "pParticipantFunc cb = Some f" and "rpc_txn c = None" and "deferred c = []"
    and "drain_round K (Some (module_handlers cb)) c = Inr (st, c')"
  shows "pumped seen cb c c'"
proof -
  define k1 where "k1 = snd (kws_wait_sock K (ctx_kws c) 0)"
  obtain bytes oc tx k2 where rd: "kws_read_frame K k1 = ((bytes, oc, tx), k2)"
    by (metis prod.collapse)
  have s1: "seen k1 = seen (ctx_kws c)" by (simp add: k1_def wait_seen)
  note s2 = read_seen [OF rd]
  consider "c' = c\<lparr>ctx_kws := k1\<rparr>" | "c' = c\<lparr>ctx_kws := k2\<rparr>" "seen k2 = seen (ctx_kws c)"
    | json where "ws_frame (Some (module_handlers cb)) json (c\<lparr>ctx_kws := k2\<rparr>) = Inr c'"
        "seen k2 = seen (ctx_kws c) @ [json]"
    using assms(4) s1 s2
    by (auto simp: drain_round_def upd_kws_pair rd Let_def cbind_Inr_iff k1_def [symmetric]
        split: if_splits option.splits)
  then show ?thesis
  proof cases
    case 3
    then obtain s where "api_dispatch_poll_event cb (Some json) (ctx_module c) = Inr s"
      "c' = c\<lparr>ctx_kws := k2, ctx_module := s\<rparr>"
      using frame_dispatched [OF assms(1) _ 3(1)] assms(2) by auto
    then show ?thesis unfolding pumped_def using 3(2) assms(3)
      by (intro exI [of _ k2] exI [of _ s] exI [of _ "[json]"] exI [of _ "ctx_last_activity c"]) simp
  qed (simp_all add: s1 assms(3) pumped_kws)
qed

lemma drain_dispatched:
  assumes "pParticipantFunc cb = Some f" and "rpc_txn c = None" and "deferred c = []"
    and "janus_ws_drain n K (Some (module_handlers cb)) c = Some (Inr (st, c'))"
  shows "pumped seen cb c c'"
  using assms(2-4)
proof (induction n arbitrary: c)
  case (Suc n)
  from Suc.prems(3) obtain r c1 where r: "drain_round K (Some (module_handlers cb)) c = Inr (r, c1)"
    by (auto split: sum.splits)
  note 1 = drain_round_dispatched [OF assms(1) Suc.prems(1,2) r]
  show ?case
    using Suc.prems r 1 Suc.IH [of c1] pumped_trans [OF 1] pumped_idle [OF 1] by (cases r) auto
qed simp

lemma flush_dispatched:
  assumes "pParticipantFunc cb = Some f" and "janus_ws_flush_deferred (Some (module_handlers cb)) c = Inr c'"
  shows "pumped seen cb c c'"
proof -
  obtain s where "dispatch_events cb (deferred c) (ctx_module c) = Inr s"
    "c' = c\<lparr>deferred := [], ctx_module := s\<rparr>"
    using assms(2) by (cases "dispatch_events cb (deferred c) (ctx_module c)")
      (auto simp: janus_ws_flush_deferred_def Let_def dispatch_events_module [OF assms(1)])
  then show ?thesis unfolding pumped_def
    by (intro exI [of _ "ctx_kws c"] exI [of _ s] exI [of _ "[]"] exI [of _ "ctx_last_activity c"]) simp
qed

end


text \<open>A pump that ran out of time before its first round has done nothing.\<close>

definition untouched ::
  "('k \<Rightarrow> cjson list) \<Rightarrow> ('k, 's) janus_ws_ctx_t \<Rightarrow> ('k, 's) janus_ws_ctx_t \<Rightarrow> bool" where
  "untouched seen c c' \<longleftrightarrow> (\<exists>k. seen k = seen (ctx_kws c) \<and> c' = c\<lparr>ctx_kws := k\<rparr>)"

lemma pumped_activity:
  "pumped seen cb c c1 \<Longrightarrow> seen k = seen (ctx_kws c1) \<Longrightarrow> pumped seen cb c (c1\<lparr>ctx_kws := k, ctx_last_activity := l\<rparr>)"
  unfolding pumped_def by (elim exE conjE) (rule exI [of _ k], auto intro!: exI [of _ l])

context ws_socket
begin

lemma pump_loop_dispatched:
  assumes "pParticipantFunc cb = Some f" and "rpc_txn c = None"
    and "pump_loop n K deadline (module_handlers cb) c = Some (Inr (st, c'))"
  shows "pumped seen cb c c' \<or> (untouched seen c c' \<and> deadline \<le> fst (ks_time_now K (ctx_kws c)))"
  using assms(2,3)
proof (induction n arbitrary: c)
  case (Suc n)
  define now where "now = fst (ks_time_now K (ctx_kws c))"
  define c1 where "c1 = c\<lparr>ctx_kws := snd (ks_time_now K (ctx_kws c))\<rparr>"
  have s1: "seen (ctx_kws c1) = seen (ctx_kws c)" by (simp add: c1_def time_seen)
  have from1: "pumped seen cb c x" if "pumped seen cb c1 x" for x
    using that s1 unfolding pumped_def c1_def by auto
  show ?case
  proof (cases "deadline - now \<le> 0")
    case True
    then have "c' = c1" using Suc.prems(2) by (simp add: upd_kws_pair Let_def now_def c1_def)
    then show ?thesis using s1 True by (auto simp: untouched_def c1_def now_def)
  next
    case False
    obtain c2 where fl: "janus_ws_flush_deferred (Some (module_handlers cb)) c1 = Inr c2"
      using Suc.prems(2) False by (auto simp: upd_kws_pair Let_def now_def [symmetric] c1_def split: sum.splits)
    note p2 = flush_dispatched [OF assms(1) fl]
    define pr where "pr = fst (kws_wait_sock K (ctx_kws c2) (pump_slice_ms (deadline - now)))"
    define c3 where "c3 = c2\<lparr>ctx_kws := snd (kws_wait_sock K (ctx_kws c2) (pump_slice_ms (deadline - now)))\<rparr>"
    have p3: "pumped seen cb c c3" and idle: "rpc_txn c3 = None" "deferred c3 = []"
      using from1 [OF pumped_trans [OF p2 pumped_kws]] pumped_idle [OF p2] Suc.prems(1)
      by (simp_all add: c3_def c1_def wait_seen)
    have step: "pump_loop (Suc n) K deadline (module_handlers cb) c =
      (if pr_negative pr \<or> pr_invalid pr \<or> ((pr_error pr \<or> pr_hup pr) \<and> \<not> pr_read pr)
       then Some (Inr (SWITCH_STATUS_FALSE, c3))
       else if pr_read pr then
         (case janus_ws_drain n K (Some (module_handlers cb)) c3 of
            None \<Rightarrow> None
          | Some (Inl u) \<Rightarrow> Some (Inl u)
          | Some (Inr (st, c)) \<Rightarrow>
              if st \<noteq> SWITCH_STATUS_SUCCESS then Some (Inr (SWITCH_STATUS_FALSE, c))
              else if ctx_last_activity c = None then Some (Inr (SWITCH_STATUS_SUCCESS, c))
              else let (now, c) = upd_kws (ks_time_now K) c
                   in Some (Inr (SWITCH_STATUS_SUCCESS, c\<lparr>ctx_last_activity := Some now\<rparr>)))
       else pump_loop n K deadline (module_handlers cb) c3)"
      using False fl by (simp add: upd_kws_pair Let_def now_def c1_def c3_def pr_def)
    have drained: "pumped seen cb c x" if "janus_ws_drain n K (Some (module_handlers cb)) c3 = Some (Inr (st', x))"
      for st' x using pumped_trans [OF p3 drain_dispatched [OF assms(1) idle that]] .
    have again: "pumped seen cb c c'" if "pump_loop n K deadline (module_handlers cb) c3 = Some (Inr (st, c'))"
      using Suc.IH [OF idle(1) that] pumped_trans [OF p3] pumped_kws [OF _ idle(2)]
      by (auto simp: untouched_def)
    have stamped: "pumped seen cb c (x\<lparr>ctx_kws := snd (ks_time_now K (ctx_kws x)), ctx_last_activity := l\<rparr>)"
      if "pumped seen cb c x" for x l using pumped_activity [OF that] time_seen by blast
    show ?thesis
      using Suc.prems(2) p3 drained again stamped unfolding step
      by (auto simp: upd_kws_pair Let_def split: if_splits option.splits sum.splits prod.splits)
  qed
qed simp

lemma keepalive_deferred:
  assumes "pump_keepalive n K sid secret interval c = Some (Inr c')" and "rpc_txn c = None" and "rpc_result c = None"
  shows "\<exists>t new k l. seen k = seen (ctx_kws c) @ new
    \<and> c' = c\<lparr>ctx_kws := k, deferred := deferred c @ filter (\<lambda>j. \<not> rpc_reply t j) new, ctx_last_activity := l\<rparr>"
proof -
  have nil: ?thesis if "seen k = seen (ctx_kws c)" "c' = c\<lparr>ctx_kws := k\<rparr>" for k
    using that by (intro exI [of _ "[]"] exI [of _ k] exI [of _ "ctx_last_activity c"]) simp
  define k1 where "k1 = snd (ks_time_now K (ctx_kws c))"
  define t where "t = fst (ks_random_string K k1)"
  define c1 where "c1 = c\<lparr>ctx_kws := snd (ks_random_string K k1)\<rparr>"
  have s1: "seen k1 = seen (ctx_kws c)" "seen (ctx_kws c1) = seen (ctx_kws c)"
    by (simp_all add: k1_def c1_def time_seen random_seen)
  consider "c' = c" | "c' = c\<lparr>ctx_kws := k1\<rparr>"
    | r c2 l where "janus_ws_rpc_json n K (Some (keepalive_request sid secret t)) (Some t) JANUS_WS_DEFAULT_RPC_US c1
          = Some (Inr (r, c2))" "c' = c2\<lparr>ctx_kws := snd (ks_time_now K (ctx_kws c2)), ctx_last_activity := l\<rparr>"
    using assms(1)
    by (auto simp: pump_keepalive_def upd_kws_pair Let_def cbind_Inr_iff k1_def [symmetric] t_def [symmetric]
        c1_def [symmetric] split: if_splits)
  then show ?thesis
  proof cases
    case 3
    obtain new k where "seen k = seen (ctx_kws c1) @ new"
      "c2 = c1\<lparr>ctx_kws := k, deferred := deferred c1 @ filter (\<lambda>j. \<not> rpc_reply t j) new\<rparr>"
      using rpc_deferred [OF 3(1)] assms(2,3) by (auto simp: c1_def)
    then show ?thesis using 3(2) s1
      by (intro exI [of _ t] exI [of _ new] exI [of _ "snd (ks_time_now K k)"] exI [of _ l])
        (simp add: c1_def time_seen)
  next
    case 1
    then show ?thesis using nil [of "ctx_kws c"] by simp
  qed (use nil s1 in blast)
qed

end


section \<open>A socket that plays a script\<close>

text \<open>
  The state is the frames still to come, the texts delivered and a clock that advances with every reading; the
  frames are names for the JSON values of a table. An empty frame is a pause: polling finds nothing to read.
\<close>

type_synonym script = "string list \<times> cjson list \<times> int"

definition script_seen :: "script \<Rightarrow> cjson list" where "script_seen k = fst (snd k)"

definition ready_poll :: "bool \<Rightarrow> poll_result" where
  "ready_poll b = \<lparr>pr_negative = False, pr_read = b, pr_error = False, pr_hup = False, pr_invalid = False\<rparr>"

fun script_read :: "(string \<times> cjson) list \<Rightarrow> script \<Rightarrow> (int \<times> kws_opcode_t \<times> string) \<times> script" where
  "script_read tbl ([], sn, t) = ((- 1, WSOC_OTHER, []), ([], sn, t))"
| "script_read tbl (f # fs, sn, t) =
     ((int (length f), WSOC_TEXT, f),
      (fs, sn @ (if f = [] then [] else case map_of tbl f of None \<Rightarrow> [] | Some j \<Rightarrow> [j]), t))"

fun script_wait :: "script \<Rightarrow> poll_result \<times> script" where
  "script_wait ([], sn, t) = (ready_poll False, ([], sn, t))"
| "script_wait (f # fs, sn, t) =
     (if f = [] then (ready_poll False, (fs, sn, t)) else (ready_poll True, (f # fs, sn, t)))"

definition script_ops :: "(string \<times> cjson) list \<Rightarrow> script kws_ops" where
  "script_ops tbl = \<lparr>
     kws_wait_sock = (\<lambda>k ms. script_wait k),
     kws_read_frame = script_read tbl,
     kws_write_frame = (\<lambda>k text. (int (length text), k)),
     ks_time_now = (\<lambda>(fs, sn, t). (t + 1, (fs, sn, t + 1))),
     ks_random_string = (\<lambda>k. (''ka'', k)),
     ks_parse = map_of tbl,
     ks_print = (\<lambda>j. Some ''request'')\<rparr>"

definition script_ctx :: "string list \<Rightarrow> (script, 's) janus_ws_ctx_t \<Rightarrow> (script, 's) janus_ws_ctx_t" where
  "script_ctx fs c = c\<lparr>ctx_kws := (fs, [], 0)\<rparr>"

lemma script_socket: "ws_socket (script_ops tbl) script_seen"
proof
  fix k :: script and ms
  show "script_seen (snd (kws_wait_sock (script_ops tbl) k ms)) = script_seen k"
    by (cases k rule: script_wait.cases) (simp_all add: script_ops_def script_seen_def)
next
  fix k k' bytes oc msg
  assume "kws_read_frame (script_ops tbl) k = ((bytes, oc, msg), k')"
  then show "script_seen k' = script_seen k @ (if 0 < bytes \<and> oc = WSOC_TEXT
        then (case ks_parse (script_ops tbl) msg of None \<Rightarrow> [] | Some j \<Rightarrow> [j]) else [])"
    by (cases "(tbl, k)" rule: script_read.cases) (auto simp: script_ops_def script_seen_def)
qed (auto simp: script_ops_def script_seen_def split: prod.splits)

interpretation script: ws_socket "script_ops tbl" script_seen for tbl
  by (rule script_socket)

section \<open>Properties\<close>

definition idle_ctx :: "'s \<Rightarrow> (script, 's) janus_ws_ctx_t" where
  "idle_ctx s = \<lparr>ctx_connected = True, ctx_kws = ([], [], 0), rpc_txn = None, rpc_result = None,
     deferred = [], ctx_last_activity = Some 0, ctx_module = s\<rparr>"

definition ws_table :: "(string \<times> cjson) list" where
  "ws_table = [(''E1'', push (push cJSON_CreateObject (str_item ''janus'' ''trickle'')) (str_item ''transaction'' ''x'')),
     (''E2'', push cJSON_CreateObject (str_item ''janus'' ''webrtcup'')),
     (''R'', push (push cJSON_CreateObject (str_item ''janus'' ''ack'')) (str_item ''transaction'' ''t1''))]"

text \<open>
  C24: a request over the WebSocket. It returns the reply that carries its own transaction, of one of the types success, ack or
  error (the last one, if several are already there), or nothing; every other frame that arrived
  meanwhile is appended to the deferred list, in the order of arrival, and
  neither lost nor dispatched; the connection is ready for the next request.
\<close>

theorem ws_rpc_keeps_events:
  assumes "ws_socket K seen" and "rpc_txn c = None" and "rpc_result c = None"
    and "janus_ws_rpc_json n K (Some request) (Some t) timeout c = Some (Inr (r, c'))"
  shows "\<exists>new. seen (ctx_kws c') = seen (ctx_kws c) @ new
    \<and> deferred c' = deferred c @ filter (\<lambda>j. \<not> rpc_reply t j) new
    \<and> r = (if filter (rpc_reply t) new = [] then None else Some (last (filter (rpc_reply t) new)))
    \<and> ctx_module c' = ctx_module c \<and> rpc_txn c' = None \<and> rpc_result c' = None"
  using ws_socket.rpc_deferred [OF assms(1,4,2,3)] assms(2,3) by (auto simp: last_opt_def)

theorem ws_rpc_keeps_events_witness:
  "\<exists>c'. janus_ws_rpc_json 5 (script_ops ws_table) (Some cJSON_CreateObject) (Some ''t1'') 1000
       (script_ctx [''E1'', ''R''] (idle_ctx ())) = Some (Inr (map_of ws_table ''R'', c'))
     \<and> deferred c' = [the (map_of ws_table ''E1'')]"
proof -
  let ?c = "script_ctx [''E1'', ''R''] (idle_ctx ())"
  obtain c' where r: "janus_ws_rpc_json 5 (script_ops ws_table) (Some cJSON_CreateObject) (Some ''t1'') 1000 ?c =
      Some (Inr (map_of ws_table ''R'', c'))" and sn: "script_seen (ctx_kws c') = [the (map_of ws_table ''E1''), the (map_of ws_table ''R'')]"
    by (simp add: janus_ws_rpc_json_def script_ctx_def idle_ctx_def script_ops_def upd_kws_pair Let_def
        eval_nat_numeral drain_round_def ready_poll_def ws_frame_def janus_ws_match_rpc_reply_def ws_table_def
        rpc_finish_def janus_ws_defer_event_def script_seen_def)
  have c: "rpc_txn ?c = None" "rpc_result ?c = None" "script_seen (ctx_kws ?c) = []" "deferred ?c = []"
    by (simp_all add: script_ctx_def idle_ctx_def script_seen_def)
  obtain new where new: "script_seen (ctx_kws c') = script_seen (ctx_kws ?c) @ new"
    "deferred c' = deferred ?c @ filter (\<lambda>j. \<not> rpc_reply ''t1'' j) new"
    using ws_rpc_keeps_events [OF script_socket c(1,2) r] by blast
  have "new = [the (map_of ws_table ''E1''), the (map_of ws_table ''R'')]" using new(1) sn c(3) by simp
  then have "deferred c' = [the (map_of ws_table ''E1'')]"
    unfolding new(2) c(4) by (simp add: ws_table_def rpc_reply_def jstr_def)
  then show ?thesis using r by blast
qed






text \<open>The events of an example: a join, two candidates and a reply.\<close>

definition joined_event :: cjson where
  "joined_event = push (push cJSON_CreateObject (str_item ''janus'' ''event''))
     (named ''plugindata'' (push (push cJSON_CreateObject (str_item ''plugin'' JANUS_PLUGIN))
       (named ''data'' (push (push (push cJSON_CreateObject (str_item ''audiobridge'' ''joined''))
          (str_item ''room'' ''r'')) (str_item ''id'' ''me'')))))"

definition candidate_event :: "string \<Rightarrow> cjson" where
  "candidate_event x = push (push cJSON_CreateObject (str_item ''janus'' ''trickle''))
     (named ''candidate'' (push cJSON_CreateObject (str_item ''candidate'' x)))"

definition nested_table :: "(string \<times> cjson) list" where
  "nested_table = [(''A'', joined_event), (''B'', candidate_event ''c1''), (''C'', candidate_event ''c2''),
     (''R'', push (push cJSON_CreateObject (str_item ''janus'' ''ack'')) (str_item ''transaction'' ''t1''))]"

definition requesting_handlers :: "(script, call list) janus_ws_ctx_t callbacks" where
  "requesting_handlers = (module_handlers log_callbacks)\<lparr>pJoinedFunc := (\<lambda>sid hid r p c.
     case janus_ws_rpc_json 5 (script_ops nested_table) (Some cJSON_CreateObject) (Some ''t1'') 1000
            (c\<lparr>ctx_module := ctx_module c @ [Joined r p]\<rparr>) of
       Some (Inr (reply, c)) \<Rightarrow> Inr (SWITCH_STATUS_SUCCESS, c)
     | _ \<Rightarrow> Inr (SWITCH_STATUS_FALSE, c))\<rparr>"


lemma nested_lookup:
  "map_of nested_table ''A'' = Some joined_event" "map_of nested_table ''B'' = Some (candidate_event ''c1'')"
  "map_of nested_table ''C'' = Some (candidate_event ''c2'')"
  "map_of nested_table ''R'' = Some (push (push cJSON_CreateObject (str_item ''janus'' ''ack'')) (str_item ''transaction'' ''t1''))"
  by (simp_all add: nested_table_def)

lemma object_types:
  "cJSON_IsObject (Some (named k j)) = cJSON_IsObject (Some j)" "cJSON_IsObject (Some (push j it)) = cJSON_IsObject (Some j)"
  "cJSON_IsObject (Some cJSON_CreateObject)"
  by (simp_all add: cJSON_Is named_def cJSON_types and.assoc cJSON_CreateObject_def)

lemma nested_dispatch:
  "api_dispatch_poll_event cb (Some joined_event) c =
     cbind (run_cb (pJoinedFunc cb 0 0 0 0 c)) (\<lambda>c.
       case pParticipantFunc cb of None \<Rightarrow> Inr c | Some f \<Rightarrow> run_cb (f 0 0 (Some ''me'') True True c))"
  "api_dispatch_poll_event cb (Some (candidate_event x)) c = run_cb (pTrickleFunc cb 0 0 (Some x) c)"
  by (auto simp: joined_event_def candidate_event_def api_dispatch_poll_event_def decode_def decode_body_def decode_str_def
      decode_id_def JANUS_STRING_def JANUS_PLUGIN_def dispatch_message_def run_cb_def Let_def zero_message_def
      decode_plugindata_def decode_candidate_def dispatch_plugin_event_def dispatch_joined_def object_types
      room_or_participant_id_def api_dispatch_participants_def cbind_assoc
      split: option.splits intro!: cbind_cong)


lemma script_ops_sel:
  "kws_wait_sock (script_ops tbl) k ms = script_wait k"
  "kws_read_frame (script_ops tbl) = script_read tbl"
  "kws_write_frame (script_ops tbl) k msg = (int (length msg), k)"
  "ks_time_now (script_ops tbl) (fs, sn, t) = (t + 1, (fs, sn, t + 1))"
  "ks_parse (script_ops tbl) = map_of tbl" "ks_print (script_ops tbl) j = Some ''request''"
  by (simp_all add: script_ops_def)

text \<open>
  Events can be dispatched out of order. The callback for a join makes a request of its own (it configures the
  stream); events that arrive while it waits are deferred, but the loop that dispatched the join goes on with
  the frames that came after the reply. Here a join, a first candidate, the reply and, a moment later, a second
  candidate arrive in this order: the second candidate is dispatched while the first is still deferred.
\<close>

theorem nested_request_reorders:
  "\<exists>c'. janus_ws_drain 5 (script_ops nested_table) (Some requesting_handlers)
       (script_ctx [''A'', ''B'', ''R'', [], ''C''] (idle_ctx [])) = Some (Inr (SWITCH_STATUS_SUCCESS, c'))
     \<and> script_seen (ctx_kws c') = map (the \<circ> map_of nested_table) [''A'', ''B'', ''R'', ''C'']
     \<and> ctx_module c' = [Joined 0 0, Participant (Some ''me'') True True, Trickled (Some ''c2'')]
     \<and> deferred c' = [candidate_event ''c1'']"
proof -
  have idle: "janus_ws_match_rpc_reply json c = Inr (False, c)" if "rpc_txn c = None"
    for json and c :: "(script, call list) janus_ws_ctx_t" using that by (simp add: janus_ws_match_rpc_reply_def)
  have cand: "janus_ws_match_rpc_reply (candidate_event x) c = Inr (False, c)" for x and c :: "(script, call list) janus_ws_ctx_t"
    by (simp add: janus_ws_match_rpc_reply_def candidate_event_def split: option.splits)
  have ack: "janus_ws_match_rpc_reply (push (push cJSON_CreateObject (str_item ''janus'' ''ack'')) (str_item ''transaction'' ''t1'')) c
      = Inr (True, c\<lparr>rpc_result := map_of nested_table ''R''\<rparr>)" if "rpc_txn c = Some ''t1''"
    for c :: "(script, call list) janus_ws_ctx_t"
    using that by (simp add: janus_ws_match_rpc_reply_def nested_lookup)
  have rpc: "\<exists>t'. janus_ws_rpc_json 5 (script_ops nested_table) (Some cJSON_CreateObject) (Some ''t1'') 1000
      (c\<lparr>ctx_module := ctx_module c @ [Joined 0 0]\<rparr>) =
      Some (Inr (map_of nested_table ''R'', c\<lparr>ctx_kws := ([''C''], sn @ [candidate_event ''c1'', the (map_of nested_table ''R'')], t'),
        deferred := [candidate_event ''c1''], ctx_module := ctx_module c @ [Joined 0 0]\<rparr>))"
    if "c = (idle_ctx s)\<lparr>ctx_kws := ([''B'', ''R'', [], ''C''], sn, t)\<rparr>" for s sn t c
    unfolding that
    by (simp add: janus_ws_rpc_json_def idle_ctx_def script_ops_sel upd_kws_pair Let_def eval_nat_numeral drain_round_def
        ready_poll_def ws_frame_def cand ack nested_lookup rpc_finish_def janus_ws_defer_event_def)
  obtain t1 where joined: "pJoinedFunc requesting_handlers 0 0 0 0
        ((idle_ctx [])\<lparr>ctx_kws := ([''B'', ''R'', [], ''C''], [joined_event], 0)\<rparr>) =
      Inr (SWITCH_STATUS_SUCCESS, (idle_ctx [])\<lparr>ctx_kws := ([''C''], [joined_event, candidate_event ''c1'',
        the (map_of nested_table ''R'')], t1), deferred := [candidate_event ''c1''], ctx_module := [Joined 0 0]\<rparr>)"
    using rpc [OF refl, where s = "[]" and sn = "[joined_event]" and t = 0] by (auto simp: requesting_handlers_def idle_ctx_def)
  have rest: "pParticipantFunc requesting_handlers = Some (\<lambda>sid hid i self b.
        on_module (\<lambda>s. Inr (SWITCH_STATUS_SUCCESS, s @ [Participant i self b])))"
    "pTrickleFunc requesting_handlers sid hid x = on_module (\<lambda>s. Inr (SWITCH_STATUS_SUCCESS, s @ [Trickled x]))" for sid hid x
    by (simp_all add: requesting_handlers_def module_handlers_def log_callbacks_def)
  show ?thesis
    using joined
    by (simp add: script_ctx_def idle_ctx_def script_ops_sel upd_kws_pair Let_def eval_nat_numeral drain_round_def
        ready_poll_def ws_frame_def idle nested_lookup janus_ws_dispatch_event_def nested_dispatch rest run_cb_def
        on_module_def script_seen_def)
qed


text \<open>
  What ends the loops. The clock never goes back; it may show the same time at several readings, but \<open>stall\<close> bounds
  how many more of them there are before it moves, and never exceeds \<open>most\<close>. \<open>pend\<close> bounds the number of frames
  still to come; reading a frame uses one up.
\<close>

definition later :: "('k \<Rightarrow> int) \<Rightarrow> ('k \<Rightarrow> nat) \<Rightarrow> 'k \<Rightarrow> 'k \<Rightarrow> bool" where
  "later clock stall k k' \<longleftrightarrow> clock k < clock k' \<or> (clock k = clock k' \<and> stall k' \<le> stall k)"

lemma later_trans: "later clock stall k k1 \<Longrightarrow> later clock stall k1 k2 \<Longrightarrow> later clock stall k k2"
  by (auto simp: later_def)

lemma later_clock: "later clock stall k k' \<Longrightarrow> clock k \<le> clock k'"
  by (auto simp: later_def)

text \<open>The readings of the clock that may still show a time before \<open>deadline\<close>.\<close>

definition readings :: "('k \<Rightarrow> int) \<Rightarrow> ('k \<Rightarrow> nat) \<Rightarrow> nat \<Rightarrow> int \<Rightarrow> 'k \<Rightarrow> nat" where
  "readings clock stall most deadline k = nat (deadline - clock k) * Suc most + stall k"

lemma readings_step: "a < b \<Longrightarrow> s \<le> most \<Longrightarrow> (a :: nat) * Suc most + s < b * Suc most"
  by (rule less_le_trans [of _ "Suc a * Suc most"]) (simp, rule mult_le_mono1, simp)

lemma readings_before:
  assumes "clock k < clock k'" and "clock k < deadline" and "stall k' \<le> most"
  shows "readings clock stall most deadline k' < readings clock stall most deadline k"
  using readings_step [of "nat (deadline - clock k')" "nat (deadline - clock k)" "stall k'" most] assms
  by (simp add: readings_def)

locale ws_progress =
  fixes K :: "'k kws_ops" and clock :: "'k \<Rightarrow> int" and stall :: "'k \<Rightarrow> nat" and most :: nat and pend :: "'k \<Rightarrow> nat"
  assumes time_clock: "fst (ks_time_now K k) = clock (snd (ks_time_now K k))"
    and time_later: "clock k < clock (snd (ks_time_now K k))
      \<or> (clock k = clock (snd (ks_time_now K k)) \<and> stall (snd (ks_time_now K k)) < stall k)"
    and stall_most: "stall k \<le> most"
    and wait_later: "later clock stall k (snd (kws_wait_sock K k ms))"
    and read_later: "later clock stall k (snd (kws_read_frame K k))"
    and write_later: "later clock stall k (snd (kws_write_frame K k msg))"
    and time_pend: "pend (snd (ks_time_now K k)) \<le> pend k"
    and wait_pend: "pend (snd (kws_wait_sock K k ms)) \<le> pend k"
    and write_pend: "pend (snd (kws_write_frame K k msg)) \<le> pend k"
    and read_pend_le: "pend (snd (kws_read_frame K k)) \<le> pend k"
    and read_pend: "kws_read_frame K k = ((bytes, oc, msg), k') \<Longrightarrow> 0 < bytes \<Longrightarrow> pend k' < pend k"
begin

lemma time_less:
  assumes "clock k < deadline"
  shows "readings clock stall most deadline (snd (ks_time_now K k)) < readings clock stall most deadline k"
  using time_later [of k] readings_before [where clock = clock and stall = stall and most = most, of k _ deadline]
    assms stall_most by (auto simp: readings_def)

lemma later_readings:
  assumes "later clock stall k k'"
  shows "readings clock stall most deadline k' \<le> readings clock stall most deadline k \<or> deadline \<le> clock k'"
proof (cases "clock k < clock k' \<and> clock k < deadline")
  case True
  then show ?thesis using readings_before [of clock k k' deadline stall most] stall_most by simp
qed (use assms in \<open>auto simp: later_def readings_def\<close>)

lemma time_later': "later clock stall k (snd (ks_time_now K k))"
  using time_later [of k] by (auto simp: later_def)

lemma drain_round_progress:
  assumes "drain_round K None c = Inr (st, c')"
  shows "(if st = None then pend (ctx_kws c') < pend (ctx_kws c) else pend (ctx_kws c') \<le> pend (ctx_kws c))
    \<and> later clock stall (ctx_kws c) (ctx_kws c')"
proof -
  define k1 where "k1 = snd (kws_wait_sock K (ctx_kws c) 0)"
  obtain bytes oc tx k2 where rd: "kws_read_frame K k1 = ((bytes, oc, tx), k2)"
    by (metis prod.collapse)
  have "ctx_kws c' = k1 \<and> st \<noteq> None \<or> ctx_kws c' = k2 \<and> (st = None \<longrightarrow> 0 < bytes)"
    using assms
    by (auto simp: drain_round_def upd_kws_pair rd Let_def cbind_Inr_iff k1_def [symmetric]
        dest!: frame_deferred split: if_splits option.splits)
  moreover have "later clock stall k1 k2" "pend k2 \<le> pend k1" using read_later [of k1] read_pend_le [of k1] rd by simp_all
  moreover have "pend k1 \<le> pend (ctx_kws c)" "later clock stall (ctx_kws c) k1"
    by (simp_all add: k1_def wait_pend wait_later)
  ultimately show ?thesis using read_pend [OF rd] later_trans by fastforce
qed

lemma drain_returns:
  "pend (ctx_kws c) < n \<Longrightarrow> (\<exists>u. janus_ws_drain n K None c = Some (Inl u)) \<or>
     (\<exists>st c'. janus_ws_drain n K None c = Some (Inr (st, c')) \<and> pend (ctx_kws c') \<le> pend (ctx_kws c)
        \<and> later clock stall (ctx_kws c) (ctx_kws c'))"
proof (induction n arbitrary: c)
  case (Suc n)
  show ?case
  proof (cases "drain_round K None c")
    case (Inr x)
    then obtain r c1 where r: "drain_round K None c = Inr (r, c1)" by (cases x) simp
    note 1 = drain_round_progress [OF r]
    show ?thesis
    proof (cases r)
      case None
      have "pend (ctx_kws c1) < n" using 1 None Suc.prems by simp
      from Suc.IH [OF this] show ?thesis using 1 None r later_trans by fastforce
    qed (use 1 r in simp)
  qed simp
qed simp

end

text \<open>One round of the wait, once the clock has shown a time before the deadline.\<close>

lemma rpc_wait_round:
  fixes c :: "('k, 's) janus_ws_ctx_t" and K :: "'k kws_ops" and deadline :: int
  defines "k1 \<equiv> snd (ks_time_now K (ctx_kws c))"
  defines "w \<equiv> kws_wait_sock K (snd (ks_time_now K k1)) (rpc_slice_ms (deadline - fst (ks_time_now K k1)))"
  assumes "rpc_result c = None" and "fst (ks_time_now K (ctx_kws c)) < deadline"
  shows "rpc_wait (Suc n) K deadline c =
    (if pr_negative (fst w) \<or> pr_invalid (fst w) \<or> (pr_error (fst w) \<and> \<not> pr_read (fst w)) then Some (Inr (c\<lparr>ctx_kws := snd w\<rparr>))
     else if pr_read (fst w) then
       (case janus_ws_drain n K None (c\<lparr>ctx_kws := snd w\<rparr>) of None \<Rightarrow> None | Some (Inl u) \<Rightarrow> Some (Inl u)
        | Some (Inr (st, c)) \<Rightarrow>
            if st \<noteq> SWITCH_STATUS_SUCCESS then Some (Inr c) else rpc_wait n K deadline c)
     else rpc_wait n K deadline (c\<lparr>ctx_kws := snd w\<rparr>))"
  using assms(3,4) by (simp add: upd_kws_pair Let_def k1_def w_def)

lemma rpc_wait_over:
  "rpc_result c \<noteq> None \<Longrightarrow> rpc_wait (Suc n) K deadline c = Some (Inr c)"
  "rpc_result c = None \<Longrightarrow> \<not> fst (ks_time_now K (ctx_kws c)) < deadline \<Longrightarrow>
     rpc_wait (Suc n) K deadline c = Some (Inr (c\<lparr>ctx_kws := snd (ks_time_now K (ctx_kws c))\<rparr>))"
  by (simp_all add: upd_kws_pair Let_def)

text \<open>A socket without errors: polling and reading do not fail.\<close>

definition sound_socket :: "'k kws_ops \<Rightarrow> bool" where
  "sound_socket K \<longleftrightarrow> (\<forall>k ms. let pr = fst (kws_wait_sock K k ms) in
       \<not> pr_negative pr \<and> \<not> pr_invalid pr \<and> (pr_error pr \<longrightarrow> pr_read pr)) \<and>
     (\<forall>k ms. pr_read (fst (kws_wait_sock K k ms)) \<longrightarrow> 0 \<le> fst (fst (kws_read_frame K (snd (kws_wait_sock K k ms)))))"

lemma sound_drain_round:
  "sound_socket K \<Longrightarrow> drain_round K d c = Inr (Some st, c') \<Longrightarrow> st = SWITCH_STATUS_SUCCESS"
  by (auto simp: sound_socket_def drain_round_def upd_kws_pair Let_def cbind_Inr_iff split: if_splits option.splits prod.splits)
    (metis fst_conv not_le)+

lemma sound_drain:
  "sound_socket K \<Longrightarrow> janus_ws_drain n K d c = Some (Inr (st, c')) \<Longrightarrow> st = SWITCH_STATUS_SUCCESS"
  by (induction n arbitrary: c) (auto dest: sound_drain_round split: sum.splits option.splits)

context ws_progress
begin

lemma rpc_wait_returns:
  "readings clock stall most deadline (ctx_kws c) + pend (ctx_kws c) < n \<Longrightarrow>
     \<exists>r. rpc_wait n K deadline (c :: ('k, 'b) janus_ws_ctx_t) = Some r"
proof (induction n arbitrary: c)
  case (Suc n)
  define k1 where "k1 = snd (ks_time_now K (ctx_kws c))"
  define w where "w = kws_wait_sock K (snd (ks_time_now K k1)) (rpc_slice_ms (deadline - fst (ks_time_now K k1)))"
  have later: "later clock stall k1 (snd w)"
    using later_trans [OF time_later' [of k1] wait_later] by (simp add: w_def)
  have pnd: "pend (snd w) \<le> pend (ctx_kws c)"
    by (simp add: w_def k1_def order_trans [OF wait_pend order_trans [OF time_pend time_pend]])
  show ?case
  proof (cases "rpc_result c = None \<and> clock k1 < deadline")
    case True
    have "clock (ctx_kws c) < deadline" using True time_later' [of "ctx_kws c"] by (auto simp: later_def k1_def)
    then have first: "readings clock stall most deadline k1 < readings clock stall most deadline (ctx_kws c)"
      unfolding k1_def by (rule time_less)
    have again: "\<exists>r. rpc_wait n K deadline d = Some r"
      if "pend (ctx_kws d) \<le> pend (snd w)" "later clock stall (snd w) (ctx_kws d)" for d :: "('k, 'b) janus_ws_ctx_t"
    proof (cases "deadline \<le> clock (ctx_kws d)")
      case False
      then have "readings clock stall most deadline (ctx_kws d) \<le> readings clock stall most deadline k1"
        using later_readings [OF later_trans [OF later that(2)]] by auto
      then show ?thesis using Suc.prems first pnd that(1) by (intro Suc.IH) linarith
    next
      case over: True
      have "0 < readings clock stall most deadline k1" using True by (simp add: readings_def)
      then obtain m where n: "n = Suc m" using Suc.prems first by (cases n) auto
      have "\<not> fst (ks_time_now K (ctx_kws d)) < deadline"
        using over later_clock [OF time_later' [of "ctx_kws d"]] by (simp add: time_clock)
      then show ?thesis unfolding n using rpc_wait_over(1) [of d] rpc_wait_over(2) [of d] by (cases "rpc_result d = None") blast+
    qed
    have "pend (ctx_kws (c\<lparr>ctx_kws := snd w\<rparr>)) < n" using pnd first Suc.prems by simp
    note drained = drain_returns [OF this]
    have step: "rpc_result c = None" "fst (ks_time_now K (ctx_kws c)) < deadline"
      using True by (simp_all add: time_clock k1_def)
    have now: "\<exists>r. rpc_wait n K deadline (c\<lparr>ctx_kws := snd w\<rparr>) = Some r" by (rule again) (simp_all add: later_def)
    show ?thesis using drained again now
      unfolding rpc_wait_round [OF step] k1_def [symmetric] w_def [symmetric] by auto
  qed (cases "rpc_result c = None"; auto simp: rpc_wait_over time_clock k1_def simp del: rpc_wait.simps)
qed simp

lemma rpc_wait_deadline:
  assumes "sound_socket K"
  shows "rpc_wait n K deadline (c :: ('k, 'b) janus_ws_ctx_t) = Some (Inr c') \<Longrightarrow> rpc_result c' = None \<Longrightarrow>
    deadline \<le> clock (ctx_kws c')"
proof (induction n arbitrary: c)
  case (Suc n)
  consider "rpc_result c \<noteq> None" | "rpc_result c = None" "\<not> fst (ks_time_now K (ctx_kws c)) < deadline"
    | "rpc_result c = None" "fst (ks_time_now K (ctx_kws c)) < deadline" by blast
  then show ?case
  proof cases
    case 3
    define w where "w = kws_wait_sock K (snd (ks_time_now K (snd (ks_time_now K (ctx_kws c)))))
      (rpc_slice_ms (deadline - fst (ks_time_now K (snd (ks_time_now K (ctx_kws c))))))"
    have "\<not> (pr_negative (fst w) \<or> pr_invalid (fst w) \<or> (pr_error (fst w) \<and> \<not> pr_read (fst w)))"
      using assms by (auto simp: sound_socket_def w_def Let_def)
    then show ?thesis using Suc rpc_wait_round [OF 3, folded w_def]
      by (auto dest: sound_drain [OF assms] split: if_splits option.splits sum.splits prod.splits)
  qed (use Suc.prems in \<open>auto simp: rpc_wait_over time_clock simp del: rpc_wait.simps\<close>)
qed simp

lemma rpc_sent:
  assumes "ctx_connected c" and "ks_print K j = Some payload" and "0 \<le> fst (kws_write_frame K (ctx_kws c) payload)"
  shows "\<exists>d start. janus_ws_rpc_json n K (Some j) (Some t) timeout c = rpc_finish (rpc_wait n K (start + timeout) d)
    \<and> clock (ctx_kws c) \<le> start \<and> readings clock stall most (start + timeout) (ctx_kws d) \<le> (nat timeout + 1) * Suc most
    \<and> pend (ctx_kws d) \<le> pend (ctx_kws c)"
proof -
  define k1 where "k1 = snd (kws_write_frame K (ctx_kws c) payload)"
  define d where "d = c\<lparr>rpc_txn := Some t, rpc_result := None, ctx_kws := snd (ks_time_now K k1)\<rparr>"
  have "later clock stall (ctx_kws c) (ctx_kws d)"
    using later_trans [OF write_later time_later'] by (simp add: d_def k1_def)
  moreover have "pend (ctx_kws d) \<le> pend (ctx_kws c)"
    by (simp add: d_def k1_def order_trans [OF time_pend write_pend])
  moreover have "stall (ctx_kws d) \<le> most" by (rule stall_most)
  moreover have "janus_ws_rpc_json n K (Some j) (Some t) timeout c = rpc_finish (rpc_wait n K (clock (ctx_kws d) + timeout) d)"
    using assms by (simp add: janus_ws_rpc_json_def upd_kws_pair Let_def d_def k1_def time_clock)
  ultimately show ?thesis
    by (intro exI [of _ d] exI [of _ "clock (ctx_kws d)"]) (auto simp: readings_def dest: later_clock)
qed

end

text \<open>The scripted socket moves its clock at every reading.\<close>

lemma script_progress: "ws_progress (script_ops tbl) (\<lambda>(fs, sn, t). t) (\<lambda>k. 0) 0 (\<lambda>(fs, sn, t). length fs)"
proof
  fix k :: script and ms
  show "later (\<lambda>(fs, sn, t). t) (\<lambda>k. 0) k (snd (kws_wait_sock (script_ops tbl) k ms))"
    "(\<lambda>(fs, sn, t). length fs) (snd (kws_wait_sock (script_ops tbl) k ms)) \<le> (\<lambda>(fs, sn, t). length fs) k"
    by (cases k rule: script_wait.cases; simp add: script_ops_def later_def)+
  show "later (\<lambda>(fs, sn, t). t) (\<lambda>k. 0) k (snd (kws_read_frame (script_ops tbl) k))"
    "(\<lambda>(fs, sn, t). length fs) (snd (kws_read_frame (script_ops tbl) k)) \<le> (\<lambda>(fs, sn, t). length fs) k"
    by (cases "(tbl, k)" rule: script_read.cases; simp add: script_ops_def later_def)+
next
  fix k k' :: script and bytes oc msg
  assume "kws_read_frame (script_ops tbl) k = ((bytes, oc, msg), k')" "0 < bytes"
  then show "(\<lambda>(fs, sn, t). length fs) k' < (\<lambda>(fs, sn, t). length fs) k"
    by (cases "(tbl, k)" rule: script_read.cases) (auto simp: script_ops_def)
qed (auto simp: script_ops_def later_def split: prod.splits)

interpretation script: ws_progress "script_ops tbl" "\<lambda>(fs, sn, t). t" "\<lambda>k. 0" 0 "\<lambda>(fs, sn, t). length fs" for tbl
  by (rule script_progress)




text \<open>The wait of one round is at most a tenth of a second, unless a millisecond or more has passed since the
  deadline when the remaining time is computed: then it is about 49 days.\<close>

lemma rpc_slice_bound: "0 \<le> remaining \<Longrightarrow> unat (rpc_slice_ms remaining) \<le> 100"
  by (auto simp: rpc_slice_ms_def Let_def unsigned_of_int take_bit_int_eq_self)

lemma rpc_slice_wraps: "rpc_slice_ms (- 1000) = 4294967295"
  by (simp add: rpc_slice_ms_def)

end
