(* ===== verification/Module.thy ===== *)
theory Module
  imports Dialling Websocket
begin

unbundle bit_operations_syntax

text \<open>
  The module as a whole (\<open>mod_janus.c\<close>): reading the configuration, \<open>mod_janus_load\<close>, \<open>mod_janus_shutdown\<close> and the
  console command \<open>janus\<close>. The state \<open>module_t\<close> is the registry with the rest of \<open>globals_t\<close>, the reference count of
  libks and whether the endpoint interface is registered; the two functions pointers are those the registry is
  given by \<open>serversBindStartThread\<close> and \<open>serversBindStopThread\<close>. The XML reader of the core delivers the
  configuration as a list of settings and a list of servers with their parameters;
  \<open>switch_separate_string\<close> is a parameter that splits a command line into at most ten words. Console completion
  and the initialisation of libcurl have no effect on this state.
\<close>

section \<open>State\<close>

record 'h module_t =
  m_reg :: "'h registry"
  m_debug :: bool
  m_auto_nat :: bool
  m_started :: int
  m_libks :: libks
  m_endpoint :: bool
  m_start :: "'h thread_fn"
  m_stop :: "'h thread_fn"

type_synonym params = "(string \<times> string) list"

record janus_cfg =
  c_settings :: "params option"
  c_servers :: "(string \<times> params) list"

text \<open>What loading takes from the core: its tables, the network, the results of its calls, the configuration.\<close>

record 'h load_env =
  l_core :: "'h core_hash"
  l_net :: net_env
  l_guess_ip :: string
  l_nat :: bool
  l_mutex_init :: switch_status_t
  l_mutex_destroy :: switch_status_t
  l_cfg :: "janus_cfg option"
  l_thread :: "'h thread_env"
  l_sid :: "ptr \<Rightarrow> janus_id_t"

definition serversBindStartThread :: "'h thread_fn \<Rightarrow> 'h module_t \<Rightarrow> 'h module_t" where
  "serversBindStartThread f m = m\<lparr>m_start := f\<rparr>"

definition serversBindStopThread :: "'h thread_fn \<Rightarrow> 'h module_t \<Rightarrow> 'h module_t" where
  "serversBindStopThread f m = m\<lparr>m_stop := f\<rparr>"

definition upd_reg :: "('h registry \<Rightarrow> 'h registry) \<Rightarrow> 'h module_t \<Rightarrow> 'h module_t" where
  "upd_reg f m = m\<lparr>m_reg := f (m_reg m)\<rparr>"

section \<open>Configuration\<close>

definition normalize_headless_service_url :: "cstr \<Rightarrow> cstr" where
  "normalize_headless_service_url configured =
     (if zstr configured then None
      else case strstr_split ''{pod}.'' (the configured) of
             None \<Rightarrow> configured
           | Some (pre, post) \<Rightarrow> Some (snprintf_text (length pre + length post + 1) (pre @ post)))"

definition apply_setting :: "net_env \<Rightarrow> string \<times> string \<Rightarrow> 'h module_t \<Rightarrow> 'h module_t cres" where
  "apply_setting n kv m =
     (let (k, v) = kv in
      if k = ''debug'' then Inr (m\<lparr>m_debug := n_true n v\<rparr>)
      else if (k = ''headless-service-url'' \<or> k = ''pod-url-template'') \<and> v \<noteq> [] then
        Inr (upd_reg (\<lambda>R. R\<lparr>r_headless_service_url := normalize_headless_service_url (Some v)\<rparr>) m)
      else if k = ''registry-refresh-sec'' \<and> v \<noteq> [] then
        cbind (atoi v) (\<lambda>i. Inr (upd_reg (\<lambda>R. R\<lparr>r_registry_refresh_sec := word_of_int i\<rparr>) m))
      else if k = ''pod-server-fail-max'' \<and> v \<noteq> [] then
        cbind (atoi v) (\<lambda>i. Inr (upd_reg (\<lambda>R. R\<lparr>r_pod_server_fail_max := word_of_int i\<rparr>) m))
      else Inr m)"

fun apply_settings :: "net_env \<Rightarrow> params \<Rightarrow> 'h module_t \<Rightarrow> 'h module_t cres" where
  "apply_settings n [] m = Inr m"
| "apply_settings n (kv # kvs) m = cbind (apply_setting n kv m) (apply_settings n kvs)"

definition registry_defaults :: "'h registry \<Rightarrow> 'h registry" where
  "registry_defaults R =
     (if r_headless_service_url R = None then R
      else let R = (if r_registry_refresh_sec R = 0 then R\<lparr>r_registry_refresh_sec := 30\<rparr> else R)
           in if r_pod_server_fail_max R = 0 then R\<lparr>r_pod_server_fail_max := 12\<rparr> else R)"

definition add_servers :: "'h load_env \<Rightarrow> (string \<times> params) list \<Rightarrow> 'h registry \<Rightarrow> 'h registry" where
  "add_servers l = fold (\<lambda>(n, ps) R. snd (serversAdd (l_core l) (l_net l) n ps R))"

definition load_config :: "'h load_env \<Rightarrow> 'h module_t \<Rightarrow> (switch_status_t \<times> 'h module_t) cres" where
  "load_config l m =
     (case l_cfg l of
        None \<Rightarrow> Inr (SWITCH_STATUS_TERM, m)
      | Some cfg \<Rightarrow>
          cbind (apply_settings (l_net l) (case c_settings cfg of None \<Rightarrow> [] | Some ps \<Rightarrow> ps) m) (\<lambda>m.
          let m = upd_reg registry_defaults m in
          if c_servers cfg = [] then Inr (SWITCH_STATUS_TERM, m)
          else Inr (SWITCH_STATUS_SUCCESS, upd_reg (add_servers l (c_servers cfg)) m)))"

section \<open>Loading and unloading\<close>

text \<open>\<open>memset\<close> over \<open>globals\<close>, then the values set before the configuration is read; the heap stays as it is.\<close>

definition fresh_globals :: "'h load_env \<Rightarrow> 'h module_t \<Rightarrow> 'h module_t" where
  "fresh_globals l m =
     m\<lparr>m_reg := (m_reg m)\<lparr>r_world := (r_world (m_reg m))\<lparr>w_totalCalls := 0, w_callsInProgress := 0,
                    w_serverIdLookup := (w_serverIdLookup (r_world (m_reg m)))\<lparr>pMutex := False\<rparr>\<rparr>,
                  r_names := snd (core_hash_init (l_core l)), r_pod_defaults := None, r_guess_ip := l_guess_ip l,
                  r_headless_service_url := None, r_registry_refresh_sec := 0, r_pod_server_fail_max := 0,
                  r_registry_thread := False, r_registry_terminating := False\<rparr>,
       m_debug := False, m_auto_nat := l_nat l, m_started := 0, m_start := None, m_stop := None\<rparr>"

definition start_configured :: "ptr \<Rightarrow> 'h registry \<Rightarrow> 'h registry" where
  "start_configured p R =
     (if test_flag (srv R p) SFLAG_ENABLED \<and> \<not> test_flag (srv R p) SFLAG_DYNAMIC
      then startServerThread True p R else R)"

definition mod_janus_load :: "'h load_env \<Rightarrow> 'h module_t \<Rightarrow> (switch_status_t \<times> 'h module_t) cres" where
  "mod_janus_load l m =
     cbind (load_config l (fresh_globals l m)) (\<lambda>(_, m).
     let m = m\<lparr>m_endpoint := True, m_started := w_now (r_world (m_reg m))\<rparr>;
         (st, h) = hashCreate (l_core l) (l_mutex_init l) (w_serverIdLookup (r_world (m_reg m)));
         m = upd_reg (upd_world (\<lambda>w. w\<lparr>w_serverIdLookup := h\<rparr>)) m
     in if st \<noteq> SWITCH_STATUS_SUCCESS then Inr (SWITCH_STATUS_FALSE, m)
        else let m = serversBindStartThread (Some (startServerThread True)) m;
                 m = serversBindStopThread (Some (stopServerThread (l_thread l) (l_sid l))) m;
                 m = upd_reg (\<lambda>R. fold start_configured (all_servers (l_core l) R) R) m
             in Inr (SWITCH_STATUS_SUCCESS, upd_reg serversStartRegistry m))"

text \<open>
  Unloading, as the sequence of its calls. The loop over the servers runs over the entries the name table has when it starts: the
  iterator of the core's table is not under \<open>src/\<close>. Stopping a thread deletes an entry only when its server is marked as evicted, see
  \<open>stop_keeps_names\<close>; a server so marked by its own thread while the loop runs is not covered.
\<close>

datatype shutdown_call =
  StopRegistry | StopServer ptr | DestroyServerIds | DestroyServers | ShutdownLibks

definition shutdown_calls :: "'h load_env \<Rightarrow> 'h module_t \<Rightarrow> shutdown_call list" where
  "shutdown_calls l m =
     [StopRegistry]
     @ map StopServer (all_servers (l_core l) (serversStopRegistry (m_reg m)))
     @ [DestroyServerIds, DestroyServers]
     @ (if n_have_ws (l_net l) then [ShutdownLibks] else [])"

definition run_shutdown_call :: "'h load_env \<Rightarrow> shutdown_call \<Rightarrow> 'h module_t \<Rightarrow> 'h module_t" where
  "run_shutdown_call l call m = (case call of
     StopRegistry \<Rightarrow> upd_reg serversStopRegistry m
   | StopServer p \<Rightarrow> upd_reg (stopServerThread (l_thread l) (l_sid l) p) m
   | DestroyServerIds \<Rightarrow> upd_reg (upd_world (\<lambda>w. w\<lparr>w_serverIdLookup :=
         snd (hashDestroy (l_core l) (l_mutex_destroy l) (w_serverIdLookup w))\<rparr>)) m
   | DestroyServers \<Rightarrow> upd_reg (\<lambda>R. snd (serversDestroy (l_core l) R)) m
   | ShutdownLibks \<Rightarrow> m\<lparr>m_libks := janus_ws_mod_global_shutdown (m_libks m)\<rparr>)"

definition mod_janus_shutdown :: "'h load_env \<Rightarrow> 'h module_t \<Rightarrow> switch_status_t \<times> 'h module_t" where
  "mod_janus_shutdown l m = (SWITCH_STATUS_SUCCESS, fold (run_shutdown_call l) (shutdown_calls l m) m)"

section \<open>The console command\<close>

definition JANUS_SYNTAX :: string where "JANUS_SYNTAX = ''janus [debug|status|listgw]''"
definition JANUS_DEBUG_SYNTAX :: string where "JANUS_DEBUG_SYNTAX = ''janus debug [true|false]''"
definition JANUS_GATEWAY_SYNTAX :: string where "JANUS_GATEWAY_SYNTAX = ''janus server <name> [enable|disable]''"

definition line :: "string \<Rightarrow> string" where "line s = s @ [CHR 0x0A]"

definition server_command :: "'h load_env \<Rightarrow> string list \<Rightarrow> 'h module_t \<Rightarrow> string list \<times> 'h module_t" where
  "server_command l argv m =
     (if length argv \<ge> 3 then
        (case serversFind (l_core l) (m_reg m) (argv ! 1) of
           None \<Rightarrow> ([line (''ERR Unknown server ['' @ argv ! 1 @ '']'')], m)
         | Some p \<Rightarrow>
             if strncasecmp_eq 6 (argv ! 2) ''enable'' then ([line ''OK''], upd_reg (startServerThread False p) m)
             else if strncasecmp_eq 7 (argv ! 2) ''disable''
             then ([line ''OK''], upd_reg (stopServerThread (l_thread l) (l_sid l) p) m)
             else ([line (''USAGE '' @ JANUS_GATEWAY_SYNTAX)], m))
      else ([line (''USAGE '' @ JANUS_GATEWAY_SYNTAX)], m))"

definition janus_api_commands ::
  "'h load_env \<Rightarrow> (string \<Rightarrow> string list) \<Rightarrow> bool \<Rightarrow> cstr \<Rightarrow> 'h module_t \<Rightarrow>
   switch_status_t \<times> string list \<times> 'h module_t" where
  "janus_api_commands l separate session cmd m =
     (if session then (SWITCH_STATUS_SUCCESS, [], m)
      else if zstr cmd then (SWITCH_STATUS_FALSE, [line (''USAGE '' @ JANUS_SYNTAX)], m)
      else let argv = separate (the cmd) in
           if length argv < 1 then (SWITCH_STATUS_FALSE, [line (''USAGE '' @ JANUS_SYNTAX)], m)
           else if strncasecmp_eq 6 (argv ! 0) ''status'' then
             (SWITCH_STATUS_SUCCESS,
              [line ''totalCalls|callsInProgress|started'',
               line (nat_str (unat (w_totalCalls (r_world (m_reg m)))) @ ''|''
                     @ nat_str (unat (w_callsInProgress (r_world (m_reg m)))) @ ''|'' @ int_str (m_started m))], m)
           else if strncasecmp_eq 5 (argv ! 0) ''debug'' then
             (if length argv \<ge> 2
              then (SWITCH_STATUS_SUCCESS, [line ''OK''], m\<lparr>m_debug := n_true (l_net l) (argv ! 1)\<rparr>)
              else (SWITCH_STATUS_SUCCESS, [line (''USAGE '' @ JANUS_DEBUG_SYNTAX)], m))
           else if strncasecmp_eq 6 (argv ! 0) ''list''
           then (SWITCH_STATUS_SUCCESS, serversSummary (l_core l) (m_reg m), m)
           else if strncasecmp_eq 7 (argv ! 0) ''server''
           then (SWITCH_STATUS_SUCCESS, server_command l argv m)
           else (SWITCH_STATUS_SUCCESS, [line (''USAGE '' @ JANUS_SYNTAX)], m))"


section \<open>Adding the configured servers\<close>

definition usable :: "net_env \<Rightarrow> params \<Rightarrow> bool" where
  "usable ne ps \<longleftrightarrow> (case map_of (rev ps) ''url'' of None \<Rightarrow> False | Some u \<Rightarrow> is_ws_url u \<longrightarrow> n_have_ws ne)"

definition wants_start :: "net_env \<Rightarrow> params \<Rightarrow> bool" where
  "wants_start ne ps \<longleftrightarrow> (\<exists>v. (''enabled'', v) \<in> set ps \<and> v \<noteq> [] \<and> n_true ne v)"

lemma param_flags:
  assumes "f \<in> {SFLAG_ENABLED, SFLAG_TERMINATING, SFLAG_DYNAMIC}"
  shows "test_flag (ext_rtp_ip g v s) f = test_flag s f" "test_flag (rtp_ip n g v s) f = test_flag s f"
    "pThread (ext_rtp_ip g v s) = pThread s" "pThread (rtp_ip n g v s) = pThread s"
proof -
  have f: "f \<in> sflags" "SFLAG_AUTO_NAT \<noteq> f" using assms by (auto simp: SFLAGS)
  have upd: "test_flag (s'\<lparr>extrtpip := x\<rparr>) f = test_flag s' f" for s' x by (simp add: test_flag_def)
  show "test_flag (ext_rtp_ip g v s) f = test_flag s f" "pThread (ext_rtp_ip g v s) = pThread s"
    using f by (simp_all add: ext_rtp_ip_def Let_def upd test_set_flag test_clear_flag)
      (simp_all add: set_flag_def clear_flag_def)
  show "test_flag (rtp_ip n g v s) f = test_flag s f" "pThread (rtp_ip n g v s) = pThread s"
    by (simp_all add: rtp_ip_def Let_def test_flag_def)
qed

lemma apply_param_other:
  assumes "k \<noteq> ''enabled''" and "f \<in> {SFLAG_ENABLED, SFLAG_TERMINATING, SFLAG_DYNAMIC}"
  shows "test_flag (apply_param n g (k, v) s) f = test_flag s f" "pThread (apply_param n g (k, v) s) = pThread s"
proof -
  have upd: "test_flag (s\<lparr>pUrl := x\<rparr>) f = test_flag s f" "test_flag (s\<lparr>pSecret := x\<rparr>) f = test_flag s f"
    "test_flag (s\<lparr>pAuthToken := x\<rparr>) f = test_flag s f" "test_flag (s\<lparr>pHmacSecret := x\<rparr>) f = test_flag s f"
    "test_flag (s\<lparr>local_network := x\<rparr>) f = test_flag s f" "test_flag (s\<lparr>cand_acl := y\<rparr>) f = test_flag s f"
    "test_flag (s\<lparr>codec_string := x\<rparr>) f = test_flag s f" for x y by (simp_all add: test_flag_def)
  have updp: "pThread (s\<lparr>pUrl := x\<rparr>) = pThread s" "pThread (s\<lparr>pSecret := x\<rparr>) = pThread s"
    "pThread (s\<lparr>pAuthToken := x\<rparr>) = pThread s" "pThread (s\<lparr>pHmacSecret := x\<rparr>) = pThread s"
    "pThread (s\<lparr>local_network := x\<rparr>) = pThread s" "pThread (s\<lparr>cand_acl := y\<rparr>) = pThread s"
    "pThread (s\<lparr>codec_string := x\<rparr>) = pThread s" for x y by simp_all
  have en: "(if k = ''enabled'' \<and> b then t else s) = s" for b and t :: "'a server_t"
    using assms(1) by simp
  show "test_flag (apply_param n g (k, v) s) f = test_flag s f" "pThread (apply_param n g (k, v) s) = pThread s"
    unfolding apply_param_def Let_def prod.case en
    by (simp_all only: if_distrib [of "\<lambda>s. test_flag s f"] if_distrib [of pThread] upd updp
        param_flags [OF assms(2)] if_cancel)
qed

lemma apply_param_enabled:
  "apply_param n g (''enabled'', v) s = (if v \<noteq> [] \<and> n_true n v then set_flag SFLAG_ENABLED s else s)"
  by (simp add: apply_param_def strcasecmp_eq_def c_tolower_def Let_def)

lemma apply_param_flags:
  "test_flag (apply_param n g kv s) SFLAG_ENABLED \<longleftrightarrow>
     test_flag s SFLAG_ENABLED \<or> (fst kv = ''enabled'' \<and> snd kv \<noteq> [] \<and> n_true n (snd kv))" (is ?A)
  "test_flag (apply_param n g kv s) SFLAG_TERMINATING = test_flag s SFLAG_TERMINATING" (is ?B)
  "test_flag (apply_param n g kv s) SFLAG_DYNAMIC = test_flag s SFLAG_DYNAMIC" (is ?C)
  "pThread (apply_param n g kv s) = pThread s" (is ?D)
proof -
  obtain k v where kv: "kv = (k, v)" by fastforce
  have en: "pThread (set_flag SFLAG_ENABLED s) = pThread s" by (simp add: set_flag_def)
  have "?A \<and> ?B \<and> ?C \<and> ?D"
  proof (cases "k = ''enabled''")
    case True
    then show ?thesis by (simp add: kv apply_param_enabled test_set_flag en) (simp add: SFLAGS)
  next
    case False
    then show ?thesis using apply_param_other(1) [OF False, of _ n g v s] apply_param_other(2) [OF False insertI1, of n g v s]
      by (simp add: kv)
  qed
  then show ?A ?B ?C ?D by auto
qed

lemma apply_params_flags:
  "test_flag (fold (apply_param n g) ps s) SFLAG_ENABLED \<longleftrightarrow> test_flag s SFLAG_ENABLED \<or> wants_start n ps"
  "test_flag (fold (apply_param n g) ps s) SFLAG_TERMINATING = test_flag s SFLAG_TERMINATING"
  "test_flag (fold (apply_param n g) ps s) SFLAG_DYNAMIC = test_flag s SFLAG_DYNAMIC"
  "pThread (fold (apply_param n g) ps s) = pThread s"
  by (induction ps arbitrary: s) (auto simp: apply_param_flags wants_start_def)


definition as_configured :: "net_env \<Rightarrow> string \<Rightarrow> params \<Rightarrow> 'h server_t \<Rightarrow> bool" where
  "as_configured ne n ps s \<longleftrightarrow> name s = Some n \<and> pUrl s = map_of (rev ps) ''url''
     \<and> (test_flag s SFLAG_ENABLED \<longleftrightarrow> wants_start ne ps) \<and> \<not> test_flag s SFLAG_DYNAMIC
     \<and> \<not> test_flag s SFLAG_TERMINATING \<and> \<not> pThread s"

lemma zero_server_flags [simp]:
  "\<not> test_flag ((zero_server t)\<lparr>name := a, codec_string := b, local_network := c\<rparr>) f"
  by (simp add: test_flag_def zero_server_def)

lemma serversAdd_new:
  assumes "serversFind C R n = None" "usable ne ps" "R' = snd (serversAdd C ne n ps R)"
  shows "r_names R' = snd (core_hash_insert C (r_names R) n (r_next R))" "r_next R' = Suc (r_next R)"
    "as_configured ne n ps (srv R' (r_next R))" "q \<noteq> r_next R \<Longrightarrow> srv R' q = srv R q"
proof -
  define s where "s = fold (apply_param ne (r_guess_ip R)) ps ((zero_server (snd (core_hash_init C)))
    \<lparr>name := Some n, codec_string := Some ''opus'', local_network := Some ''localnet.auto''\<rparr>)"
  obtain u where u: "map_of (rev ps) ''url'' = Some u" "is_ws_url u \<longrightarrow> n_have_ws ne"
    using assms(2) by (auto simp: usable_def split: option.splits)
  have url: "pUrl s = Some u" by (simp add: s_def apply_params_url u)
  define tp where "tp = (if is_ws_url u then JANUS_TP_WS else JANUS_TP_HTTP)"
  have eq: "r_names R' = snd (core_hash_insert C (r_names R) n (r_next R)) \<and> r_next R' = Suc (r_next R)
      \<and> srv R' q = (if q = r_next R then s\<lparr>transport := tp\<rparr> else srv R q)" for q
    using assms(1,3) u url
    by (auto simp: serversAdd_def Let_def s_def [symmetric] tp_def serversCaptureDefaults_def)
  have "as_configured ne n ps s"
    using u by (simp add: as_configured_def s_def apply_params_flags apply_params_name apply_params_url)
      (simp add: zero_server_def)
  then have "as_configured ne n ps (s\<lparr>transport := tp\<rparr>)" by (simp add: as_configured_def test_flag_def)
  with eq show "r_names R' = snd (core_hash_insert C (r_names R) n (r_next R))" "r_next R' = Suc (r_next R)"
    "as_configured ne n ps (srv R' (r_next R))" "q \<noteq> r_next R \<Longrightarrow> srv R' q = srv R q" by auto
qed

lemma serversAdd_other:
  assumes "\<not> (serversFind C R n = None \<and> usable ne ps)" "R' = snd (serversAdd C ne n ps R)"
  shows "r_names R' = r_names R" "r_next R \<le> r_next R'" "q < r_next R \<Longrightarrow> srv R' q = srv R q"
  using assms
  by (auto simp: serversAdd_def Let_def usable_def apply_params_url zero_server_def split: option.splits if_splits)

lemma add_servers_effect:
  assumes "core_table (l_core l)" and "\<And>t k p. fst (core_hash_insert (l_core l) t k p) = SWITCH_STATUS_SUCCESS"
    and "distinct (map fst xs)" "\<forall>n \<in> fst ` set xs. serversFind (l_core l) R n = None"
    and "R' = add_servers l xs R"
  shows "(\<forall>n. n \<notin> fst ` set xs \<longrightarrow> serversFind (l_core l) R' n = serversFind (l_core l) R n)
    \<and> (\<forall>n ps. (n, ps) \<in> set xs \<longrightarrow>
        (if usable (l_net l) ps
         then \<exists>p \<ge> r_next R. serversFind (l_core l) R' n = Some p \<and> as_configured (l_net l) n ps (srv R' p)
         else serversFind (l_core l) R' n = None))
    \<and> (\<forall>q < r_next R. srv R' q = srv R q) \<and> r_next R \<le> r_next R'"
  using assms(3-5)
proof (induction xs arbitrary: R)
  case Nil
  then show ?case by (simp add: add_servers_def)
next
  case (Cons x xs)
  let ?C = "l_core l"
  obtain n ps where x: "x = (n, ps)" by fastforce
  define R1 where "R1 = snd (serversAdd ?C (l_net l) n ps R)"
  have find1: "serversFind ?C R1 k = (if k = n \<and> usable (l_net l) ps then Some (r_next R) else serversFind ?C R k)"
    and next1: "r_next R \<le> r_next R1" and old1: "\<forall>q < r_next R. srv R1 q = srv R q"
    and new1: "usable (l_net l) ps \<Longrightarrow> as_configured (l_net l) n ps (srv R1 (r_next R)) \<and> r_next R < r_next R1"
    for k
  proof -
    have new: "serversFind ?C R n = None" using Cons.prems(2) x by auto
    have "serversFind ?C R1 k = (if k = n \<and> usable (l_net l) ps then Some (r_next R) else serversFind ?C R k)
      \<and> r_next R \<le> r_next R1 \<and> (\<forall>q < r_next R. srv R1 q = srv R q)
      \<and> (usable (l_net l) ps \<longrightarrow> as_configured (l_net l) n ps (srv R1 (r_next R)) \<and> r_next R < r_next R1)"
    proof (cases "usable (l_net l) ps")
      case True
      have "core_hash_insert ?C (r_names R) n (r_next R) =
          (SWITCH_STATUS_SUCCESS, snd (core_hash_insert ?C (r_names R) n (r_next R)))"
        using assms(2) by (metis prod.collapse)
      from core_table.insert_success [OF assms(1) this] serversAdd_new [OF new True R1_def] True show ?thesis
        by (simp add: serversFind_def)
    next
      case False
      with serversAdd_other [of ?C R n "l_net l" ps R1] R1_def show ?thesis by (auto simp: serversFind_def)
    qed
    then show "serversFind ?C R1 k = (if k = n \<and> usable (l_net l) ps then Some (r_next R) else serversFind ?C R k)"
      "r_next R \<le> r_next R1" "\<forall>q < r_next R. srv R1 q = srv R q"
      "usable (l_net l) ps \<Longrightarrow> as_configured (l_net l) n ps (srv R1 (r_next R)) \<and> r_next R < r_next R1" by auto
  qed
  have nn: "n \<notin> fst ` set xs" using Cons.prems(1) x by auto
  have "\<forall>k \<in> fst ` set xs. serversFind ?C R1 k = None"
  proof
    fix k assume "k \<in> fst ` set xs"
    moreover from this have "k \<noteq> n" using nn by blast
    ultimately show "serversFind ?C R1 k = None" using Cons.prems(2) find1 [of k] by auto
  qed
  moreover have "distinct (map fst xs)" "R' = add_servers l xs R1"
    using Cons.prems x by (auto simp: add_servers_def R1_def)
  ultimately have pre: "distinct (map fst xs)" "\<forall>k \<in> fst ` set xs. serversFind ?C R1 k = None"
    "R' = add_servers l xs R1" by blast+
  note IH = Cons.IH [OF pre]
  show ?case
  proof (intro conjI allI impI)
    fix k assume "k \<notin> fst ` set (x # xs)"
    then show "serversFind ?C R' k = serversFind ?C R k" using IH x by (simp add: find1)
  next
    fix q assume "q < r_next R"
    then show "srv R' q = srv R q" using IH old1 next1 by (metis le_trans less_le_trans)
  next
    show "r_next R \<le> r_next R'" using IH next1 by linarith
  next
    fix k qs assume mem: "(k, qs) \<in> set (x # xs)"
    show "if usable (l_net l) qs
         then \<exists>p \<ge> r_next R. serversFind ?C R' k = Some p \<and> as_configured (l_net l) k qs (srv R' p)
         else serversFind ?C R' k = None"
    proof (cases "(k, qs) = x")
      case True
      then have k: "k = n" "qs = ps" using x by auto
      have "serversFind ?C R' n = serversFind ?C R1 n" using IH nn by blast
      then show ?thesis using new1 IH find1 [of n] k Cons.prems(2) x by auto
    next
      case False
      then have "(k, qs) \<in> set xs" using mem by simp
      with IH next1 show ?thesis by (metis (full_types) le_trans)
    qed
  qed
qed


section \<open>Starting the threads\<close>

lemma start_configured_simps:
  "r_names (start_configured p R) = r_names R"
  "srv (start_configured p R) q =
     (if q = p \<and> test_flag (srv R p) SFLAG_ENABLED \<and> \<not> test_flag (srv R p) SFLAG_DYNAMIC
      then (set_flag SFLAG_ENABLED (srv R p))\<lparr>pThread := True\<rparr> else srv R q)"
  by (simp_all add: start_configured_def startServerThread_def)

lemma start_all:
  assumes "as_configured ne n ps (srv R p)" and "R' = fold start_configured qs R"
  shows "r_names R' = r_names R"
    and "name (srv R' p) = Some n \<and> pUrl (srv R' p) = map_of (rev ps) ''url''
      \<and> (pThread (srv R' p) \<longleftrightarrow> p \<in> set qs \<and> wants_start ne ps)"
proof -
  define ok where "ok t s \<longleftrightarrow> name s = Some n \<and> pUrl s = map_of (rev ps) ''url'' \<and> pThread s = t
    \<and> (test_flag s SFLAG_ENABLED \<longleftrightarrow> wants_start ne ps) \<and> \<not> test_flag s SFLAG_DYNAMIC" for t and s :: "'a server_t"
  have start: "ok (t \<and> wants_start ne ps \<or> p = q \<and> wants_start ne ps) (srv (start_configured q R) p)"
    if "ok (t \<and> wants_start ne ps) (srv R p)" for t q and R :: "'a registry"
    using that by (auto simp: ok_def start_configured_simps test_set_flag)
  have "ok ((t \<or> p \<in> set qs) \<and> wants_start ne ps) (srv (fold start_configured qs R) p)"
    if "ok (t \<and> wants_start ne ps) (srv R p)" for t
    using that
  proof (induction qs arbitrary: R t)
    case (Cons q qs)
    have "ok ((t \<or> p = q) \<and> wants_start ne ps) (srv (start_configured q R) p)"
      using start [OF Cons.prems, of q] by (simp add: conj_disj_distribR)
    from Cons.IH [OF this] show ?case by (simp add: disj_assoc)
  qed simp
  from this [of False] assms show "name (srv R' p) = Some n \<and> pUrl (srv R' p) = map_of (rev ps) ''url''
      \<and> (pThread (srv R' p) \<longleftrightarrow> p \<in> set qs \<and> wants_start ne ps)"
    by (simp add: ok_def as_configured_def)
  show "r_names R' = r_names R"
    unfolding assms(2) by (induction qs arbitrary: R) (simp_all add: start_configured_simps)
qed

lemma all_servers_iff:
  assumes "core_table C"
  shows "p \<in> set (all_servers C R) \<longleftrightarrow> (\<exists>n. serversFind C R n = Some p)"
proof -
  have "(n, p) \<in> set (core_hash_entries C t) \<longleftrightarrow> core_hash_find C t n = Some p" for n t
    using core_table.entries_find [OF assms] core_table.entries_distinct [OF assms] by (metis map_of_eq_Some_iff)
  then show ?thesis by (force simp: all_servers_def serversFind_def)
qed

text \<open>What reading the configuration leaves alone: the name table, until servers are added, and the registry thread.\<close>

lemma settings_frame:
  "apply_settings n kvs m = Inr m' \<Longrightarrow>
   r_names (m_reg m') = r_names (m_reg m) \<and> r_registry_thread (m_reg m') = r_registry_thread (m_reg m)"
proof (induction kvs arbitrary: m)
  case (Cons kv kvs)
  have "r_names (m_reg m1) = r_names (m_reg m) \<and> r_registry_thread (m_reg m1) = r_registry_thread (m_reg m)"
    if "apply_setting n kv m = Inr m1" for m1
    using that by (auto simp: apply_setting_def upd_reg_def cbind_Inr_iff split: prod.splits if_splits)
  with Cons show ?case by (auto simp: cbind_Inr_iff)
qed simp

lemma registry_frames [simp]:
  "r_names (registry_defaults R) = r_names R" "r_names (serversStartRegistry R) = r_names R"
  "srv (serversStartRegistry R) p = srv R p" "r_registry_thread (registry_defaults R) = r_registry_thread R"
  "r_registry_thread (upd_srv p f R) = r_registry_thread R" "r_registry_thread (upd_world g R) = r_registry_thread R"
  by (simp_all add: registry_defaults_def serversStartRegistry_def Let_def upd_srv_def upd_world_def)

lemma add_servers_frame: "r_registry_thread (add_servers l xs R) = r_registry_thread R"
proof -
  have "r_registry_thread (snd (serversAdd C ne n ps R)) = r_registry_thread R" for C :: "'a core_hash" and ne n ps R
    by (simp add: serversAdd_def Let_def serversCaptureDefaults_def split: option.splits)
  then show ?thesis unfolding add_servers_def by (induction xs arbitrary: R) auto
qed

lemma load_config_result:
  assumes "load_config l m = Inr (st, m1)" "l_cfg l = Some cfg"
  shows "\<exists>R0. r_names R0 = r_names (m_reg m) \<and> r_registry_thread R0 = r_registry_thread (m_reg m)
    \<and> m_reg m1 = add_servers l (c_servers cfg) (registry_defaults R0)"
proof -
  from assms obtain m0 where s: "apply_settings (l_net l) (case c_settings cfg of None \<Rightarrow> [] | Some ps \<Rightarrow> ps) m = Inr m0"
    and "(if c_servers cfg = [] then Inr (SWITCH_STATUS_TERM, upd_reg registry_defaults m0)
          else Inr (SWITCH_STATUS_SUCCESS, upd_reg (add_servers l (c_servers cfg)) (upd_reg registry_defaults m0)))
        = (Inr (st, m1) :: (switch_status_t \<times> 'a module_t) cres)"
    by (auto simp: load_config_def cbind_Inr_iff Let_def)
  then have "m_reg m1 = add_servers l (c_servers cfg) (registry_defaults (m_reg m0))"
    by (auto simp: upd_reg_def add_servers_def split: if_splits)
  with settings_frame [OF s] show ?thesis by blast
qed

section \<open>Properties\<close>

text \<open>
  C33: loading the module. With a configuration that can be read and tables that can be made, loading succeeds
  and registers the endpoint; a configured name is found afterwards exactly if its parameters are
  usable (a URL, and for a WebSocket URL a build with WebSocket support), with the URL configured last; its thread
  runs exactly if it is enabled, and the registry thread exactly if there is a headless service.
\<close>

theorem load_starts_enabled:
  assumes "core_table (l_core l)" and ins: "\<And>t k p. fst (core_hash_insert (l_core l) t k p) = SWITCH_STATUS_SUCCESS"
    and "fst (core_hash_init (l_core l)) = SWITCH_STATUS_SUCCESS" and "l_mutex_init l = SWITCH_STATUS_SUCCESS"
    and "l_cfg l = Some cfg" and "distinct (map fst (c_servers cfg))"
    and load: "mod_janus_load l m = Inr (st, m')"
  shows "st = SWITCH_STATUS_SUCCESS \<and> m_endpoint m'
    \<and> (r_registry_thread (m_reg m') \<longleftrightarrow> \<not> zstr (r_headless_service_url (m_reg m')))
    \<and> (\<forall>n. serversFind (l_core l) (m_reg m') n \<noteq> None \<longleftrightarrow> (\<exists>ps. (n, ps) \<in> set (c_servers cfg) \<and> usable (l_net l) ps))
    \<and> (\<forall>n ps. (n, ps) \<in> set (c_servers cfg) \<and> usable (l_net l) ps \<longrightarrow>
        (\<exists>p. serversFind (l_core l) (m_reg m') n = Some p \<and> name (srv (m_reg m') p) = Some n
          \<and> pUrl (srv (m_reg m') p) = map_of (rev ps) ''url'' \<and> (pThread (srv (m_reg m') p) \<longleftrightarrow> wants_start (l_net l) ps)))"
proof -
  let ?C = "l_core l"
  obtain st1 m1 where cfg: "load_config l (fresh_globals l m) = Inr (st1, m1)"
    using load by (auto simp: mod_janus_load_def cbind_Inr_iff)
  define h where "h = snd (hashCreate ?C (l_mutex_init l) (w_serverIdLookup (r_world (m_reg m1))))"
  define R2 where "R2 = upd_world (\<lambda>w. w\<lparr>w_serverIdLookup := h\<rparr>) (m_reg m1)"
  define R3 where "R3 = fold start_configured (all_servers ?C R2) R2"
  have hc: "hashCreate ?C (l_mutex_init l) k = (SWITCH_STATUS_SUCCESS, snd (hashCreate ?C (l_mutex_init l) k))" for k
    using assms(3,4) by (auto simp: hashCreate_def Let_def split: prod.splits)
  have out: "st = SWITCH_STATUS_SUCCESS" "m_endpoint m'" "m_reg m' = serversStartRegistry R3"
    using load cfg hc [of "w_serverIdLookup (r_world (m_reg m1))"]
    by (auto simp: mod_janus_load_def Let_def h_def R2_def R3_def upd_reg_def serversBindStartThread_def
        serversBindStopThread_def split: prod.splits if_splits)
  obtain R0 where R0: "r_names R0 = snd (core_hash_init ?C)" "\<not> r_registry_thread R0"
    and R1: "m_reg m1 = add_servers l (c_servers cfg) (registry_defaults R0)"
    using load_config_result [OF cfg assms(5)] by (auto simp: fresh_globals_def)
  have empty: "serversFind ?C (registry_defaults R0) n = None" for n
    using core_table.init_find [OF assms(1)] assms(3) R0 by (simp add: serversFind_def) (metis prod.collapse)
  note added = add_servers_effect [OF assms(1) ins assms(6) _ R1, unfolded empty, simplified]
  have find2: "serversFind ?C R2 n = serversFind ?C (m_reg m1) n" and srv2: "srv R2 p = srv (m_reg m1) p" for n p
    by (simp_all add: R2_def serversFind_def upd_world_def)
  have names3: "r_names R3 = r_names R2"
    unfolding R3_def by (rule fold_invariant [where P = "\<lambda>R. r_names R = r_names R2" and Q = "\<lambda>_. True"])
      (simp_all add: start_configured_simps)
  then have find3: "serversFind ?C (m_reg m') n = serversFind ?C (m_reg m1) n" for n
    using out(3) find2 by (simp add: serversFind_def)
  have each: "\<exists>p. serversFind ?C (m_reg m') n = Some p \<and> name (srv (m_reg m') p) = Some n
      \<and> pUrl (srv (m_reg m') p) = map_of (rev ps) ''url'' \<and> (pThread (srv (m_reg m') p) \<longleftrightarrow> wants_start (l_net l) ps)"
    if mem: "(n, ps) \<in> set (c_servers cfg)" "usable (l_net l) ps" for n ps
  proof -
    from added mem obtain p where p: "serversFind ?C (m_reg m1) n = Some p" "as_configured (l_net l) n ps (srv R2 p)"
      unfolding srv2 by (metis (full_types))
    then have "p \<in> set (all_servers ?C R2)" using all_servers_iff [OF assms(1)] find2 by metis
    with start_all(2) [OF p(2) R3_def] p(1) show ?thesis unfolding find3 by (intro exI [of _ p]) (simp add: out(3))
  qed
  moreover have "serversFind ?C (m_reg m') n \<noteq> None \<longleftrightarrow> (\<exists>ps. (n, ps) \<in> set (c_servers cfg) \<and> usable (l_net l) ps)" for n
  proof
    assume some: "serversFind ?C (m_reg m') n \<noteq> None"
    then obtain ps where ps: "(n, ps) \<in> set (c_servers cfg)" using added find3 [of n] by fastforce
    with added have "if usable (l_net l) ps then True else serversFind ?C (m_reg m1) n = None" by presburger
    with some ps show "\<exists>ps. (n, ps) \<in> set (c_servers cfg) \<and> usable (l_net l) ps"
      unfolding find3 by (auto split: if_splits)
  qed (use each in fastforce)
  moreover have "r_registry_thread (m_reg m') \<longleftrightarrow> \<not> zstr (r_headless_service_url (m_reg m'))"
  proof -
    have "\<not> r_registry_thread R3"
      unfolding R3_def
    proof (rule fold_invariant [where P = "\<lambda>R. \<not> r_registry_thread R" and Q = "\<lambda>_. True"])
      show "\<not> r_registry_thread R2" using R0 by (simp add: R2_def R1 add_servers_frame)
    qed (simp_all add: start_configured_def startServerThread_def)
    then show ?thesis by (simp add: out(3) serversStartRegistry_def)
  qed
  ultimately show ?thesis using out by blast
qed


text \<open>A configuration with one enabled and one disabled server.\<close>

definition sample_load :: "(string \<times> ptr) list load_env" where
  "sample_load = \<lparr>l_core = alist_core, l_net = sample_net, l_guess_ip = ''10.0.0.1'', l_nat = False,
     l_mutex_init = SWITCH_STATUS_SUCCESS, l_mutex_destroy = SWITCH_STATUS_SUCCESS,
     l_cfg = Some \<lparr>c_settings = Some [(''debug'', ''true'')],
       c_servers = [(''demo'', [(''url'', ''http://j''), (''enabled'', ''true'')]), (''spare'', [(''url'', ''http://k'')])]\<rparr>,
     l_thread = sample_thread_env, l_sid = (\<lambda>_. 0)\<rparr>"

definition sample_module :: "(string \<times> ptr) list module_t" where
  "sample_module = \<lparr>m_reg = sample_registry, m_debug = False, m_auto_nat = False, m_started = 0,
     m_libks = \<lparr>g_libks_ref_mutex = False, g_libks_refs = 0, libks_live = False\<rparr>, m_endpoint = False,
     m_start = None, m_stop = None\<rparr>"

lemma sample_loads: "\<exists>m'. mod_janus_load sample_load sample_module = Inr (SWITCH_STATUS_SUCCESS, m')"
  by (simp add: mod_janus_load_def load_config_def sample_load_def apply_setting_def Let_def hashCreate_def alist_core_def
      split: prod.splits)

theorem load_starts_enabled_witness:
  "\<exists>m' p q. mod_janus_load sample_load sample_module = Inr (SWITCH_STATUS_SUCCESS, m')
     \<and> serversFind alist_core (m_reg m') ''demo'' = Some p \<and> pThread (srv (m_reg m') p)
     \<and> serversFind alist_core (m_reg m') ''spare'' = Some q \<and> \<not> pThread (srv (m_reg m') q)"
proof -
  obtain m' where m': "mod_janus_load sample_load sample_module = Inr (SWITCH_STATUS_SUCCESS, m')"
    using sample_loads by blast
  define cfg where "cfg = the (l_cfg sample_load)"
  have l: "l_core sample_load = alist_core" "l_net sample_load = sample_net" "l_cfg sample_load = Some cfg"
    "l_mutex_init sample_load = SWITCH_STATUS_SUCCESS" by (simp_all add: sample_load_def cfg_def)
  have C: "core_table (l_core sample_load)" by (simp add: l alist.core_table_axioms)
  have ins: "fst (core_hash_insert (l_core sample_load) t k p) = SWITCH_STATUS_SUCCESS" for t k p
    by (simp add: l alist_core_def)
  have init: "fst (core_hash_init (l_core sample_load)) = SWITCH_STATUS_SUCCESS" by (simp add: l alist_core_def)
  have servers: "c_servers cfg = [(''demo'', [(''url'', ''http://j''), (''enabled'', ''true'')]), (''spare'', [(''url'', ''http://k'')])]"
    by (simp add: cfg_def sample_load_def)
  have d: "distinct (map fst (c_servers cfg))" by (simp add: servers)
  have us: "usable sample_net [(''url'', ''http://j''), (''enabled'', ''true'')]" "usable sample_net [(''url'', ''http://k'')]"
    by (simp_all add: usable_def is_ws_url_def strncasecmp_eq_def c_tolower_def Let_def)
  have ws: "wants_start sample_net [(''url'', ''http://j''), (''enabled'', ''true'')]"
    "\<not> wants_start sample_net [(''url'', ''http://k'')]"
    by (auto simp: wants_start_def sample_net_def)
  from load_starts_enabled [OF C ins init l(4,3) d m'] us ws show ?thesis
    unfolding l servers using m' by (metis list.set_intros(1) list.set_intros(2))
qed

section \<open>The threads over the life of the module\<close>

text \<open>What can happen between loading and unloading: a console command, a refresh of the registry.\<close>

datatype module_op = Console bool cstr | Refresh "wire \<Rightarrow> cjson option" "string \<Rightarrow> cstr list option"

definition module_step :: "'h load_env \<Rightarrow> (string \<Rightarrow> string list) \<Rightarrow> module_op \<Rightarrow> 'h module_t \<Rightarrow> 'h module_t" where
  "module_step l separate op m = (case op of
     Console session cmd \<Rightarrow> snd (snd (janus_api_commands l separate session cmd m))
   | Refresh net resolve \<Rightarrow>
       upd_reg (\<lambda>R. snd (serversRegistryRefresh (l_core l) net resolve (m_start m) (m_stop m) R)) m)"

text \<open>No server is being terminated, and a server with a thread is enabled.\<close>

definition thread_ok :: "'h server_t \<Rightarrow> bool" where
  "thread_ok s \<longleftrightarrow> \<not> test_flag s SFLAG_TERMINATING \<and> (pThread s \<longrightarrow> test_flag s SFLAG_ENABLED)"

definition threads_ok :: "'h registry \<Rightarrow> bool" where
  "threads_ok R \<longleftrightarrow> (\<forall>p. thread_ok (srv R p))"

definition same_thread :: "'h server_t \<Rightarrow> 'h server_t \<Rightarrow> bool" where
  "same_thread s s' \<longleftrightarrow> pThread s' = pThread s \<and> (test_flag s' SFLAG_TERMINATING \<longleftrightarrow> test_flag s SFLAG_TERMINATING)
     \<and> (test_flag s' SFLAG_ENABLED \<longleftrightarrow> test_flag s SFLAG_ENABLED)"

lemma flags_pThread [simp]: "pThread (set_flag f s) = pThread s" "pThread (clear_flag f s) = pThread s"
  by (simp_all add: set_flag_def clear_flag_def)

lemma flags_distinct [simp]:
  "SFLAG_ENABLED \<noteq> SFLAG_TERMINATING" "SFLAG_TERMINATING \<noteq> SFLAG_ENABLED" "SFLAG_EVICTED \<noteq> SFLAG_TERMINATING" "SFLAG_TERMINATING \<noteq> SFLAG_EVICTED"
  "SFLAG_EVICTED \<noteq> SFLAG_ENABLED" "SFLAG_DYNAMIC \<noteq> SFLAG_ENABLED" "SFLAG_DYNAMIC \<noteq> SFLAG_TERMINATING"
  by (simp_all add: SFLAGS)

lemma same_thread_ok: "same_thread s s' \<Longrightarrow> thread_ok s \<Longrightarrow> thread_ok s'"
  by (simp add: same_thread_def thread_ok_def)

lemma removed_thread:
  "pThread (srv (serversDynamicRemoveFromLookup C p R) q) = pThread (srv R q)"
  "test_flag (srv (serversDynamicRemoveFromLookup C p R) q) SFLAG_TERMINATING = test_flag (srv R q) SFLAG_TERMINATING"
  "q \<noteq> p \<Longrightarrow> srv (serversDynamicRemoveFromLookup C p R) q = srv R q"
  "r_registry_thread (serversDynamicRemoveFromLookup C p R) = r_registry_thread R"
  by (auto simp: serversDynamicRemoveFromLookup_def Let_def test_clear_flag split: option.splits)

lemma done_thread:
  "pThread (srv (thread_done v p i R) q) = pThread (srv R q)"
  "test_flag (srv (thread_done v p i R) q) SFLAG_TERMINATING = test_flag (srv R q) SFLAG_TERMINATING"
  "q \<noteq> p \<Longrightarrow> srv (thread_done v p i R) q = srv R q"
  "r_registry_thread (thread_done v p i R) = r_registry_thread R"
proof -
  have ws: "pThread (srv (ws_close v p R) q) = pThread (srv R q)" "q \<noteq> p \<Longrightarrow> srv (ws_close v p R) q = srv R q"
    "r_registry_thread (ws_close v p R) = r_registry_thread R" for R
    by (simp_all add: ws_close_def)
  show "pThread (srv (thread_done v p i R) q) = pThread (srv R q)"
    "test_flag (srv (thread_done v p i R) q) SFLAG_TERMINATING = test_flag (srv R q) SFLAG_TERMINATING"
    "q \<noteq> p \<Longrightarrow> srv (thread_done v p i R) q = srv R q"
    "r_registry_thread (thread_done v p i R) = r_registry_thread R"
    by (simp_all add: thread_done_def Let_def removed_thread ws)
qed


lemma start_threads_ok: "threads_ok R \<Longrightarrow> threads_ok (startServerThread b p R)"
  by (simp add: threads_ok_def startServerThread_def thread_ok_def test_set_flag)

lemma cleared_flags:
  "\<not> test_flag (clear_flag (SFLAG_TERMINATING OR SFLAG_ENABLED) s) SFLAG_TERMINATING"
  by (simp add: test_flag_bit clear_flag_def bit_and_iff bit_not_iff bit_or_iff) (simp add: SFLAGS)

lemma stop_effect:
  assumes "threads_ok R" and "R' = stopServerThread v sid p R"
  shows "threads_ok R'" "\<not> pThread (srv R' p)" "pThread (srv R' q) \<Longrightarrow> pThread (srv R q)"
    "r_registry_thread R' = r_registry_thread R"
proof -
  have p: "thread_ok (srv R p)" using assms(1) by (simp add: threads_ok_def)
  have other: "srv R' q = srv R q" if "q \<noteq> p" for q
    using that assms(2) by (simp add: stopServerThread_def Let_def done_thread removed_thread)
  have at: "\<not> pThread (srv R' p) \<and> \<not> test_flag (srv R' p) SFLAG_TERMINATING"
    using p assms(2) by (auto simp: stopServerThread_def Let_def done_thread removed_thread cleared_flags thread_ok_def)
  show "threads_ok R'"
    unfolding threads_ok_def using at other assms(1) by (metis thread_ok_def threads_ok_def)
  show "\<not> pThread (srv R' p)" using at by simp
  show "pThread (srv R' q) \<Longrightarrow> pThread (srv R q)" using at other by metis
  show "r_registry_thread R' = r_registry_thread R"
    using assms(2) by (simp add: stopServerThread_def Let_def done_thread removed_thread)
qed

lemma upd_threads_ok:
  "threads_ok R \<Longrightarrow> (thread_ok (srv R p) \<Longrightarrow> thread_ok (f (srv R p))) \<Longrightarrow> threads_ok (upd_srv p f R)"
  by (simp add: threads_ok_def)

lemma threads_ok_frame [simp]:
  "threads_ok (R\<lparr>r_names := t\<rparr>) = threads_ok R" "threads_ok (R\<lparr>r_next := i\<rparr>) = threads_ok R"
  by (simp_all add: threads_ok_def)

lemma endpoint_threads_ok:
  assumes "threads_ok R" and "\<And>p R. threads_ok R \<Longrightarrow> threads_ok (call_thread_fn start p R)"
  shows "threads_ok (apply_endpoint C start ep R)"
proof -
  have clone: "pThread (serverCloneDefaults d s) = pThread d"
    "test_flag (serverCloneDefaults d s) SFLAG_TERMINATING = test_flag d SFLAG_TERMINATING" for d s :: "'a server_t"
    by (simp_all add: serverCloneDefaults_def Let_def test_set_flag) (simp_all add: test_flag_def SFLAGS)
  have update: "thread_ok (update_server now ip url s)" if "thread_ok s" for now ip url and s :: "'a server_t"
    using that by (simp add: update_server_def Let_def thread_ok_def test_flag_def)
  have zero: "pThread (zero_server t) = False" "test_flag ((zero_server t)\<lparr>last_activity := a, name := b, pUrl := c, pod_ip := d\<rparr>) f = False"
    for t :: 'a and a b c d f by (simp_all add: zero_server_def test_flag_def)
  show ?thesis
    using assms
    by (auto simp: apply_endpoint_def serversCreateRegistryServer_def serversUpdateRegistryServer_def Let_def
        thread_ok_def [of "set_flag _ _"] test_set_flag clone zero update split: option.splits
        intro!: assms(2) upd_threads_ok)
qed

lemma evict_threads_ok: "threads_ok R \<Longrightarrow> threads_ok (evict_server C (Some (stopServerThread v sid)) p R)"
  unfolding evict_server_def Let_def option.case
  by (intro stop_effect(1) [OF _ refl] upd_threads_ok) (simp_all add: thread_ok_def test_set_flag)

lemma fold_keeps: "P x \<Longrightarrow> (\<And>a x. P x \<Longrightarrow> P (f a x)) \<Longrightarrow> P (fold f as x)"
  by (induction as arbitrary: x) auto

lemma refresh_threads_ok:
  assumes "threads_ok R"
  shows "threads_ok (snd (serversRegistryRefresh C net resolve (Some (startServerThread True))
    (Some (stopServerThread v sid)) R))"
proof -
  have "threads_ok (call_thread_fn (Some (startServerThread True)) p R)" if "threads_ok R" for p and R :: "'a registry"
    using that by (simp add: call_thread_fn_def start_threads_ok)
  note step = endpoint_threads_ok [OF _ this]
  show ?thesis
    using assms
    by (auto simp: serversRegistryRefresh_def Let_def split: option.splits
        intro!: fold_keeps [where P = threads_ok] step evict_threads_ok)
qed


lemma upd_reg_simps [simp]:
  "m_reg (upd_reg f m) = f (m_reg m)" "m_start (upd_reg f m) = m_start m" "m_stop (upd_reg f m) = m_stop m"
  by (simp_all add: upd_reg_def)

text \<open>The invariant of the module between loading and unloading: also the thread functions are bound.\<close>

definition module_ok :: "'h load_env \<Rightarrow> 'h module_t \<Rightarrow> bool" where
  "module_ok l m \<longleftrightarrow> threads_ok (m_reg m) \<and> m_start m = Some (startServerThread True)
     \<and> m_stop m = Some (stopServerThread (l_thread l) (l_sid l))"

lemma module_step_ok: "module_ok l m \<Longrightarrow> module_ok l (module_step l separate op m)"
proof (cases op)
  case (Console session cmd)
  assume "module_ok l m"
  moreover have "janus_api_commands l separate session cmd m = (st, out, m') \<Longrightarrow>
      m' = m \<or> (\<exists>b. m' = m\<lparr>m_debug := b\<rparr>) \<or> (\<exists>p. m' = upd_reg (startServerThread False p) m)
      \<or> (\<exists>p. m' = upd_reg (stopServerThread (l_thread l) (l_sid l) p) m)" for st out m'
    by (auto simp: janus_api_commands_def server_command_def Let_def split: if_splits option.splits)
  moreover obtain st out m' where r: "janus_api_commands l separate session cmd m = (st, out, m')"
    by (cases "janus_api_commands l separate session cmd m") auto
  ultimately show ?thesis
    using Console by (auto simp: module_step_def module_ok_def start_threads_ok stop_effect(1) [OF _ refl])
qed (simp add: module_step_def module_ok_def refresh_threads_ok)

lemma load_module_ok:
  assumes "\<forall>p. thread_ok (srv (m_reg m) p)" and "mod_janus_load l m = Inr (SWITCH_STATUS_SUCCESS, m')"
  shows "module_ok l m'"
proof -
  have add: "threads_ok (snd (serversAdd C ne n ps R))" if "threads_ok R" for C :: "'a core_hash" and ne n ps R
  proof -
    have "thread_ok (fold (apply_param ne g) ps ((zero_server t)\<lparr>name := a, codec_string := b, local_network := c\<rparr>))"
      for g t a b c by (simp add: thread_ok_def apply_params_flags) (simp add: zero_server_def)
    moreover have "thread_ok (s\<lparr>transport := tp\<rparr>) = thread_ok s" for s :: "'a server_t" and tp
      by (simp add: thread_ok_def test_flag_def)
    ultimately show ?thesis
      using that by (auto simp: serversAdd_def Let_def threads_ok_def serversCaptureDefaults_def split: option.splits)
  qed
  have "threads_ok (m_reg m2)" if "apply_setting n kv m1 = Inr m2" "threads_ok (m_reg m1)" for n kv and m1 m2 :: "'a module_t"
    using that by (auto simp: apply_setting_def upd_reg_def cbind_Inr_iff threads_ok_def split: prod.splits if_splits)
  then have settings: "threads_ok (m_reg m2)" if "apply_settings n kvs m1 = Inr m2" "threads_ok (m_reg m1)"
    for n kvs and m1 m2 :: "'a module_t"
    using that by (induction kvs arbitrary: m1) (auto simp: cbind_Inr_iff)
  have adds: "threads_ok (add_servers l xs R)" if "threads_ok R" for xs R
    unfolding add_servers_def using that by (rule fold_keeps) (auto intro: add)
  have defaults: "threads_ok (registry_defaults R) = threads_ok R" "threads_ok (serversStartRegistry R) = threads_ok R"
    for R :: "'a registry" by (simp_all add: registry_defaults_def serversStartRegistry_def Let_def threads_ok_def)
  have start: "threads_ok (fold start_configured qs R)" if "threads_ok R" for qs and R :: "'a registry"
    using that by (rule fold_keeps) (simp add: start_configured_def start_threads_ok)
  have fresh: "threads_ok (m_reg (fresh_globals l m))" using assms(1) by (simp add: fresh_globals_def threads_ok_def)
  obtain st1 m1 where cfg: "load_config l (fresh_globals l m) = Inr (st1, m1)"
    using assms(2) by (auto simp: mod_janus_load_def cbind_Inr_iff)
  have m1: "threads_ok (m_reg m1)"
    using cfg fresh by (auto simp: load_config_def cbind_Inr_iff Let_def adds defaults dest: settings split: option.splits if_splits)
  then have "threads_ok (upd_world (\<lambda>w. w\<lparr>w_serverIdLookup := h\<rparr>) (m_reg m1))" for h
    by (simp add: threads_ok_def)
  with assms(2) cfg show ?thesis
    by (auto simp: mod_janus_load_def Let_def module_ok_def serversBindStartThread_def serversBindStopThread_def defaults
        start upd_reg_def split: prod.splits if_splits)
qed

lemma stop_all:
  assumes "threads_ok R" and "R' = fold (stopServerThread v sid) qs R"
  shows "(\<forall>q \<in> set qs. \<not> pThread (srv R' q)) \<and> r_registry_thread R' = r_registry_thread R"
proof -
  have "\<not> pThread (srv (fold (stopServerThread v sid) qs R) q)" if "threads_ok R" "q \<in> set qs \<or> \<not> pThread (srv R q)" for q
    using that
  proof (induction qs arbitrary: R)
    case (Cons p qs)
    note s = stop_effect [OF Cons.prems(1) refl, of v sid p]
    have "q \<in> set qs \<or> \<not> pThread (srv (stopServerThread v sid p R) q)" using Cons.prems(2) s(2,3) by auto
    from Cons.IH [OF s(1) this] show ?case by simp
  qed simp
  moreover have "r_registry_thread (fold (stopServerThread v sid) qs R) = r_registry_thread R" if "threads_ok R"
    using that by (induction qs arbitrary: R) (simp_all add: stop_effect(1,4) [OF _ refl])
  ultimately show ?thesis using assms by blast
qed

lemma stop_keeps_names:
  assumes "\<forall>p \<in> set qs. \<not> test_flag (srv R p) SFLAG_EVICTED"
  shows "r_names (fold (stopServerThread v sid) qs R) = r_names R"
proof -
  have flag: "test_flag (clear_flag (SFLAG_TERMINATING OR SFLAG_ENABLED) s) SFLAG_EVICTED = test_flag s SFLAG_EVICTED"
    "test_flag (s\<lparr>senderIdLookup := x\<rparr>) f = test_flag s f" for s :: "'a server_t" and x f
    by (simp add: test_flag_bit clear_flag_def bit_and_iff bit_not_iff bit_or_iff, simp add: SFLAGS) (simp add: test_flag_def)
  have one: "r_names (stopServerThread v sid p R) = r_names R
      \<and> (\<forall>q. test_flag (srv (stopServerThread v sid p R) q) SFLAG_EVICTED = test_flag (srv R q) SFLAG_EVICTED)"
    if "\<not> test_flag (srv R p) SFLAG_EVICTED" for p and R :: "'a registry"
    using that by (simp add: stopServerThread_def thread_done_def Let_def test_set_flag flag)
  show ?thesis using assms
  proof (induction qs arbitrary: R)
    case (Cons p qs)
    then show ?case using one [of R p] by simp
  qed simp
qed

lemma split_suffix:
  assumes "xs @ ys = before @ c # after" and "c \<notin> set xs"
  shows "\<exists>zs. before = xs @ zs \<and> set zs \<subseteq> set ys"
proof -
  from assms(1) consider us where "xs = before @ us" "us @ ys = c # after" | us where "xs @ us = before" "ys = us @ c # after"
    by (auto simp: append_eq_append_conv2)
  then show ?thesis
  proof cases
    case 1
    with assms(2) show ?thesis by (cases us) auto
  qed auto
qed

text \<open>The states between the calls of a shutdown: once the servers are stopped, no later call starts a thread.\<close>

definition all_stopped :: "ptr set \<Rightarrow> 'h module_t \<Rightarrow> bool" where
  "all_stopped ps m \<longleftrightarrow> (\<forall>p \<in> ps. \<not> pThread (srv (m_reg m) p)) \<and> \<not> r_registry_thread (m_reg m)"

lemma all_stopped_kept:
  "call \<in> {DestroyServerIds, DestroyServers, ShutdownLibks} \<Longrightarrow>
     all_stopped ps (run_shutdown_call l call m) = all_stopped ps m"
  by (auto simp: run_shutdown_call_def all_stopped_def serversDestroy_def split: prod.splits)

lemma run_stops:
  "fold (run_shutdown_call l) (map StopServer qs) m = upd_reg (fold (stopServerThread (l_thread l) (l_sid l)) qs) m"
  by (induction qs arbitrary: m) (simp_all add: run_shutdown_call_def upd_reg_def)

lemma shutdown_stops:
  assumes "core_table (l_core l)" and "module_ok l m"
  shows "all_stopped {p. \<exists>n. serversFind (l_core l) (m_reg m) n = Some p}
    (fold (run_shutdown_call l) ([StopRegistry] @ map StopServer (all_servers (l_core l) (serversStopRegistry (m_reg m)))) m)"
proof -
  define R where "R = serversStopRegistry (m_reg m)"
  have ok: "threads_ok R" using assms(2) by (simp add: R_def module_ok_def serversStopRegistry_def threads_ok_def)
  have find: "serversFind (l_core l) R n = serversFind (l_core l) (m_reg m) n" and reg: "\<not> r_registry_thread R" for n
    by (simp_all add: R_def serversStopRegistry_def serversFind_def)
  show ?thesis
    using stop_all [where v = "l_thread l" and sid = "l_sid l" and qs = "all_servers (l_core l) R", OF ok refl] reg all_servers_iff [OF assms(1)] find
    by (auto simp: all_stopped_def run_stops run_shutdown_call_def [of _ StopRegistry] R_def [symmetric])
qed

text \<open>
  C34: unloading stops every thread before it destroys a table. If no thread of a server exists before the module is loaded,
  then after loading and any sequence of console commands and registry refreshes the calls of \<open>mod_janus_shutdown\<close> are such that in
  the state in which a table or libks is destroyed, and also at the end, no server of the name table
  has a thread any more and the thread of the registry is gone; both tables are destroyed.
\<close>

theorem unload_stops_threads:
  assumes "core_table (l_core l)"
    and "\<forall>p. \<not> pThread (srv (m_reg m) p) \<and> \<not> test_flag (srv (m_reg m) p) SFLAG_TERMINATING"
    and "mod_janus_load l m = Inr (SWITCH_STATUS_SUCCESS, m0)"
    and "m1 = fold (module_step l separate) ops m0"
    and "servers = {p. \<exists>n. serversFind (l_core l) (m_reg m1) n = Some p}"
    and "mod_janus_shutdown l m1 = (st, m2)"
  shows "all_stopped servers m2
    \<and> {DestroyServerIds, DestroyServers} \<subseteq> set (shutdown_calls l m1)
    \<and> (\<forall>before call after. shutdown_calls l m1 = before @ call # after
         \<and> call \<in> {DestroyServerIds, DestroyServers, ShutdownLibks}
         \<longrightarrow> all_stopped servers (fold (run_shutdown_call l) before m1))"
proof -
  define stops where "stops = [StopRegistry] @ map StopServer (all_servers (l_core l) (serversStopRegistry (m_reg m1)))"
  define rest where "rest = [DestroyServerIds, DestroyServers] @ (if n_have_ws (l_net l) then [ShutdownLibks] else [])"
  have calls: "shutdown_calls l m1 = stops @ rest" by (simp add: shutdown_calls_def stops_def rest_def)
  have tables: "set rest \<subseteq> {DestroyServerIds, DestroyServers, ShutdownLibks}"
    "set stops \<inter> {DestroyServerIds, DestroyServers, ShutdownLibks} = {}" by (auto simp: rest_def stops_def)
  have "module_ok l m0" by (rule load_module_ok [OF _ assms(3)]) (use assms(2) in \<open>simp add: thread_ok_def\<close>)
  then have "module_ok l m1" unfolding assms(4) by (rule fold_keeps) (rule module_step_ok)
  then have stopped: "all_stopped servers (fold (run_shutdown_call l) stops m1)"
    unfolding assms(5) stops_def by (rule shutdown_stops [OF assms(1)])
  have kept: "all_stopped servers (fold (run_shutdown_call l) (stops @ xs) m1)" if "set xs \<subseteq> set rest" for xs
    using that
  proof (induction xs rule: rev_induct)
    case (snoc x xs)
    then have "x \<in> {DestroyServerIds, DestroyServers, ShutdownLibks}" using tables(1) by auto
    with snoc show ?case by (simp only: append_assoc [symmetric] fold_append comp_def fold_simps all_stopped_kept) simp
  qed (simp add: stopped)
  have "all_stopped servers (fold (run_shutdown_call l) before m1)"
    if "stops @ rest = before @ call # after" "call \<in> {DestroyServerIds, DestroyServers, ShutdownLibks}" for before call after
  proof -
    have "call \<notin> set stops" using that(2) tables(2) by blast
    from split_suffix [OF that(1) this] obtain xs where "before = stops @ xs" "set xs \<subseteq> set rest" by blast
    then show ?thesis using kept by simp
  qed
  moreover have "all_stopped servers m2"
    using kept [of rest] assms(6) by (simp add: mod_janus_shutdown_def calls)
  ultimately show ?thesis by (simp add: calls) (simp add: rest_def)
qed

text \<open>
  The sample configuration with a headless service and one server that is not enabled: the console enables it, so
  that it and the registry have a thread when the module is unloaded.
\<close>

definition headless_load :: "(string \<times> ptr) list load_env" where
  "headless_load = sample_load\<lparr>l_cfg := Some \<lparr>c_settings = Some [(''headless-service-url'', ''http://svc:8088'')],
     c_servers = [(''demo'', [(''url'', ''http://j'')])]\<rparr>\<rparr>"

definition words :: "string \<Rightarrow> string list" where
  "words cmd = (if cmd = ''server demo enable'' then [''server'', ''demo'', ''enable''] else [cmd])"

lemma headless_loads:
  "\<exists>m0. mod_janus_load headless_load sample_module = Inr (SWITCH_STATUS_SUCCESS, m0) \<and> r_registry_thread (m_reg m0)
     \<and> serversFind alist_core (m_reg m0) ''demo'' = Some 10 \<and> \<not> test_flag (srv (m_reg m0) 10) SFLAG_ENABLED"
proof -
  let ?R0 = "(m_reg (fresh_globals headless_load sample_module))\<lparr>r_headless_service_url := Some ''http://svc:8088''\<rparr>"
  define R1 where "R1 = snd (serversAdd alist_core sample_net ''demo'' [(''url'', ''http://j'')] (registry_defaults ?R0))"
  have l: "l_core headless_load = alist_core" "l_net headless_load = sample_net" "l_mutex_init headless_load = SWITCH_STATUS_SUCCESS"
    by (simp_all add: headless_load_def sample_load_def)
  have frame: "r_headless_service_url (upd_srv p f R) = r_headless_service_url R" "r_registry_thread (upd_srv p f R) = r_registry_thread R"
    for p f and R :: "'a registry" by (simp_all add: upd_srv_def)
  have R1: "r_names R1 = [(''demo'', 10)]" "r_headless_service_url R1 = Some ''http://svc:8088''" "\<not> r_registry_thread R1"
    "\<not> test_flag (srv R1 10) SFLAG_ENABLED"
    unfolding R1_def
    by (simp_all add: serversAdd_def Let_def fresh_globals_def sample_module_def sample_registry_def sample_net_def registry_defaults_def l
      serversFind_def apply_param_def zero_server_def is_ws_url_def strncasecmp_eq_def c_tolower_def
      serversCaptureDefaults_def test_flag_def frame)
  have cfg: "load_config headless_load (fresh_globals headless_load sample_module)
      = Inr (SWITCH_STATUS_SUCCESS, (fresh_globals headless_load sample_module)\<lparr>m_reg := R1\<rparr>)"
    by (simp add: load_config_def headless_load_def sample_load_def apply_setting_def normalize_headless_service_url_def upd_reg_def
        add_servers_def R1_def)
  show ?thesis
    using R1 by (simp add: mod_janus_load_def cfg l hashCreate_def Let_def upd_reg_def serversStartRegistry_def all_servers_def
        start_configured_def serversBindStartThread_def serversBindStopThread_def serversFind_def upd_world_def)
qed

theorem unload_stops_threads_witness:
  "\<exists>m0 m1 m2. mod_janus_load headless_load sample_module = Inr (SWITCH_STATUS_SUCCESS, m0)
     \<and> m1 = module_step headless_load words (Console False (Some ''server demo enable'')) m0
     \<and> r_registry_thread (m_reg m1) \<and> pThread (srv (m_reg m1) 10)
     \<and> mod_janus_shutdown headless_load m1 = (SWITCH_STATUS_SUCCESS, m2)
     \<and> \<not> r_registry_thread (m_reg m2) \<and> \<not> pThread (srv (m_reg m2) 10)"
proof -
  let ?op = "Console False (Some ''server demo enable'')"
  obtain m0 where m0: "mod_janus_load headless_load sample_module = Inr (SWITCH_STATUS_SUCCESS, m0)"
    "r_registry_thread (m_reg m0)" "serversFind alist_core (m_reg m0) ''demo'' = Some 10"
    "\<not> test_flag (srv (m_reg m0) 10) SFLAG_ENABLED" using headless_loads by blast
  have l: "l_core headless_load = alist_core" by (simp add: headless_load_def sample_load_def)
  define m1 where "m1 = module_step headless_load words ?op m0"
  have step: "m1 = upd_reg (startServerThread False 10) m0"
    using m0(3) by (simp add: m1_def module_step_def janus_api_commands_def server_command_def words_def strncasecmp_eq_def
        c_tolower_def Let_def l)
  then have m1: "r_registry_thread (m_reg m1)" "pThread (srv (m_reg m1) 10)" "serversFind alist_core (m_reg m1) ''demo'' = Some 10"
    using m0 by (simp_all add: startServerThread_def serversFind_def upd_srv_def)
  obtain m2 where m2: "mod_janus_shutdown headless_load m1 = (SWITCH_STATUS_SUCCESS, m2)" by (simp add: mod_janus_shutdown_def)
  have C: "core_table (l_core headless_load)" by (simp add: l alist.core_table_axioms)
  have idle: "\<forall>p. \<not> pThread (srv (m_reg sample_module) p) \<and> \<not> test_flag (srv (m_reg sample_module) p) SFLAG_TERMINATING"
    by (simp add: sample_module_def sample_registry_def sample_world_def zero_server_def test_flag_def)
  have "m1 = fold (module_step headless_load words) [?op] m0" by (simp add: m1_def)
  from unload_stops_threads [OF C idle m0(1) this refl m2] have "\<not> r_registry_thread (m_reg m2)" "\<not> pThread (srv (m_reg m2) 10)"
    using m1(3) by (auto simp: all_stopped_def l)
  with m0 m1 m2 m1_def show ?thesis by blast
qed

text \<open>The help text offers \<open>listgw\<close>, but only \<open>list\<close> gives the list; \<open>listgw\<close> is answered with the help text.\<close>

lemma listgw_is_usage:
  assumes "separate ''listgw'' = [''listgw'']"
  shows "janus_api_commands l separate False (Some ''listgw'') m =
    (SWITCH_STATUS_SUCCESS, [line (''USAGE '' @ JANUS_SYNTAX)], m)"
  using assms by (simp add: janus_api_commands_def Let_def strncasecmp_eq_def c_tolower_def)

text \<open>The first placeholder is cut out of a template; nothing else of the URL is lost.\<close>

lemma normalize_template:
  assumes "strstr_split ''{pod}.'' url = Some (pre, post)" "url \<noteq> []"
  shows "normalize_headless_service_url (Some url) = Some (pre @ post) \<and> url = pre @ ''{pod}.'' @ post"
  using assms strstr_split_sound [OF assms(1)]
  by (simp add: normalize_headless_service_url_def snprintf_text_def)

end
