(* ===== verification/Cjson_Tree.thy ===== *)
theory Cjson_Tree
  imports Cjson "HOL-Library.Finite_Map"
begin

unbundle bit_operations_syntax

text \<open>
  The functions of \<open>cJSON.c\<close> on whole trees that the module does not call: the remaining type tests and
  constructors, access by position, references, duplication and comparison. A comparison is shown to
  decide equality of the JSON values the trees denote, in which an object is a finite map.
\<close>

section \<open>Hooks\<close>

text \<open>
  The memory functions of the library, the three of the C library being parameters. The rest of the development runs
  with the defaults, which the module never changes.
\<close>

record 'f cJSON_Hooks =
  malloc_fn :: "'f option"
  free_fn :: "'f option"

record 'f internal_hooks =
  allocate :: 'f
  deallocate :: 'f
  reallocate :: "'f option"

definition cJSON_InitHooks :: "'f \<Rightarrow> 'f \<Rightarrow> 'f \<Rightarrow> 'f cJSON_Hooks option \<Rightarrow> 'f internal_hooks" where
  "cJSON_InitHooks malloc free realloc hooks =
     (case hooks of
        None \<Rightarrow> \<lparr>allocate = malloc, deallocate = free, reallocate = Some realloc\<rparr>
      | Some h \<Rightarrow>
          let a = (case malloc_fn h of None \<Rightarrow> malloc | Some f \<Rightarrow> f);
              d = (case free_fn h of None \<Rightarrow> free | Some f \<Rightarrow> f)
          in \<lparr>allocate = a, deallocate = d, reallocate = (if a = malloc \<and> d = free then Some realloc else None)\<rparr>)"

text \<open>Memory is resized with \<open>realloc\<close> only when it also comes from \<open>malloc\<close> and goes back to \<open>free\<close>.\<close>

lemma hooks_realloc:
  "reallocate (cJSON_InitHooks malloc free realloc hooks) = Some realloc \<longleftrightarrow>
     allocate (cJSON_InitHooks malloc free realloc hooks) = malloc \<and> deallocate (cJSON_InitHooks malloc free realloc hooks) = free"
  by (simp add: cJSON_InitHooks_def Let_def split: option.split)

section \<open>Types, access\<close>

definition cJSON_IsReference :: "32 word" where "cJSON_IsReference = 256"

definition cJSON_IsInvalid :: "cjson option \<Rightarrow> bool" where
  "cJSON_IsInvalid item = has_type cJSON_Invalid item"
definition cJSON_IsNull :: "cjson option \<Rightarrow> bool" where
  "cJSON_IsNull item = has_type cJSON_NULL item"
definition cJSON_IsRaw :: "cjson option \<Rightarrow> bool" where
  "cJSON_IsRaw item = has_type cJSON_Raw item"

definition cJSON_GetStringValue :: "cjson option \<Rightarrow> cstr" where
  "cJSON_GetStringValue item =
     (if \<not> cJSON_IsString item then None else case item of None \<Rightarrow> None | Some j \<Rightarrow> valuestring j)"

text \<open>The count is a \<open>size_t\<close>, the result a 32-bit \<open>int\<close>.\<close>

definition cJSON_GetArraySize :: "cjson option \<Rightarrow> int" where
  "cJSON_GetArraySize array =
     (case array of None \<Rightarrow> 0 | Some j \<Rightarrow> sint (word_of_nat (length (child j)) :: 32 word))"

fun item_at :: "cjson list \<Rightarrow> nat \<Rightarrow> cjson option" where
  "item_at [] i = None"
| "item_at (c # cs) 0 = Some c"
| "item_at (c # cs) (Suc i) = item_at cs i"

definition get_array_item :: "cjson option \<Rightarrow> nat \<Rightarrow> cjson option" where
  "get_array_item array index = (case array of None \<Rightarrow> None | Some j \<Rightarrow> item_at (child j) index)"

definition cJSON_GetArrayItem :: "cjson option \<Rightarrow> int \<Rightarrow> cjson option" where
  "cJSON_GetArrayItem array index = (if index < 0 then None else get_array_item array (nat index))"

definition cJSON_GetObjectItem :: "cjson option \<Rightarrow> cstr \<Rightarrow> cjson option" where
  "cJSON_GetObjectItem object name = get_object_item object name False"

definition cJSON_HasObjectItem :: "cjson option \<Rightarrow> cstr \<Rightarrow> bool" where
  "cJSON_HasObjectItem object name \<longleftrightarrow> cJSON_GetObjectItem object name \<noteq> None"

fun cJSON_SetNumberHelper :: "cjson \<Rightarrow> double \<Rightarrow> cjson" where
  "cJSON_SetNumberHelper (CJson t vs vi vd s cs) number = CJson t vs (valueint_of number) number s cs"

section \<open>Construction\<close>

definition cJSON_CreateNull :: cjson where
  "cJSON_CreateNull = CJson cJSON_NULL None 0 (DFin 0) None []"
definition cJSON_CreateTrue :: cjson where
  "cJSON_CreateTrue = CJson cJSON_True None 0 (DFin 0) None []"
definition cJSON_CreateArray :: cjson where
  "cJSON_CreateArray = CJson cJSON_Array None 0 (DFin 0) None []"

text \<open>A reference shares what it refers to; in a tree of values it has the same text and children.\<close>

definition cJSON_CreateStringReference :: "cstr \<Rightarrow> cjson" where
  "cJSON_CreateStringReference s = CJson (cJSON_String OR cJSON_IsReference) s 0 (DFin 0) None []"
definition cJSON_CreateObjectReference :: "cjson list \<Rightarrow> cjson" where
  "cJSON_CreateObjectReference cs = CJson (cJSON_Object OR cJSON_IsReference) None 0 (DFin 0) None cs"
definition cJSON_CreateArrayReference :: "cjson list \<Rightarrow> cjson" where
  "cJSON_CreateArrayReference cs = CJson (cJSON_Array OR cJSON_IsReference) None 0 (DFin 0) None cs"

fun create_reference :: "cjson option \<Rightarrow> cjson option" where
  "create_reference None = None"
| "create_reference (Some (CJson t vs vi vd s cs)) = Some (CJson (t OR cJSON_IsReference) vs vi vd None cs)"

definition or_else :: "cjson option \<Rightarrow> cjson \<Rightarrow> cjson" where
  "or_else r j = (case r of None \<Rightarrow> j | Some j' \<Rightarrow> j')"

definition cJSON_AddItemToArray :: "cjson \<Rightarrow> cjson option \<Rightarrow> cjson" where
  "cJSON_AddItemToArray array item = or_else (add_item_to_array (Some array) item) array"
definition cJSON_AddItemToObjectCS :: "cjson \<Rightarrow> cstr \<Rightarrow> cjson option \<Rightarrow> cjson" where
  "cJSON_AddItemToObjectCS object name item = or_else (add_item_to_object (Some object) name item True) object"
definition cJSON_AddItemReferenceToArray :: "cjson \<Rightarrow> cjson option \<Rightarrow> cjson" where
  "cJSON_AddItemReferenceToArray array item = or_else (add_item_to_array (Some array) (create_reference item)) array"
definition cJSON_AddItemReferenceToObject :: "cjson \<Rightarrow> cstr \<Rightarrow> cjson option \<Rightarrow> cjson" where
  "cJSON_AddItemReferenceToObject object name item =
     (if name = None then object
      else or_else (add_item_to_object (Some object) name (create_reference item) False) object)"

definition cJSON_AddNullToObject :: "cjson \<Rightarrow> cstr \<Rightarrow> cjson option" where
  "cJSON_AddNullToObject object name = add_item_to_object (Some object) name (Some cJSON_CreateNull) False"
definition cJSON_AddTrueToObject :: "cjson \<Rightarrow> cstr \<Rightarrow> cjson option" where
  "cJSON_AddTrueToObject object name = add_item_to_object (Some object) name (Some cJSON_CreateTrue) False"
definition cJSON_AddObjectToObject :: "cjson \<Rightarrow> cstr \<Rightarrow> cjson option" where
  "cJSON_AddObjectToObject object name = add_item_to_object (Some object) name (Some cJSON_CreateObject) False"
definition cJSON_AddArrayToObject :: "cjson \<Rightarrow> cstr \<Rightarrow> cjson option" where
  "cJSON_AddArrayToObject object name = add_item_to_object (Some object) name (Some cJSON_CreateArray) False"

text \<open>
  The four constructors of arrays are one loop over \<open>count\<close> elements of the caller's array, which has to be that
  long; an element that cannot be made gives NULL.
\<close>

fun create_items :: "('a \<Rightarrow> cjson option) \<Rightarrow> 'a list \<Rightarrow> nat \<Rightarrow> cjson list \<Rightarrow> cjson list option cres" where
  "create_items mk xs 0 cs = Inr (Some cs)"
| "create_items mk [] (Suc n) cs = Inl BufferOverflow"
| "create_items mk (x # xs) (Suc n) cs =
     (case mk x of None \<Rightarrow> Inr None | Some c \<Rightarrow> create_items mk xs n (cs @ [c]))"

definition create_array_of :: "('a \<Rightarrow> cjson option) \<Rightarrow> 'a list option \<Rightarrow> int \<Rightarrow> cjson option cres" where
  "create_array_of mk elems count =
     (case elems of
        None \<Rightarrow> Inr None
      | Some xs \<Rightarrow>
          if count < 0 then Inr None
          else cbind (create_items mk xs (nat count) []) (\<lambda>r.
               Inr (map_option (\<lambda>cs. CJson cJSON_Array None 0 (DFin 0) None cs) r)))"

definition cJSON_CreateIntArray :: "int list option \<Rightarrow> int \<Rightarrow> cjson option cres" where
  "cJSON_CreateIntArray = create_array_of (\<lambda>i. Some (cJSON_CreateNumber (DFin (of_int i))))"
definition cJSON_CreateFloatArray :: "double list option \<Rightarrow> int \<Rightarrow> cjson option cres" where
  "cJSON_CreateFloatArray = create_array_of (\<lambda>d. Some (cJSON_CreateNumber d))"
definition cJSON_CreateDoubleArray :: "double list option \<Rightarrow> int \<Rightarrow> cjson option cres" where
  "cJSON_CreateDoubleArray = create_array_of (\<lambda>d. Some (cJSON_CreateNumber d))"
definition cJSON_CreateStringArray :: "cstr list option \<Rightarrow> int \<Rightarrow> cjson option cres" where
  "cJSON_CreateStringArray = create_array_of cJSON_CreateString"

section \<open>Duplication\<close>

text \<open>
  The parameter \<open>alloc\<close> says for which sizes allocation succeeds; an item takes 64 bytes. A constant name is shared,
  other texts are copied.
\<close>

definition sizeof_cJSON :: nat where "sizeof_cJSON = 64"

definition cJSON_strdup :: "(nat \<Rightarrow> bool) \<Rightarrow> cstr \<Rightarrow> cstr" where
  "cJSON_strdup alloc s = (case s of None \<Rightarrow> None | Some t \<Rightarrow> if alloc (length t + 1) then Some t else None)"

fun all_some :: "'a option list \<Rightarrow> 'a list option" where
  "all_some [] = Some []"
| "all_some (x # xs) = (case x of None \<Rightarrow> None | Some y \<Rightarrow> map_option ((#) y) (all_some xs))"

fun duplicate_item :: "(nat \<Rightarrow> bool) \<Rightarrow> cjson \<Rightarrow> cjson option list \<Rightarrow> cjson option" where
  "duplicate_item alloc (CJson t vs vi vd s cs) newchildren =
     (if \<not> alloc sizeof_cJSON then None
      else if vs \<noteq> None \<and> cJSON_strdup alloc vs = None then None
      else let string = (if t AND cJSON_StringIsConst \<noteq> 0 then s else cJSON_strdup alloc s) in
           if s \<noteq> None \<and> string = None then None
           else map_option (\<lambda>ds. CJson (t AND NOT cJSON_IsReference) (cJSON_strdup alloc vs) vi vd string ds)
                  (all_some newchildren))"

fun duplicate_tree :: "(nat \<Rightarrow> bool) \<Rightarrow> cjson \<Rightarrow> cjson option" where
  "duplicate_tree alloc (CJson t vs vi vd s cs) =
     duplicate_item alloc (CJson t vs vi vd s cs) (map (duplicate_tree alloc) cs)"

definition cJSON_Duplicate :: "(nat \<Rightarrow> bool) \<Rightarrow> cjson option \<Rightarrow> bool \<Rightarrow> cjson option" where
  "cJSON_Duplicate alloc item recurse =
     (case item of
        None \<Rightarrow> None
      | Some j \<Rightarrow> if recurse then duplicate_tree alloc j else duplicate_item alloc j [])"

section \<open>Comparison\<close>

definition comparable :: "32 word \<Rightarrow> bool" where
  "comparable t \<longleftrightarrow> t \<in> {cJSON_False, cJSON_True, cJSON_NULL, cJSON_Number, cJSON_String, cJSON_Raw, cJSON_Array, cJSON_Object}"

lemma find_ci_set: "find_ci k cs = Some e \<Longrightarrow> e \<in> set cs"
  by (induction cs) (auto split: if_splits)

lemma get_object_item_set: "get_object_item (Some j) k b = Some e \<Longrightarrow> e \<in> set (child j)"
  by (auto simp: get_object_item_def dest: find_ci_set find_cs_set split: option.splits if_splits)

lemma size_child: "c \<in> set cs \<Longrightarrow> size c < Suc (size_list size cs)"
  by (induction cs) auto

text \<open>
  \<open>compare_items\<close> compares two items that are different objects, as are the items below them; the test whether the
  two arguments are the same object is made by \<open>cJSON_Compare\<close>.
\<close>

function compare_items :: "bool \<Rightarrow> cjson \<Rightarrow> cjson \<Rightarrow> bool" where
  "compare_items case_sensitive (CJson ta va ia da sa ca) (CJson tb vb ib db sb cb) =
     (let a = CJson ta va ia da sa ca; b = CJson tb vb ib db sb cb; t = ta AND 0xFF in
      if t \<noteq> tb AND 0xFF \<or> \<not> comparable t then False
      else if t = cJSON_False \<or> t = cJSON_True \<or> t = cJSON_NULL then True
      else if t = cJSON_Number then da = db
      else if t = cJSON_String \<or> t = cJSON_Raw then va \<noteq> None \<and> vb \<noteq> None \<and> va = vb
      else if t = cJSON_Array then
        length ca = length cb \<and> list_all (\<lambda>(x, y). compare_items case_sensitive x y) (zip ca cb)
      else
        list_all (\<lambda>x. case get_object_item (Some b) (cj_string x) case_sensitive of
            None \<Rightarrow> False | Some y \<Rightarrow> compare_items case_sensitive x y) ca
        \<and> list_all (\<lambda>y. case get_object_item (Some a) (cj_string y) case_sensitive of
            None \<Rightarrow> False | Some x \<Rightarrow> compare_items case_sensitive y x) cb)"
  by pat_completeness auto
termination
proof (relation "measure (\<lambda>(c, a, b). size a + size b)", goal_cases)
  case 1
  show ?case by simp
next
  case (2 cs ta va ia da sa ca tb vb ib db sb cb a b t z x y)
  then have "x \<in> set ca" "y \<in> set cb" by (auto dest: set_zip_leftD set_zip_rightD)
  then show ?case using size_child [of x ca] size_child [of y cb] by simp
next
  case (3 cs ta va ia da sa ca tb vb ib db sb cb a b t x y)
  then show ?case using size_child [of x ca] size_child [of y cb] get_object_item_set [of b] by auto
next
  case (4 cs ta va ia da sa ca tb vb ib db sb cb a b t x y)
  then show ?case using size_child [of y ca] size_child [of x cb] get_object_item_set [of a] by auto
qed

declare compare_items.simps [simp del]

definition cJSON_Compare :: "bool \<Rightarrow> cjson option \<Rightarrow> cjson option \<Rightarrow> bool \<Rightarrow> bool" where
  "cJSON_Compare same_object a b case_sensitive =
     (case (a, b) of
        (Some x, Some y) \<Rightarrow>
          if cj_type x AND 0xFF \<noteq> cj_type y AND 0xFF \<or> cJSON_IsInvalid a \<or> \<not> comparable (cj_type x AND 0xFF) then False
          else if same_object then True
          else compare_items case_sensitive x y
      | _ \<Rightarrow> False)"

section \<open>The value a tree denotes\<close>

datatype jvalue =
    JLiteral "32 word"
  | JNumber double
  | JText "32 word" string
  | JArray "jvalue list"
  | JObject "(string, jvalue) fmap"
  | JNone

definition key :: "cjson \<Rightarrow> string" where
  "key c = (case cj_string c of None \<Rightarrow> [] | Some k \<Rightarrow> k)"

fun denote :: "cjson \<Rightarrow> jvalue" where
  "denote (CJson t vs vi vd s cs) =
     (let t = t AND 0xFF in
      if t = cJSON_False \<or> t = cJSON_True \<or> t = cJSON_NULL then JLiteral t
      else if t = cJSON_Number then JNumber vd
      else if t = cJSON_String \<or> t = cJSON_Raw then JText t (case vs of None \<Rightarrow> [] | Some x \<Rightarrow> x)
      else if t = cJSON_Array then JArray (map denote cs)
      else if t = cJSON_Object then JObject (fmap_of_list (map (\<lambda>c. (key c, denote c)) cs))
      else JNone)"

text \<open>A proper tree: known types, texts where the type has one, the names of an object present and different.\<close>

fun proper :: "cjson \<Rightarrow> bool" where
  "proper (CJson t vs vi vd s cs) \<longleftrightarrow>
     comparable (t AND 0xFF)
     \<and> (t AND 0xFF = cJSON_String \<or> t AND 0xFF = cJSON_Raw \<longrightarrow> vs \<noteq> None)
     \<and> (t AND 0xFF = cJSON_Object \<longrightarrow> list_all (\<lambda>c. cj_string c \<noteq> None) cs \<and> distinct (map cj_string cs))
     \<and> list_all proper cs"

lemma find_cs_map_of:
  assumes "list_all (\<lambda>c. cj_string c \<noteq> None) cs"
  shows "map_option denote (find_cs k cs) = map_of (map (\<lambda>c. (key c, denote c)) cs) k"
  using assms by (induction cs) (auto simp: key_def)

lemma find_cs_member:
  assumes "list_all (\<lambda>c. cj_string c \<noteq> None) cs" "distinct (map cj_string cs)" "c \<in> set cs" "cj_string c = Some k"
  shows "find_cs k cs = Some c"
  using assms by (induction cs) (auto simp: image_iff split: option.splits)

lemma map_of_subset:
  assumes "list_all (\<lambda>c. cj_string c \<noteq> None) cs" "distinct (map cj_string cs)"
  shows "map_of (map (\<lambda>c. (key c, denote c)) cs) \<subseteq>\<^sub>m m \<longleftrightarrow> (\<forall>c \<in> set cs. m (key c) = Some (denote c))"
proof
  assume sub: "map_of (map (\<lambda>c. (key c, denote c)) cs) \<subseteq>\<^sub>m m"
  show "\<forall>c \<in> set cs. m (key c) = Some (denote c)"
  proof
    fix c assume c: "c \<in> set cs"
    then obtain k where k: "cj_string c = Some k" using assms(1) by (auto simp: list_all_iff)
    then have "find_cs k cs = Some c" using assms c by (intro find_cs_member)
    then have "map_of (map (\<lambda>c. (key c, denote c)) cs) (key c) = Some (denote c)"
      using find_cs_map_of [OF assms(1), of k] k by (simp add: key_def)
    then show "m (key c) = Some (denote c)" using sub by (auto simp: map_le_def dom_def)
  qed
next
  assume "\<forall>c \<in> set cs. m (key c) = Some (denote c)"
  then show "map_of (map (\<lambda>c. (key c, denote c)) cs) \<subseteq>\<^sub>m m"
    unfolding map_le_def by (fastforce dest: map_of_SomeD)
qed

lemma find_cs_key: "find_cs (key x) cs = get_object_item (Some j) (cj_string x) True"
  if "child j = cs" "cj_string x \<noteq> None"
  using that by (auto simp: get_object_item_def key_def)

lemma denote_type: "comparable (cj_type a AND 0xFF) \<Longrightarrow> comparable (cj_type b AND 0xFF) \<Longrightarrow> denote a = denote b \<Longrightarrow> cj_type a AND 0xFF = cj_type b AND 0xFF"
  by (cases a; cases b) (auto simp: comparable_def Let_def cJSON_types split: if_splits)

text \<open>One direction of the comparison of two objects: every member of the first is in the second, with an equal value.\<close>

lemma members_included:
  assumes "list_all (\<lambda>c. cj_string c \<noteq> None) ca" "distinct (map cj_string ca)"
    "list_all (\<lambda>c. cj_string c \<noteq> None) cb" "child b = cb"
    and eq: "\<And>x y. x \<in> set ca \<Longrightarrow> y \<in> set cb \<Longrightarrow> compare_items True x y \<longleftrightarrow> denote x = denote y"
  shows "list_all (\<lambda>x. case get_object_item (Some b) (cj_string x) True of
            None \<Rightarrow> False | Some y \<Rightarrow> compare_items True x y) ca
    \<longleftrightarrow> map_of (map (\<lambda>c. (key c, denote c)) ca) \<subseteq>\<^sub>m map_of (map (\<lambda>c. (key c, denote c)) cb)"
proof -
  have "(case get_object_item (Some b) (cj_string x) True of None \<Rightarrow> False | Some y \<Rightarrow> compare_items True x y)
      \<longleftrightarrow> map_of (map (\<lambda>c. (key c, denote c)) cb) (key x) = Some (denote x)" if x: "x \<in> set ca" for x
  proof -
    have "get_object_item (Some b) (cj_string x) True = find_cs (key x) cb"
      using find_cs_key [OF assms(4)] assms(1) x by (auto simp: list_all_iff)
    then show ?thesis
      using find_cs_map_of [OF assms(3), of "key x"] eq [OF x] find_cs_set [of "key x" cb]
      by (auto split: option.splits)
  qed
  then show ?thesis using map_of_subset [OF assms(1,2)] by (simp add: list_all_iff)
qed

lemma compare_denote:
  "proper a \<Longrightarrow> proper b \<Longrightarrow> compare_items True a b \<longleftrightarrow> denote a = denote b"
proof (induction "size a + size b" arbitrary: a b rule: less_induct)
  case less
  obtain ta va ia da sa ca where a: "a = CJson ta va ia da sa ca" by (cases a)
  obtain tb vb ib db sb cb where b: "b = CJson tb vb ib db sb cb" by (cases b)
  define t where "t = ta AND 0xFF"
  have cmp: "comparable t" "comparable (tb AND 0xFF)" using less.prems by (simp_all add: a b t_def)
  have eq: "compare_items True x y \<longleftrightarrow> denote x = denote y" if "x \<in> set ca" "y \<in> set cb" for x y
    using that less.prems size_child [of x ca] size_child [of y cb] by (intro less.hyps) (auto simp: a b list_all_iff)
  have eq': "compare_items True y x \<longleftrightarrow> denote y = denote x" if "x \<in> set ca" "y \<in> set cb" for x y
    using that less.prems size_child [of x ca] size_child [of y cb] by (intro less.hyps) (auto simp: a b list_all_iff)
  show ?case
  proof (cases "t = tb AND 0xFF")
    case False
    then have "denote a \<noteq> denote b" using denote_type [of a b] cmp by (auto simp: a b t_def)
    moreover have "\<not> compare_items True a b"
      using False unfolding a b t_def by (subst compare_items.simps) (simp only: Let_def if_True simp_thms)
    ultimately show ?thesis by blast
  next
    case True
    consider "t = cJSON_False \<or> t = cJSON_True \<or> t = cJSON_NULL" | "t = cJSON_Number" | "t = cJSON_String \<or> t = cJSON_Raw"
      | "t = cJSON_Array" | "t = cJSON_Object" using cmp(1) by (auto simp: comparable_def)
    then show ?thesis
    proof cases
      case 1
      then show ?thesis using True cmp(1) by (auto simp: a b t_def compare_items.simps Let_def)
    next
      case 2
      then show ?thesis using True cmp(1) by (auto simp: a b t_def compare_items.simps Let_def cJSON_types)
    next
      case 3
      then show ?thesis using True cmp(1) less.prems by (auto simp: a b t_def compare_items.simps Let_def cJSON_types)
    next
      case 4
      have "length ca = length cb \<and> list_all (\<lambda>(x, y). compare_items True x y) (zip ca cb) \<longleftrightarrow> map denote ca = map denote cb"
        using eq by (auto simp: list_eq_iff_nth_eq list_all_length)
      then show ?thesis using True cmp(1) 4 by (simp add: a b t_def compare_items.simps Let_def cJSON_types)
    next
      case 5
      have names: "list_all (\<lambda>c. cj_string c \<noteq> None) ca" "distinct (map cj_string ca)"
        "list_all (\<lambda>c. cj_string c \<noteq> None) cb" "distinct (map cj_string cb)"
        using less.prems 5 True by (simp_all add: a b t_def)
      have "compare_items True a b
          \<longleftrightarrow> map_of (map (\<lambda>c. (key c, denote c)) ca) \<subseteq>\<^sub>m map_of (map (\<lambda>c. (key c, denote c)) cb)
            \<and> map_of (map (\<lambda>c. (key c, denote c)) cb) \<subseteq>\<^sub>m map_of (map (\<lambda>c. (key c, denote c)) ca)"
        using members_included [OF names(1-3), of b] members_included [OF names(3,4,1), of a] eq eq' True cmp(1) 5
        by (simp add: a b t_def compare_items.simps Let_def cJSON_types)
      also have "\<dots> \<longleftrightarrow> map_of (map (\<lambda>c. (key c, denote c)) ca) = map_of (map (\<lambda>c. (key c, denote c)) cb)"
        by (auto intro: map_le_antisym)
      also have "\<dots> \<longleftrightarrow> fmap_of_list (map (\<lambda>c. (key c, denote c)) ca) = fmap_of_list (map (\<lambda>c. (key c, denote c)) cb)"
        by (simp add: fmap_of_list.rep_eq flip: fmlookup_inject)
      finally show ?thesis using True 5 by (simp add: a b t_def Let_def cJSON_types)
    qed
  qed
qed

lemma all_some_map: "all_some (map f cs) = Some ds \<longleftrightarrow> list_all2 (\<lambda>c d. f c = Some d) cs ds"
  by (induction cs arbitrary: ds) (auto simp: list_all2_Cons1 split: option.splits)

lemma all_some_total: "(\<forall>c \<in> set cs. f c \<noteq> None) \<Longrightarrow> all_some (map f cs) \<noteq> None"
  by (induction cs) (auto split: option.splits)

text \<open>What the copy of an item keeps.\<close>

definition copies :: "cjson \<Rightarrow> cjson \<Rightarrow> bool" where
  "copies c d \<longleftrightarrow> denote d = denote c \<and> cj_string d = cj_string c \<and> (proper c \<longrightarrow> proper d)"

lemma type_byte_kept: "(t AND NOT cJSON_IsReference) AND 0xFF = t AND 0xFF"
  by (simp add: cJSON_IsReference_def and.assoc)

lemma copies_children:
  assumes "list_all2 copies cs ds"
  shows "map denote ds = map denote cs" "map cj_string ds = map cj_string cs" "map key ds = map key cs"
    "list_all (\<lambda>c. cj_string c \<noteq> None) ds \<longleftrightarrow> list_all (\<lambda>c. cj_string c \<noteq> None) cs"
    "list_all proper cs \<Longrightarrow> list_all proper ds"
    "map (\<lambda>c. (key c, denote c)) ds = map (\<lambda>c. (key c, denote c)) cs"
  using assms by (induction rule: list_all2_induct) (auto simp: copies_def key_def)

lemma strdup_total: "(\<forall>n. alloc n) \<Longrightarrow> cJSON_strdup alloc s = s"
  by (simp add: cJSON_strdup_def split: option.split)

lemma strdup_copy: "(s \<noteq> None \<longrightarrow> cJSON_strdup alloc s \<noteq> None) \<Longrightarrow> cJSON_strdup alloc s = s"
  by (auto simp: cJSON_strdup_def split: option.splits if_splits)

lemma duplicate_item_result:
  assumes "duplicate_item alloc (CJson t vs vi vd s cs) ncs = Some d"
  shows "\<exists>ds. all_some ncs = Some ds \<and> d = CJson (t AND NOT cJSON_IsReference) vs vi vd s ds"
proof -
  have "cJSON_strdup alloc vs = vs" "(if t AND cJSON_StringIsConst \<noteq> 0 then s else cJSON_strdup alloc s) = s"
    using assms strdup_copy [of vs alloc] strdup_copy [of s alloc] by (auto simp: Let_def split: if_splits)
  then show ?thesis using assms by (auto simp: Let_def split: if_splits)
qed

lemma duplicate_copies: "duplicate_tree alloc a = Some d \<Longrightarrow> copies a d"
proof (induction a arbitrary: d)
  case (CJson t vs vi vd s cs)
  then obtain ds where ds: "all_some (map (duplicate_tree alloc) cs) = Some ds"
    and d: "d = CJson (t AND NOT cJSON_IsReference) vs vi vd s ds"
    using duplicate_item_result by fastforce
  have "list_all2 copies cs ds"
    using ds CJson.IH by (auto simp: all_some_map list_all2_conv_all_nth)
  from copies_children [OF this] show ?case
    unfolding copies_def d by (auto simp: type_byte_kept Let_def)
qed

lemma duplicate_total: "duplicate_tree (\<lambda>n. True) a \<noteq> None"
proof (induction a)
  case (CJson t vs vi vd s cs)
  then have "all_some (map (duplicate_tree (\<lambda>n. True)) cs) \<noteq> None" by (intro all_some_total) blast
  then show ?case by (auto simp: strdup_total Let_def)
qed

text \<open>
  C36: The case sensitive \<open>cJSON_Compare\<close> decides equality of JSON values. For two trees of known types whose texts are
  there and whose objects have different names, it answers true exactly if the trees denote the same value, in
  which an object is the finite map from its names to its values: the order of the members does not matter.
\<close>

theorem compare_decides_equality:
  assumes "proper a" "proper b" "same_object \<longrightarrow> a = b"
  shows "cJSON_Compare same_object (Some a) (Some b) True \<longleftrightarrow> denote a = denote b"
proof -
  have c: "comparable (cj_type a AND 0xFF)" "comparable (cj_type b AND 0xFF)"
    using assms(1,2) by (cases a, cases b, simp)+
  then have "\<not> cJSON_IsInvalid (Some a)"
    by (auto simp: cJSON_IsInvalid_def has_type_def comparable_def cJSON_types)
  then show ?thesis
    using compare_denote [OF assms(1,2)] denote_type [OF c] c(1) assms(3) by (auto simp: cJSON_Compare_def)
qed

definition compare_example :: "bool \<Rightarrow> cjson" where
  "compare_example swap =
     (let x = CJson cJSON_Number None 1 (DFin 1) (Some ''x'') []; y = CJson cJSON_NULL None 0 (DFin 0) (Some ''y'') []
      in CJson cJSON_Object None 0 (DFin 0) None (if swap then [y, x] else [x, y]))"

lemma compare_example_proper: "proper (compare_example swap)"
  by (simp add: compare_example_def comparable_def cJSON_types Let_def)

lemma compare_example_value: "denote (compare_example False) = denote (compare_example True)"
  by (simp add: compare_example_def cJSON_types Let_def key_def) (rule fmap_ext, auto)

theorem compare_decides_equality_witness:
  "cJSON_Compare False (Some (compare_example False)) (Some (compare_example True)) True"
  using compare_decides_equality [OF compare_example_proper compare_example_proper, of False False True] compare_example_value
  by simp

text \<open>
  A copy equals its original. \<open>cJSON_Duplicate\<close> with recursion either fails, which takes a failed
  allocation, or returns a tree with the same value and the same names that \<open>cJSON_Compare\<close> finds equal.
\<close>

theorem duplicate_equal:
  assumes "proper a"
  shows "case cJSON_Duplicate alloc (Some a) True of
      None \<Rightarrow> \<exists>n. \<not> alloc n
    | Some d \<Rightarrow> denote d = denote a \<and> proper d \<and> cj_string d = cj_string a \<and> cJSON_Compare False (Some a) (Some d) True"
proof (cases "duplicate_tree alloc a")
  case None
  then have "\<exists>n. \<not> alloc n" using duplicate_total [of a] by (metis (full_types) ext)
  then show ?thesis using None by (simp add: cJSON_Duplicate_def)
next
  case (Some d)
  then have "copies a d" by (rule duplicate_copies)
  moreover from this assms have "cJSON_Compare False (Some a) (Some d) True"
    using compare_denote [of a d] denote_type [of a d]
    by (cases a; cases d) (auto simp: copies_def cJSON_Compare_def cJSON_IsInvalid_def has_type_def comparable_def cJSON_types)
  ultimately show ?thesis using Some assms by (simp add: cJSON_Duplicate_def copies_def)
qed

theorem duplicate_equal_witness:
  "\<exists>d. cJSON_Duplicate (\<lambda>n. n \<le> 64) (Some (compare_example False)) True = Some d \<and> denote d = denote (compare_example True)"
proof -
  have "cJSON_Duplicate (\<lambda>n. n \<le> 64) (Some (compare_example False)) True \<noteq> None" by code_simp
  then show ?thesis
    using duplicate_equal [OF compare_example_proper, of "\<lambda>n. n \<le> 64" False] compare_example_value by (auto split: option.splits)
qed

end
