(* ===== verification/Cjson_Heap.thy ===== *)
theory Cjson_Heap
  imports Cjson_Tree
begin

unbundle bit_operations_syntax

text \<open>
  The functions of \<open>cJSON.c\<close> that edit a tree in place, over an explicit store: an item is a node with the pointers
  \<open>next\<close>, \<open>prev\<close> and \<open>child\<close>, the store maps the addresses of the allocated nodes to them, and reading
  or writing through an address that is not allocated is \<open>Inl InvalidPointer\<close>. Appending to a list and deleting a tree walk
  along pointers; \<open>k\<close> bounds the walk, and the theorems give a sufficient bound.

  The functions are shown to implement the editing of a list - removal, insertion, replacement - on the
  doubly linked list of children, and deletion to free exactly the nodes of the tree. The storage of the texts is
  not modelled.
\<close>

section \<open>The store\<close>

record cnode =
  c_next :: "ptr option"
  c_prev :: "ptr option"
  c_child :: "ptr option"
  c_type :: "32 word"
  c_valuestring :: cstr
  c_valueint :: int
  c_valuedouble :: double
  c_string :: cstr

type_synonym store = "ptr \<rightharpoonup> cnode"

definition node_at :: "store \<Rightarrow> ptr option \<Rightarrow> cnode cres" where
  "node_at h p = (case p of None \<Rightarrow> Inl NullDeref | Some a \<Rightarrow>
     (case h a of None \<Rightarrow> Inl InvalidPointer | Some n \<Rightarrow> Inr n))"

definition hset :: "store \<Rightarrow> ptr \<Rightarrow> (cnode \<Rightarrow> cnode) \<Rightarrow> store" where
  "hset h a f = h(a := map_option f (h a))"

definition write_node :: "store \<Rightarrow> ptr option \<Rightarrow> (cnode \<Rightarrow> cnode) \<Rightarrow> store cres" where
  "write_node h p f = cbind (node_at h p) (\<lambda>_. Inr (case p of None \<Rightarrow> h | Some a \<Rightarrow> hset h a f))"

section \<open>Walking and appending\<close>

definition suffix_object :: "store \<Rightarrow> ptr option \<Rightarrow> ptr option \<Rightarrow> store cres" where
  "suffix_object h prev item =
     cbind (write_node h prev (c_next_update (\<lambda>_. item))) (\<lambda>h. write_node h item (c_prev_update (\<lambda>_. prev)))"

fun walk_index :: "store \<Rightarrow> ptr option \<Rightarrow> nat \<Rightarrow> ptr option cres" where
  "walk_index h None i = Inr None"
| "walk_index h (Some a) 0 = Inr (Some a)"
| "walk_index h (Some a) (Suc i) = cbind (node_at h (Some a)) (\<lambda>n. walk_index h (c_next n) i)"

definition get_array_item_at :: "store \<Rightarrow> ptr option \<Rightarrow> nat \<Rightarrow> ptr option cres" where
  "get_array_item_at h array index =
     (if array = None then Inr None else cbind (node_at h array) (\<lambda>n. walk_index h (c_child n) index))"

fun walk_name :: "nat \<Rightarrow> store \<Rightarrow> ptr option \<Rightarrow> string \<Rightarrow> bool \<Rightarrow> ptr option cres" where
  "walk_name 0 h p name case_sensitive = Inl OutOfFuel"
| "walk_name (Suc k) h None name case_sensitive = Inr None"
| "walk_name (Suc k) h (Some a) name case_sensitive =
     cbind (node_at h (Some a)) (\<lambda>n.
     if case_sensitive then
       (case c_string n of
          None \<Rightarrow> Inr None
        | Some s \<Rightarrow> if name = s then Inr (Some a) else walk_name k h (c_next n) name case_sensitive)
     else if case_insensitive_strcmp_eq (Some name) (c_string n) then Inr (Some a)
     else walk_name k h (c_next n) name case_sensitive)"

definition get_object_item_at :: "nat \<Rightarrow> store \<Rightarrow> ptr option \<Rightarrow> cstr \<Rightarrow> bool \<Rightarrow> ptr option cres" where
  "get_object_item_at k h object name case_sensitive =
     (case name of
        None \<Rightarrow> Inr None
      | Some s \<Rightarrow>
          if object = None then Inr None
          else cbind (node_at h object) (\<lambda>n. walk_name k h (c_child n) s case_sensitive))"

fun last_item :: "nat \<Rightarrow> store \<Rightarrow> ptr \<Rightarrow> ptr cres" where
  "last_item 0 h a = Inl OutOfFuel"
| "last_item (Suc k) h a =
     cbind (node_at h (Some a)) (\<lambda>n. case c_next n of None \<Rightarrow> Inr a | Some b \<Rightarrow> last_item k h b)"

definition append_item :: "nat \<Rightarrow> store \<Rightarrow> ptr option \<Rightarrow> ptr option \<Rightarrow> (bool \<times> store) cres" where
  "append_item k h array item =
     (if item = None \<or> array = None then Inr (False, h)
      else cbind (node_at h array) (\<lambda>n.
           cbind (case c_child n of
                    None \<Rightarrow> write_node h array (c_child_update (\<lambda>_. item))
                  | Some c \<Rightarrow> cbind (last_item k h c) (\<lambda>l. suffix_object h (Some l) item))
             (\<lambda>h. Inr (True, h))))"

section \<open>Deleting\<close>

text \<open>The children of a reference belong to the item it refers to and are not deleted.\<close>

definition is_reference :: "cnode \<Rightarrow> bool" where
  "is_reference n \<longleftrightarrow> c_type n AND cJSON_IsReference \<noteq> 0"

fun cJSON_Delete :: "nat \<Rightarrow> store \<Rightarrow> ptr option \<Rightarrow> store cres" where
  "cJSON_Delete 0 h item = Inl OutOfFuel"
| "cJSON_Delete (Suc k) h None = Inr h"
| "cJSON_Delete (Suc k) h (Some a) =
     cbind (node_at h (Some a)) (\<lambda>n.
     cbind (if \<not> is_reference n \<and> c_child n \<noteq> None then cJSON_Delete k h (c_child n) else Inr h) (\<lambda>h.
     cbind (node_at h (Some a)) (\<lambda>_.
     cJSON_Delete k (h(a := None)) (c_next n))))"

section \<open>Detaching, inserting, replacing\<close>

definition write_opt :: "store \<Rightarrow> ptr option \<Rightarrow> (cnode \<Rightarrow> cnode) \<Rightarrow> store cres" where
  "write_opt h p f = (if p = None then Inr h else write_node h p f)"

definition cJSON_DetachItemViaPointer :: "store \<Rightarrow> ptr option \<Rightarrow> ptr option \<Rightarrow> (ptr option \<times> store) cres" where
  "cJSON_DetachItemViaPointer h parent item =
     (if parent = None \<or> item = None then Inr (None, h)
      else cbind (node_at h item) (\<lambda>n.
           cbind (write_opt h (c_prev n) (c_next_update (\<lambda>_. c_next n))) (\<lambda>h.
           cbind (write_opt h (c_next n) (c_prev_update (\<lambda>_. c_prev n))) (\<lambda>h.
           cbind (node_at h parent) (\<lambda>p.
           cbind (if item = c_child p then write_node h parent (c_child_update (\<lambda>_. c_next n)) else Inr h) (\<lambda>h.
           cbind (write_node h item (\<lambda>n. n\<lparr>c_prev := None, c_next := None\<rparr>)) (\<lambda>h.
           Inr (item, h))))))))"

definition cJSON_DetachItemFromArray :: "store \<Rightarrow> ptr option \<Rightarrow> int \<Rightarrow> (ptr option \<times> store) cres" where
  "cJSON_DetachItemFromArray h array which =
     (if which < 0 then Inr (None, h)
      else cbind (get_array_item_at h array (nat which)) (cJSON_DetachItemViaPointer h array))"

definition cJSON_DeleteItemFromArray :: "nat \<Rightarrow> store \<Rightarrow> ptr option \<Rightarrow> int \<Rightarrow> store cres" where
  "cJSON_DeleteItemFromArray k h array which =
     cbind (cJSON_DetachItemFromArray h array which) (\<lambda>(item, h). cJSON_Delete k h item)"

definition cJSON_DetachItemFromObject :: "nat \<Rightarrow> store \<Rightarrow> ptr option \<Rightarrow> cstr \<Rightarrow> (ptr option \<times> store) cres" where
  "cJSON_DetachItemFromObject k h object name =
     cbind (get_object_item_at k h object name False) (cJSON_DetachItemViaPointer h object)"

definition cJSON_DetachItemFromObjectCaseSensitive :: "nat \<Rightarrow> store \<Rightarrow> ptr option \<Rightarrow> cstr \<Rightarrow> (ptr option \<times> store) cres" where
  "cJSON_DetachItemFromObjectCaseSensitive k h object name =
     cbind (get_object_item_at k h object name True) (cJSON_DetachItemViaPointer h object)"

definition cJSON_DeleteItemFromObject :: "nat \<Rightarrow> store \<Rightarrow> ptr option \<Rightarrow> cstr \<Rightarrow> store cres" where
  "cJSON_DeleteItemFromObject k h object name =
     cbind (cJSON_DetachItemFromObject k h object name) (\<lambda>(item, h). cJSON_Delete k h item)"

definition cJSON_DeleteItemFromObjectCaseSensitive :: "nat \<Rightarrow> store \<Rightarrow> ptr option \<Rightarrow> cstr \<Rightarrow> store cres" where
  "cJSON_DeleteItemFromObjectCaseSensitive k h object name =
     cbind (cJSON_DetachItemFromObjectCaseSensitive k h object name) (\<lambda>(item, h). cJSON_Delete k h item)"

definition cJSON_InsertItemInArray :: "nat \<Rightarrow> store \<Rightarrow> ptr option \<Rightarrow> int \<Rightarrow> ptr option \<Rightarrow> store cres" where
  "cJSON_InsertItemInArray k h array which newitem =
     (if which < 0 then Inr h
      else cbind (get_array_item_at h array (nat which)) (\<lambda>after.
           if after = None then cbind (append_item k h array newitem) (\<lambda>(_, h). Inr h)
           else cbind (write_node h newitem (c_next_update (\<lambda>_. after))) (\<lambda>h.
                cbind (node_at h after) (\<lambda>n.
                cbind (write_node h newitem (c_prev_update (\<lambda>_. c_prev n))) (\<lambda>h.
                cbind (write_node h after (c_prev_update (\<lambda>_. newitem))) (\<lambda>h.
                cbind (node_at h array) (\<lambda>p.
                if after = c_child p then write_node h array (c_child_update (\<lambda>_. newitem))
                else cbind (node_at h newitem) (\<lambda>n. write_node h (c_prev n) (c_next_update (\<lambda>_. newitem))))))))))"

definition cJSON_ReplaceItemViaPointer :: "nat \<Rightarrow> store \<Rightarrow> ptr option \<Rightarrow> ptr option \<Rightarrow> ptr option \<Rightarrow> (bool \<times> store) cres" where
  "cJSON_ReplaceItemViaPointer k h parent item replacement =
     (if parent = None \<or> replacement = None \<or> item = None then Inr (False, h)
      else if replacement = item then Inr (True, h)
      else cbind (node_at h item) (\<lambda>n.
           cbind (write_node h replacement (\<lambda>r. r\<lparr>c_next := c_next n, c_prev := c_prev n\<rparr>)) (\<lambda>h.
           cbind (write_opt h (c_next n) (c_prev_update (\<lambda>_. replacement))) (\<lambda>h.
           cbind (write_opt h (c_prev n) (c_next_update (\<lambda>_. replacement))) (\<lambda>h.
           cbind (node_at h parent) (\<lambda>p.
           cbind (if c_child p = item then write_node h parent (c_child_update (\<lambda>_. replacement)) else Inr h) (\<lambda>h.
           cbind (write_node h item (\<lambda>n. n\<lparr>c_next := None, c_prev := None\<rparr>)) (\<lambda>h.
           cbind (cJSON_Delete k h item) (\<lambda>h. Inr (True, h))))))))))"

definition cJSON_ReplaceItemInArray :: "nat \<Rightarrow> store \<Rightarrow> ptr option \<Rightarrow> int \<Rightarrow> ptr option \<Rightarrow> store cres" where
  "cJSON_ReplaceItemInArray k h array which newitem =
     (if which < 0 then Inr h
      else cbind (get_array_item_at h array (nat which)) (\<lambda>item.
           cbind (cJSON_ReplaceItemViaPointer k h array item newitem) (\<lambda>(_, h). Inr h)))"

text \<open>The name of the replacement is set even if there is nothing to replace.\<close>

definition replace_item_in_object :: "nat \<Rightarrow> store \<Rightarrow> ptr option \<Rightarrow> cstr \<Rightarrow> ptr option \<Rightarrow> bool \<Rightarrow> (bool \<times> store) cres" where
  "replace_item_in_object k h object name replacement case_sensitive =
     (if replacement = None \<or> name = None then Inr (False, h)
      else cbind (write_node h replacement (\<lambda>r. r\<lparr>c_string := name, c_type := c_type r AND NOT cJSON_StringIsConst\<rparr>)) (\<lambda>h.
           cbind (get_object_item_at k h object name case_sensitive) (\<lambda>item.
           cbind (cJSON_ReplaceItemViaPointer k h object item replacement) (\<lambda>(_, h). Inr (True, h)))))"

definition cJSON_ReplaceItemInObject :: "nat \<Rightarrow> store \<Rightarrow> ptr option \<Rightarrow> cstr \<Rightarrow> ptr option \<Rightarrow> store cres" where
  "cJSON_ReplaceItemInObject k h object name newitem =
     cbind (replace_item_in_object k h object name newitem False) (\<lambda>(_, h). Inr h)"

definition cJSON_ReplaceItemInObjectCaseSensitive :: "nat \<Rightarrow> store \<Rightarrow> ptr option \<Rightarrow> cstr \<Rightarrow> ptr option \<Rightarrow> store cres" where
  "cJSON_ReplaceItemInObjectCaseSensitive k h object name newitem =
     cbind (replace_item_in_object k h object name newitem True) (\<lambda>(_, h). Inr h)"

section \<open>Doubly linked lists\<close>

text \<open>
  \<open>seg h pv p as e l\<close>: from \<open>p\<close> on, whose predecessor is \<open>pv\<close>, the nodes \<open>as\<close> follow each other up to \<open>e\<close>; \<open>l\<close> is the last
  of them, or \<open>pv\<close>.
\<close>

fun seg :: "store \<Rightarrow> ptr option \<Rightarrow> ptr option \<Rightarrow> ptr list \<Rightarrow> ptr option \<Rightarrow> ptr option \<Rightarrow> bool" where
  "seg h pv p [] e l \<longleftrightarrow> p = e \<and> pv = l"
| "seg h pv p (a # as) e l \<longleftrightarrow> p = Some a \<and> (\<exists>n. h a = Some n \<and> c_prev n = pv \<and> seg h (Some a) (c_next n) as e l)"

definition kids :: "store \<Rightarrow> ptr \<Rightarrow> ptr list \<Rightarrow> bool" where
  "kids h p as \<longleftrightarrow> distinct (p # as) \<and> (\<exists>n l. h p = Some n \<and> seg h None (c_child n) as None l)"

lemma seg_append: "seg h pv p (xs @ ys) e l \<longleftrightarrow> (\<exists>q m. seg h pv p xs q m \<and> seg h m q ys e l)"
  by (induction xs arbitrary: pv p) auto

lemma hset_same [simp]: "hset h a f a = map_option f (h a)"
  by (simp add: hset_def)

lemma hset_other [simp]: "b \<noteq> a \<Longrightarrow> hset h a f b = h b"
  by (simp add: hset_def)

lemma seg_cong: "(\<forall>a \<in> set as. h' a = h a) \<Longrightarrow> seg h' pv p as e l = seg h pv p as e l"
  by (induction as arbitrary: pv p) auto

lemma seg_hset: "a \<notin> set as \<Longrightarrow> seg (hset h a f) pv p as e l = seg h pv p as e l"
  by (rule seg_cong) (auto simp: hset_def)

lemma seg_last: "seg h pv p as e l \<Longrightarrow> l = (if as = [] then pv else Some (last as))"
  by (induction as arbitrary: pv p) auto

lemma seg_first: "seg h pv p as e l \<Longrightarrow> p = (case as of [] \<Rightarrow> e | a # _ \<Rightarrow> Some a)"
  by (cases as) auto

lemma seg_alloc: "seg h pv p as e l \<Longrightarrow> a \<in> set as \<Longrightarrow> h a \<noteq> None"
  by (induction as arbitrary: pv p) auto

lemma kids_cong: "(\<forall>c \<in> set (p # as). h' c = h c) \<Longrightarrow> kids h' p as = kids h p as"
  using seg_cong [of as h' h] by (simp add: kids_def)

text \<open>The two ends of a segment linked anew.\<close>

lemma seg_set_end:
  assumes "seg h pv p (xs @ [b]) e l" "distinct (xs @ [b])"
  shows "seg (hset h b (c_next_update (\<lambda>_. q))) pv p (xs @ [b]) q (Some b)"
  using assms by (auto simp: seg_append seg_hset)

lemma seg_set_start:
  assumes "seg h pv p (c # ys) e l" "c \<notin> set ys"
  shows "seg (hset h c (c_prev_update (\<lambda>_. m))) m p (c # ys) e l"
  using assms by (auto simp: seg_hset)

definition relink :: "store \<Rightarrow> ptr option \<Rightarrow> ptr option \<Rightarrow> store" where
  "relink h m q =
     (let h = (case m of None \<Rightarrow> h | Some b \<Rightarrow> hset h b (c_next_update (\<lambda>_. q)))
      in case q of None \<Rightarrow> h | Some c \<Rightarrow> hset h c (c_prev_update (\<lambda>_. m)))"

lemma relink_other: "Some a \<noteq> m \<Longrightarrow> Some a \<noteq> q \<Longrightarrow> relink h m q a = h a"
  by (auto simp: relink_def Let_def hset_def split: option.split)

lemma relink_joins:
  assumes "seg h None p xs e m" "seg h x q ys None l" "distinct (xs @ ys)"
  shows "\<exists>l'. seg (relink h m q) None (if xs = [] then q else p) (xs @ ys) None l'"
proof -
  have m: "m = (if xs = [] then None else Some (last xs))" using seg_last [OF assms(1)] .
  define h1 where "h1 = (case m of None \<Rightarrow> h | Some b \<Rightarrow> hset h b (c_next_update (\<lambda>_. q)))"
  have fr: "seg h1 None (if xs = [] then q else p) xs q m"
  proof (cases xs rule: rev_cases)
    case (snoc zs b)
    then show ?thesis using seg_set_end [of h None p zs b e m q] assms(1,3) m by (simp add: h1_def)
  qed (use m in simp)
  have bk: "seg h1 x q ys None l"
  proof (cases "xs = []")
    case False
    then have "last xs \<notin> set ys" using assms(3) last_in_set [OF False] by (auto simp del: last_in_set)
    then show ?thesis using assms(2) m False by (simp add: h1_def seg_hset)
  qed (use assms(2) m in \<open>simp add: h1_def\<close>)
  show ?thesis
  proof (cases ys)
    case Nil
    then have "q = None" using assms(2) by simp
    then show ?thesis using fr Nil by (auto simp: relink_def h1_def Let_def)
  next
    case (Cons c zs)
    then have q: "q = Some c" and "relink h m q = hset h1 c (c_prev_update (\<lambda>_. m))"
      using assms(2) by (auto simp: relink_def h1_def Let_def)
    then have "seg (relink h m q) None (if xs = [] then q else p) xs q m" "seg (relink h m q) m q ys None l"
      using fr bk assms(3) Cons seg_set_start [of h1 x q c zs None l m] by (simp_all add: seg_hset)
    then show ?thesis unfolding seg_append by blast
  qed
qed

lemma kids_nth: "kids h p as \<Longrightarrow> i < length as \<Longrightarrow> as = take i as @ as ! i # drop (Suc i) as"
  by (simp add: id_take_nth_drop)

section \<open>The items stay the same\<close>

definition payload :: "cnode \<Rightarrow> 32 word \<times> cstr \<times> int \<times> double \<times> cstr" where
  "payload n = (c_type n, c_valuestring n, c_valueint n, c_valuedouble n, c_string n)"

text \<open>Editing the children of \<open>p\<close> changes links among them and the child pointer of \<open>p\<close>, nothing else.\<close>

definition same_items :: "ptr \<Rightarrow> store \<Rightarrow> store \<Rightarrow> bool" where
  "same_items p h h' \<longleftrightarrow> (\<forall>b. map_option payload (h' b) = map_option payload (h b)
     \<and> (b \<noteq> p \<longrightarrow> map_option c_child (h' b) = map_option c_child (h b)))"

lemma same_items_refl: "same_items p h h"
  by (simp add: same_items_def)

lemma same_items_trans: "same_items p h h' \<Longrightarrow> same_items p h' h'' \<Longrightarrow> same_items p h h''"
  by (simp add: same_items_def)

lemma same_items_hset:
  "(\<And>n. payload (f n) = payload n) \<Longrightarrow> (\<And>n. a \<noteq> p \<Longrightarrow> c_child (f n) = c_child n) \<Longrightarrow> same_items p h (hset h a f)"
  by (auto simp: same_items_def hset_def option.map_comp comp_def)

lemma same_items_links:
  "same_items p h (hset h a (c_next_update g))" "same_items p h (hset h a (c_prev_update g))"
  "same_items p h (hset h a (\<lambda>n. n\<lparr>c_prev := u, c_next := v\<rparr>))" "same_items p h (hset h a (\<lambda>n. n\<lparr>c_next := v, c_prev := u\<rparr>))"
  "same_items p h (hset h p (c_child_update g))"
  by (rule same_items_hset; simp add: payload_def)+

lemma same_items_relink: "same_items p h (relink h m q)"
  by (cases m; cases q)
    (auto simp: relink_def same_items_refl same_items_links(1,2) intro: same_items_trans [OF same_items_links(1) same_items_links(2)])

lemma write_node_ok: "h a \<noteq> None \<Longrightarrow> write_node h (Some a) f = Inr (hset h a f)"
  by (auto simp: write_node_def node_at_def)

lemma relink_writes:
  assumes "\<And>b. m = Some b \<Longrightarrow> h b \<noteq> None" "\<And>c. q = Some c \<Longrightarrow> h c \<noteq> None"
  shows "cbind (write_opt h m (c_next_update (\<lambda>_. q))) (\<lambda>h. cbind (write_opt h q (c_prev_update (\<lambda>_. m))) k) = k (relink h m q)"
proof -
  have "hset h b f c \<noteq> None" if "h c \<noteq> None" for b c f using that by (cases "c = b") auto
  then show ?thesis using assms
    by (cases m; cases q) (simp_all add: write_opt_def write_node_ok relink_def)
qed

section \<open>Detaching\<close>

lemma kids_split:
  assumes "kids h p (xs @ a # ys)"
  obtains pn n m l where "h p = Some pn" "h a = Some n" "seg h None (c_child pn) xs (Some a) m" "c_prev n = m"
    "seg h (Some a) (c_next n) ys None l" "distinct (p # xs @ a # ys)"
  using assms by (auto simp: kids_def seg_append)

lemma seg_ends:
  assumes "seg h None p xs (Some a) m" "seg h (Some a) q ys None l" "a \<notin> set xs"
  shows "m = Some b \<Longrightarrow> b \<in> set xs" "q = Some c \<Longrightarrow> c \<in> set ys" "Some a = p \<longleftrightarrow> xs = []"
  using seg_last [OF assms(1)] seg_first [OF assms(2)] seg_first [OF assms(1)] assms(3) last_in_set [of xs]
  by (auto split: if_splits list.splits)

lemma detach_child:
  assumes "kids h p (xs @ a # ys)"
  shows "\<exists>h'. cJSON_DetachItemViaPointer h (Some p) (Some a) = Inr (Some a, h') \<and> kids h' p (xs @ ys) \<and> same_items p h h'
    \<and> (\<exists>n. h' a = Some n \<and> c_next n = None \<and> c_prev n = None) \<and> (\<forall>b. b \<notin> set (p # xs @ a # ys) \<longrightarrow> h' b = h b)"
  using assms
proof (cases rule: kids_split)
  case (1 pn n m l)
  have "a \<notin> set xs" using 1(6) by auto
  note ends = seg_ends [OF 1(3,5) this]
  define h2 where "h2 = relink h m (c_next n)"
  define h3 where "h3 = (if xs = [] then hset h2 p (c_child_update (\<lambda>_. c_next n)) else h2)"
  define h4 where "h4 = hset h3 a (\<lambda>n. n\<lparr>c_prev := None, c_next := None\<rparr>)"
  have frame: "h2 b = h b" if "b \<notin> set xs \<union> set ys" for b
    using that ends(1,2) unfolding h2_def by (intro relink_other) auto
  have p2: "h2 p = Some pn" "h2 a = Some n" using frame 1 by auto
  have a3: "h3 a = Some n" using p2(2) 1(6) by (auto simp: h3_def)
  have links: "cbind (write_opt h m (c_next_update (\<lambda>_. c_next n))) (\<lambda>h. cbind (write_opt h (c_next n) (c_prev_update (\<lambda>_. m))) k)
      = k h2" for k
    unfolding h2_def using ends(1,2) seg_alloc [OF 1(3)] seg_alloc [OF 1(5)] by (intro relink_writes) blast+
  have at: "node_at h (Some a) = Inr n" "node_at h2 (Some p) = Inr pn" using 1(2) p2 by (simp_all add: node_at_def)
  have child_set: "(if Some a = c_child pn then write_node h2 (Some p) (c_child_update (\<lambda>_. c_next n)) else Inr h2) = Inr h3"
    using p2 ends(3) by (simp add: write_node_ok h3_def)
  have unlinked: "write_node h3 (Some a) (\<lambda>n. n\<lparr>c_prev := None, c_next := None\<rparr>) = Inr h4"
    using a3 by (simp add: write_node_ok h4_def)
  have run: "cJSON_DetachItemViaPointer h (Some p) (Some a) = Inr (Some a, h4)"
    unfolding cJSON_DetachItemViaPointer_def at cbind_simps 1(4) links at child_set unlinked by simp
  obtain l' where "seg h2 None (if xs = [] then c_next n else c_child pn) (xs @ ys) None l'"
    using relink_joins [OF 1(3,5)] 1(6) by (auto simp: h2_def)
  then have "seg h4 None (if xs = [] then c_next n else c_child pn) (xs @ ys) None l'"
    using 1(6) by (auto simp: h3_def h4_def seg_hset)
  moreover have "\<exists>pn'. h4 p = Some pn' \<and> c_child pn' = (if xs = [] then c_next n else c_child pn)"
    using p2 1(6) by (auto simp: h3_def h4_def)
  ultimately have "kids h4 p (xs @ ys)" using 1(6) by (auto simp: kids_def)
  moreover have "same_items p h h4"
  proof -
    have "same_items p h h2" by (simp add: h2_def same_items_relink)
    moreover have "same_items p h2 h3" by (simp add: h3_def same_items_refl same_items_links(5))
    moreover have "same_items p h3 h4" by (simp add: h4_def same_items_links(3))
    ultimately show ?thesis by (blast intro: same_items_trans)
  qed
  moreover have "h4 b = h b" if "b \<notin> set (p # xs @ a # ys)" for b
    using frame [of b] that by (simp add: h3_def h4_def)
  ultimately show ?thesis using run a3 by (auto simp: h4_def)
qed

section \<open>Finding a position\<close>

lemma walk_index_seg: "seg h pv p as None l \<Longrightarrow> walk_index h p i = Inr (if i < length as then Some (as ! i) else None)"
  by (induction as arbitrary: pv p i; case_tac i) (auto simp: node_at_def)

lemma get_array_item_kids:
  "kids h p as \<Longrightarrow> get_array_item_at h (Some p) i = Inr (if i < length as then Some (as ! i) else None)"
  using walk_index_seg by (fastforce simp: kids_def get_array_item_at_def node_at_def)

lemma last_item_seg: "seg h pv (Some a) (a # as) None l \<Longrightarrow> length (a # as) \<le> k \<Longrightarrow> last_item k h a = Inr (last (a # as))"
proof (induction as arbitrary: a pv k)
  case Nil
  then show ?case by (cases k) (auto simp: node_at_def)
next
  case (Cons b as)
  obtain n where n: "h a = Some n" "c_next n = Some b" "seg h (Some a) (Some b) (b # as) None l" using Cons.prems(1) by auto
  obtain k' where "k = Suc k'" "length (b # as) \<le> k'" using Cons.prems(2) by (cases k) auto
  then show ?case using n Cons.IH [OF n(3)] by (simp add: node_at_def)
qed

section \<open>Inserting\<close>

definition detached :: "store \<Rightarrow> ptr \<Rightarrow> bool" where
  "detached h b \<longleftrightarrow> (\<exists>n. h b = Some n \<and> c_next n = None \<and> c_prev n = None)"

lemma append_child:
  assumes "kids h p as" "detached h b" "b \<notin> set (p # as)" "length as \<le> k"
  shows "\<exists>h'. append_item k h (Some p) (Some b) = Inr (True, h') \<and> kids h' p (as @ [b]) \<and> same_items p h h'
    \<and> (\<forall>c. c \<notin> set (p # b # as) \<longrightarrow> h' c = h c)"
proof -
  obtain pn l where p: "h p = Some pn" "seg h None (c_child pn) as None l" "distinct (p # as)"
    using assms(1) by (auto simp: kids_def)
  obtain n where n: "h b = Some n" "c_next n = None" "c_prev n = None" using assms(2) by (auto simp: detached_def)
  show ?thesis
  proof (cases as)
    case Nil
    define h' where "h' = hset h p (c_child_update (\<lambda>_. Some b))"
    have "append_item k h (Some p) (Some b) = Inr (True, h')"
      using p Nil by (auto simp: append_item_def node_at_def write_node_ok h'_def)
    moreover have "kids h' p [b]" using p n assms(3) by (auto simp: kids_def h'_def)
    ultimately show ?thesis using Nil same_items_links(5) by (auto simp: h'_def)
  next
    case (Cons a zs)
    define h' where "h' = relink h (Some (last as)) (Some b)"
    have child: "c_child pn = Some a" using p(2) Cons by simp
    have last: "last_item k h a = Inr (last as)" using last_item_seg [of h None a zs l k] p(2) Cons assms(4) child by simp
    have lin: "last as \<in> set as" using Cons by simp
    have "h (last as) \<noteq> None" using seg_alloc [OF p(2) lin] .
    then have "suffix_object h (Some (last as)) (Some b) = Inr h'"
      using relink_writes [of "Some (last as)" h "Some b" "\<lambda>h. Inr h"] n(1)
      by (auto simp: suffix_object_def write_opt_def h'_def cbind_def split: sum.splits)
    then have run: "append_item k h (Some p) (Some b) = Inr (True, h')"
      using p(1) child last by (simp add: append_item_def node_at_def)
    have "seg h None (Some b) [b] None (Some b)" "l = Some (last as)" using n seg_last [OF p(2)] Cons by auto
    then obtain l' where "seg h' None (c_child pn) (as @ [b]) None l'"
      using relink_joins [OF p(2), of None "Some b" "[b]" "Some b"] p(3) assms(3) Cons
      by (auto simp: h'_def)
    moreover have frame: "h' c = h c" if "c \<notin> set (b # as)" for c
      using that lin unfolding h'_def by (intro relink_other) auto
    ultimately have "kids h' p (as @ [b])" using p assms(3) by (auto simp: kids_def)
    then show ?thesis using run frame same_items_relink by (auto simp: h'_def)
  qed
qed

text \<open>A node with its links set, between a segment before it and a segment behind it.\<close>

lemma seg_between:
  assumes "seg h None p xs e m" "seg h x q ys None l" "h b = Some n" "c_prev n = m" "c_next n = q" "distinct (b # xs @ ys)"
  defines "h1 \<equiv> (case q of None \<Rightarrow> h | Some c \<Rightarrow> hset h c (c_prev_update (\<lambda>_. Some b)))"
  defines "h2 \<equiv> (case m of None \<Rightarrow> h1 | Some c \<Rightarrow> hset h1 c (c_next_update (\<lambda>_. Some b)))"
  shows "\<exists>l'. seg h2 None (if xs = [] then Some b else p) (xs @ b # ys) None l'"
proof -
  have q: "q = (case ys of [] \<Rightarrow> None | c # _ \<Rightarrow> Some c)" using seg_first [OF assms(2)] .
  have m: "m = (if xs = [] then None else Some (last xs))" using seg_last [OF assms(1)] .
  have rest: "\<exists>l'. seg h1 (Some b) q ys None l'"
  proof (cases ys)
    case (Cons c zs)
    then show ?thesis using seg_set_start [of h x q c zs None l "Some b"] assms(2,6) q by (auto simp: h1_def)
  qed (use q in simp)
  have n1: "h1 b = Some n" using assms(3,6) q by (auto simp: h1_def split: list.split)
  have fr: "seg h1 None p xs e m" using assms(1,6) q by (auto simp: h1_def seg_hset split: list.split)
  show ?thesis
  proof (cases xs rule: rev_cases)
    case Nil
    then show ?thesis using rest n1 m assms(4,5) by (auto simp: h2_def)
  next
    case (snoc zs c)
    then have h2: "h2 = hset h1 c (c_next_update (\<lambda>_. Some b))" using m by (simp add: h2_def)
    have "seg h2 None p xs (Some b) m"
      using seg_set_end [of h1 None p zs c e m "Some b"] fr assms(6) m snoc by (simp add: h2)
    moreover obtain l' where "seg h2 m (Some b) (b # ys) None l'"
      using rest n1 snoc assms(4-6) by (auto simp: h2 seg_hset)
    ultimately have "seg h2 None p (xs @ b # ys) None l'" unfolding seg_append by blast
    then show ?thesis using snoc by auto
  qed
qed

lemma insert_before_child:
  assumes "kids h p (xs @ a # ys)" "h b = Some nb" "b \<notin> set (p # xs @ a # ys)"
  shows "\<exists>h'. cJSON_InsertItemInArray k h (Some p) (int (length xs)) (Some b) = Inr h' \<and> kids h' p (xs @ b # a # ys)
    \<and> same_items p h h' \<and> (\<forall>c. c \<notin> set (p # b # xs @ a # ys) \<longrightarrow> h' c = h c)"
  using assms(1)
proof (cases rule: kids_split)
  case (1 pn n m l)
  have "a \<notin> set xs" using 1(6) by auto
  note ends = seg_ends [OF 1(3,5) this]
  define h1 where "h1 = hset h b (c_next_update (\<lambda>_. Some a))"
  define h2 where "h2 = hset h1 b (c_prev_update (\<lambda>_. m))"
  define h3 where "h3 = hset h2 a (c_prev_update (\<lambda>_. Some b))"
  define h4 where "h4 = (case m of None \<Rightarrow> hset h3 p (c_child_update (\<lambda>_. Some b)) | Some c \<Rightarrow> hset h3 c (c_next_update (\<lambda>_. Some b)))"
  have nb: "h3 b = Some (nb\<lparr>c_next := Some a, c_prev := m\<rparr>)" "h1 a = Some n" "h2 a = Some n" "h3 p = Some pn"
    using 1 assms(2,3) by (auto simp: h1_def h2_def h3_def)
  have item: "get_array_item_at h (Some p) (length xs) = Inr (Some a)"
    using get_array_item_kids [OF assms(1)] by (simp add: nth_append)
  have m: "m = (if xs = [] then None else Some (last xs))" using seg_last [OF 1(3)] .
  have link: "(if Some a = c_child pn then write_node h3 (Some p) (c_child_update (\<lambda>_. Some b))
      else cbind (node_at h3 (Some b)) (\<lambda>n. write_node h3 (c_prev n) (c_next_update (\<lambda>_. Some b)))) = Inr h4"
  proof (cases "xs = []")
    case True
    then show ?thesis using ends(3) m nb(4) by (simp add: write_node_ok h4_def)
  next
    case False
    then have c: "last xs \<in> set xs" by simp
    then have "h3 (last xs) \<noteq> None" using seg_alloc [OF 1(3) c] 1(6) assms(3) by (auto simp: h1_def h2_def h3_def hset_def)
    then show ?thesis using ends(3) m nb(1) False by (simp add: node_at_def write_node_ok h4_def)
  qed
  have wr: "write_node h (Some b) (c_next_update (\<lambda>_. Some a)) = Inr h1" "node_at h1 (Some a) = Inr n"
    "write_node h1 (Some b) (c_prev_update (\<lambda>_. m)) = Inr h2" "write_node h2 (Some a) (c_prev_update (\<lambda>_. Some b)) = Inr h3"
    "node_at h3 (Some p) = Inr pn"
    using nb assms(2) by (simp_all add: write_node_ok node_at_def h1_def h2_def h3_def)
  have run: "cJSON_InsertItemInArray k h (Some p) (int (length xs)) (Some b) = Inr h4"
    unfolding cJSON_InsertItemInArray_def nat_int item cbind_simps wr 1(4) link by simp
  have "\<exists>l'. seg h4 None (if xs = [] then Some b else c_child pn) (xs @ b # a # ys) None l'"
  proof -
    have "seg h2 None (c_child pn) xs (Some a) m" "seg h2 m (Some a) (a # ys) None l" "h2 b = Some (nb\<lparr>c_next := Some a, c_prev := m\<rparr>)"
      using 1 nb(3) assms(2,3) by (auto simp: h1_def h2_def seg_hset)
    then show ?thesis
      using seg_between [of h2 "c_child pn" xs "Some a" m m "Some a" "a # ys" l b "nb\<lparr>c_next := Some a, c_prev := m\<rparr>"] 1(6) assms(3) m
      by (cases "xs = []") (auto simp: h3_def [symmetric] h4_def seg_hset)
  qed
  moreover have "\<exists>pn'. h4 p = Some pn' \<and> c_child pn' = (if xs = [] then Some b else c_child pn)"
    using nb(4) m 1(6) last_in_set [of xs] by (auto simp: h4_def hset_def)
  ultimately have "kids h4 p (xs @ b # a # ys)" using 1(6) assms(3) by (auto simp: kids_def)
  moreover have "same_items p h h4"
  proof -
    have "same_items p h h1" "same_items p h1 h2" "same_items p h2 h3" "same_items p h3 h4"
      by (simp_all add: h1_def h2_def h3_def h4_def same_items_links split: option.split)
    then show ?thesis by (blast intro: same_items_trans)
  qed
  moreover have "h4 c = h c" if "c \<notin> set (p # b # xs @ a # ys)" for c
    using that m last_in_set [of xs] by (auto simp: h1_def h2_def h3_def h4_def hset_def split: option.split)
  ultimately show ?thesis using run by blast
qed

section \<open>Deleting a tree\<close>

datatype ptree = PNode ptr "ptree list"

fun addrs :: "ptree list \<Rightarrow> ptr list" where
  "addrs [] = []"
| "addrs (PNode a us # ts) = a # addrs us @ addrs ts"

text \<open>The items that hang at a pointer: its successors and, unless it is a reference, its children.\<close>

fun forest :: "store \<Rightarrow> ptr option \<Rightarrow> ptree list \<Rightarrow> bool" where
  "forest h p [] \<longleftrightarrow> p = None"
| "forest h p (PNode a us # ts) \<longleftrightarrow>
     p = Some a \<and> (\<exists>n. h a = Some n \<and> (if c_type n AND cJSON_IsReference \<noteq> 0 then us = [] else forest h (c_child n) us) \<and> forest h (c_next n) ts)"

lemma forest_cong: "(\<forall>a \<in> set (addrs ts). h' a = h a) \<Longrightarrow> forest h' p ts = forest h p ts"
  by (induction h p ts rule: forest.induct) auto

lemma delete_forest:
  assumes "forest h p ts" "distinct (addrs ts)" "length (addrs ts) < k"
  shows "cJSON_Delete k h p = Inr (h |` (- set (addrs ts)))"
  using assms
proof (induction ts arbitrary: h p k rule: addrs.induct)
  case 1
  then show ?case by (cases k) (auto simp: restrict_map_def)
next
  case (2 a us ts)
  obtain k' where k: "k = Suc k'" using "2.prems"(3) by (cases k) auto
  obtain n where n: "p = Some a" "h a = Some n" "if c_type n AND cJSON_IsReference \<noteq> 0 then us = [] else forest h (c_child n) us" "forest h (c_next n) ts"
    using "2.prems"(1) by auto
  define h1 where "h1 = h |` (- set (addrs us))"
  have first: "(if \<not> is_reference n \<and> c_child n \<noteq> None then cJSON_Delete k' h (c_child n) else Inr h) = Inr h1"
  proof (cases "is_reference n \<or> c_child n = None")
    case True
    then have "us = []" using n(3) by (cases us) (auto simp: is_reference_def elim: forest.elims split: if_splits)
    then show ?thesis using True by (auto simp: h1_def restrict_map_def)
  next
    case False
    then show ?thesis using "2.IH"(1) [of h "c_child n" k'] n(3) "2.prems"(2,3) k by (auto simp: h1_def is_reference_def)
  qed
  have a: "h1 a = Some n" using n(2) "2.prems"(2) by (simp add: h1_def restrict_map_def)
  define h2 where "h2 = h1(a := None)"
  have f2: "forest h2 (c_next n) ts"
    using n(4) "2.prems"(2) by (subst forest_cong [of _ _ h]) (auto simp: h1_def h2_def restrict_map_def)
  have "distinct (addrs ts)" "length (addrs ts) < k'" using "2.prems"(2,3) k by simp_all
  with f2 have "cJSON_Delete k' h2 (c_next n) = Inr (h2 |` (- set (addrs ts)))" by (rule "2.IH"(2))
  moreover have "h2 |` (- set (addrs ts)) = h |` (- set (addrs (PNode a us # ts)))"
    by (auto simp: h1_def h2_def restrict_map_def fun_eq_iff)
  ultimately show ?case using n(1,2) a first by (simp add: k node_at_def h2_def)
qed

section \<open>Replacing\<close>

text \<open>The item that is replaced, taken out of its list, with everything below it.\<close>

definition owned :: "store \<Rightarrow> ptr \<Rightarrow> ptree list \<Rightarrow> bool" where
  "owned h a us \<longleftrightarrow> (\<exists>n. h a = Some n \<and> (if c_type n AND cJSON_IsReference \<noteq> 0 then us = [] else forest h (c_child n) us)) \<and> distinct (a # addrs us)"

lemma detached_forest:
  "owned h a us \<Longrightarrow> detached h a \<Longrightarrow> forest h (Some a) [PNode a us]"
  by (auto simp: owned_def detached_def)

lemma type_payload: "payload n = payload n' \<Longrightarrow> c_type n = c_type n'"
  by (simp add: payload_def)

lemma owned_detached:
  assumes "owned h a us" "same_items p h h'" "p \<notin> set (a # addrs us)" "\<forall>c \<in> set (addrs us). h' c = h c"
  shows "owned h' a us"
proof -
  obtain n where n: "h a = Some n" "if c_type n AND cJSON_IsReference \<noteq> 0 then us = [] else forest h (c_child n) us" "distinct (a # addrs us)"
    using assms(1) by (auto simp: owned_def)
  have "map_option payload (h' a) = map_option payload (h a)" "map_option c_child (h' a) = map_option c_child (h a)"
    using assms(2,3) by (auto simp: same_items_def)
  then obtain n' where n': "h' a = Some n'" "payload n' = payload n" "c_child n' = c_child n" using n(1) by auto
  then show ?thesis
    using n assms(4) type_payload [OF n'(2)] forest_cong [of us h' h] by (auto simp: owned_def)
qed

lemma delete_from_array:
  assumes "kids h p (xs @ a # ys)" "owned h a us" "set (addrs us) \<inter> set (p # xs @ a # ys) = {}" "Suc (length (addrs us)) < k"
  shows "\<exists>h'. cJSON_DeleteItemFromArray k h (Some p) (int (length xs)) = Inr h' \<and> kids h' p (xs @ ys)
    \<and> (\<forall>c \<in> set (a # addrs us). h' c = None) \<and> (\<forall>c. c \<notin> set (p # xs @ a # ys) \<union> set (addrs us) \<longrightarrow> h' c = h c)"
proof -
  obtain h1 where d: "cJSON_DetachItemViaPointer h (Some p) (Some a) = Inr (Some a, h1)" "kids h1 p (xs @ ys)" "same_items p h h1"
    "detached h1 a" "\<And>b. b \<notin> set (p # xs @ a # ys) \<Longrightarrow> h1 b = h b"
    using detach_child [OF assms(1)] unfolding detached_def by blast
  have below: "\<forall>c \<in> set (addrs us). h1 c = h c" using assms(3) d(5) by (meson disjoint_iff)
  have o: "owned h1 a us"
    using assms(1,3) by (intro owned_detached [OF assms(2) d(3) _ below]) (auto simp: kids_def)
  define h' where "h' = h1 |` (- set (a # addrs us))"
  have "cJSON_Delete k h1 (Some a) = Inr h'"
    using delete_forest [OF detached_forest [OF o d(4)], of k] o assms(4) by (simp add: h'_def owned_def)
  then have run: "cJSON_DeleteItemFromArray k h (Some p) (int (length xs)) = Inr h'"
    using get_array_item_kids [OF assms(1), of "length xs"] d(1)
    by (simp add: cJSON_DeleteItemFromArray_def cJSON_DetachItemFromArray_def nth_append)
  have keep: "h' c = h1 c" if "c \<in> set (p # xs @ ys)" for c
    using that assms(1,3) by (auto simp: h'_def restrict_map_def kids_def)
  have "kids h' p (xs @ ys)"
    using d(2) keep by (simp add: kids_cong [of p "xs @ ys" h' h1])
  then show ?thesis using run d(5) by (auto simp: h'_def restrict_map_def)
qed

lemma write_opt_ok: "(\<And>c. q = Some c \<Longrightarrow> h c \<noteq> None) \<Longrightarrow> write_opt h q f = Inr (case q of None \<Rightarrow> h | Some c \<Rightarrow> hset h c f)"
  by (cases q) (simp_all add: write_opt_def write_node_ok)

lemma hset_alloc: "hset h a f b = None \<longleftrightarrow> h b = None"
  by (auto simp: hset_def)

lemma replace_child:
  assumes "kids h p (xs @ a # ys)" "h b = Some nb" "b \<notin> set (p # xs @ a # ys)" "owned h a us"
    "set (b # addrs us) \<inter> set (p # xs @ a # ys) = {}" "b \<notin> set (addrs us)" "Suc (length (addrs us)) < k"
  shows "\<exists>h'. cJSON_ReplaceItemViaPointer k h (Some p) (Some a) (Some b) = Inr (True, h') \<and> kids h' p (xs @ b # ys)
    \<and> (\<forall>c \<in> set (a # addrs us). h' c = None) \<and> (\<forall>c. c \<notin> set (p # b # xs @ a # ys) \<union> set (addrs us) \<longrightarrow> h' c = h c)"
  using assms(1)
proof (cases rule: kids_split)
  case (1 pn n m l)
  have "a \<notin> set xs" using 1(6) by auto
  note ends = seg_ends [OF 1(3,5) this]
  define q where "q = c_next n"
  define h1 where "h1 = hset h b (\<lambda>r. r\<lparr>c_next := q, c_prev := m\<rparr>)"
  define h2 where "h2 = (case q of None \<Rightarrow> h1 | Some c \<Rightarrow> hset h1 c (c_prev_update (\<lambda>_. Some b)))"
  define h3 where "h3 = (case m of None \<Rightarrow> h2 | Some c \<Rightarrow> hset h2 c (c_next_update (\<lambda>_. Some b)))"
  define h4 where "h4 = (if xs = [] then hset h3 p (c_child_update (\<lambda>_. Some b)) else h3)"
  define h5 where "h5 = hset h4 a (\<lambda>n. n\<lparr>c_next := None, c_prev := None\<rparr>)"
  define h' where "h' = h5 |` (- set (a # addrs us))"
  have qy: "c \<in> set ys" if "q = Some c" for c using ends(2) that by (simp add: q_def)
  have frame: "h3 c = h c" if "c \<notin> set (b # xs @ ys)" for c
    using that qy ends(1) by (auto simp: h1_def h2_def h3_def hset_def split: option.split)
  have at3: "h3 p = Some pn" "h3 a = Some n" using frame 1 assms(3) by auto
  have al: "h1 c \<noteq> None" if "q = Some c" for c using qy [OF that] seg_alloc [OF 1(5)] by (auto simp: h1_def hset_alloc)
  have al2: "h2 c \<noteq> None" if "m = Some c" for c
    using seg_alloc [OF 1(3) ends(1) [OF that]] by (simp add: h1_def h2_def hset_alloc del: not_None_eq split: option.split)
  have w: "node_at h (Some a) = Inr n" "write_node h (Some b) (\<lambda>r. r\<lparr>c_next := q, c_prev := m\<rparr>) = Inr h1"
    "write_opt h1 q (c_prev_update (\<lambda>_. Some b)) = Inr h2" "write_opt h2 m (c_next_update (\<lambda>_. Some b)) = Inr h3"
    "node_at h3 (Some p) = Inr pn"
    using 1(2) assms(2) at3 write_opt_ok [OF al] write_opt_ok [OF al2]
    by (simp_all add: node_at_def write_node_ok h1_def h2_def h3_def)
  have w4: "(if c_child pn = Some a then write_node h3 (Some p) (c_child_update (\<lambda>_. Some b)) else Inr h3) = Inr h4"
    using ends(3) at3 by (auto simp: write_node_ok h4_def)
  have a4: "h4 a = Some n" using at3 1(6) by (auto simp: h4_def)
  have w5: "write_node h4 (Some a) (\<lambda>n. n\<lparr>c_next := None, c_prev := None\<rparr>) = Inr h5"
    using a4 by (simp add: write_node_ok h5_def)
  have seg4: "\<exists>l'. seg h5 None (if xs = [] then Some b else c_child pn) (xs @ b # ys) None l'"
  proof -
    have "seg h1 None (c_child pn) xs (Some a) m" "seg h1 (Some a) q ys None l" "h1 b = Some (nb\<lparr>c_next := q, c_prev := m\<rparr>)"
      using 1(3,5) assms(2,3) by (auto simp: h1_def q_def seg_hset)
    then have "\<exists>l'. seg h3 None (if xs = [] then Some b else c_child pn) (xs @ b # ys) None l'"
      unfolding h3_def h2_def using 1(6) assms(3)
      by (intro seg_between [of h1 "c_child pn" xs "Some a" m "Some a" q ys l b "nb\<lparr>c_next := q, c_prev := m\<rparr>"]) auto
    then show ?thesis using 1(6) assms(3) by (auto simp: h4_def h5_def seg_hset)
  qed
  have "\<exists>pn'. h5 p = Some pn' \<and> c_child pn' = (if xs = [] then Some b else c_child pn)"
    using at3 1(6) by (auto simp: h4_def h5_def)
  then have k5: "kids h5 p (xs @ b # ys)" using seg4 1(6) assms(3) by (auto simp: kids_def)
  have "same_items p h1 h2" "same_items p h2 h3" "same_items p h3 h4" "same_items p h4 h5" "same_items p h h1"
    by (simp_all add: h1_def h2_def h3_def h4_def h5_def same_items_refl same_items_links split: option.split)
  then have si: "same_items p h h5" by (blast intro: same_items_trans)
  have out: "h5 c = h c" if "c \<notin> set (p # b # xs @ a # ys)" for c using frame [of c] that by (simp add: h4_def h5_def)
  have below: "\<forall>c \<in> set (addrs us). h5 c = h c" by (intro ballI out) (use assms(5,6) in auto)
  have o: "owned h5 a us" using 1(6) assms(5) by (intro owned_detached [OF assms(4) si _ below]) auto
  have "detached h5 a" using a4 by (auto simp: detached_def h5_def)
  then have "cJSON_Delete k h5 (Some a) = Inr h'"
    using delete_forest [OF detached_forest [OF o], of k] o assms(7) by (simp add: h'_def owned_def)
  then have run: "cJSON_ReplaceItemViaPointer k h (Some p) (Some a) (Some b) = Inr (True, h')"
    unfolding cJSON_ReplaceItemViaPointer_def w cbind_simps 1(4) q_def [symmetric] w4 w5 using assms(3) w by simp
  have "kids h' p (xs @ b # ys)"
    using k5 1(6) assms(3,5,6) by (subst kids_cong [of _ _ _ h5]) (auto simp: h'_def restrict_map_def)
  then show ?thesis using run out by (auto simp: h'_def restrict_map_def)
qed

section \<open>The interface: a list that is edited in place\<close>

locale edited_list =
  fixes holds :: "'h \<Rightarrow> ptr \<Rightarrow> ptr list \<Rightarrow> bool" and loose :: "'h \<Rightarrow> ptr \<Rightarrow> bool"
    and detach :: "'h \<Rightarrow> ptr \<Rightarrow> ptr \<Rightarrow> 'h cres" and insert_at :: "'h \<Rightarrow> ptr \<Rightarrow> nat \<Rightarrow> ptr \<Rightarrow> 'h cres"
  assumes detach_law: "holds h p (xs @ a # ys) \<Longrightarrow> \<exists>h'. detach h p a = Inr h' \<and> holds h' p (xs @ ys) \<and> loose h' a"
    and insert_law: "holds h p (xs @ ys) \<Longrightarrow> loose h b \<Longrightarrow> b \<notin> set (p # xs @ ys)
      \<Longrightarrow> \<exists>h'. insert_at h p (length xs) b = Inr h' \<and> holds h' p (xs @ b # ys)"
    and distinct_law: "holds h p as \<Longrightarrow> distinct (p # as)"
begin

lemma move:
  assumes "holds h p (xs @ a # ys)" "us @ vs = xs @ ys"
  shows "\<exists>h'. cbind (detach h p a) (\<lambda>h. insert_at h p (length us) a) = Inr h' \<and> holds h' p (us @ a # vs)"
proof -
  obtain h1 where h1: "detach h p a = Inr h1" "holds h1 p (us @ vs)" "loose h1 a" using detach_law [OF assms(1)] assms(2) by auto
  have "a \<notin> set (p # us @ vs)" using distinct_law [OF assms(1)] assms(2) by auto
  then show ?thesis using insert_law [OF h1(2,3)] h1(1) by simp
qed

lemma insert_detach:
  assumes "holds h p (xs @ ys)" "loose h b" "b \<notin> set (p # xs @ ys)"
  shows "\<exists>h'. cbind (insert_at h p (length xs) b) (\<lambda>h. detach h p b) = Inr h' \<and> holds h' p (xs @ ys) \<and> loose h' b"
  using insert_law [OF assms] detach_law by fastforce

end

definition detach_from :: "store \<Rightarrow> ptr \<Rightarrow> ptr \<Rightarrow> store cres" where
  "detach_from h p a = cbind (cJSON_DetachItemViaPointer h (Some p) (Some a)) (\<lambda>(_, h). Inr h)"

definition insert_into :: "store \<Rightarrow> ptr \<Rightarrow> nat \<Rightarrow> ptr \<Rightarrow> store cres" where
  "insert_into h p i b = cJSON_InsertItemInArray i h (Some p) (int i) (Some b)"

lemma insert_child:
  assumes "kids h p as" "detached h b" "b \<notin> set (p # as)" "length as \<le> k \<or> i < length as"
  shows "\<exists>h'. cJSON_InsertItemInArray k h (Some p) (int i) (Some b) = Inr h' \<and> kids h' p (take i as @ b # drop i as)
    \<and> same_items p h h' \<and> (\<forall>c. c \<notin> set (p # b # as) \<longrightarrow> h' c = h c)"
proof (cases "i < length as")
  case True
  then have s: "as = take i as @ as ! i # drop (Suc i) as" "drop i as = as ! i # drop (Suc i) as" "length (take i as) = i"
    by (simp_all add: id_take_nth_drop Cons_nth_drop_Suc)
  obtain nb where nb: "h b = Some nb" using assms(2) by (auto simp: detached_def)
  have kd: "kids h p (take i as @ as ! i # drop (Suc i) as)" using assms(1) s(1) by simp
  have "b \<notin> set (p # take i as @ as ! i # drop (Suc i) as)" using assms(3) s(1) by metis
  from insert_before_child [OF kd nb this, of k] show ?thesis using s(2,3) unfolding s(1) [symmetric] by simp
next
  case False
  then have "get_array_item_at h (Some p) i = Inr None" using get_array_item_kids [OF assms(1)] by simp
  then show ?thesis
    using append_child [OF assms(1-3), of k] assms(4) False by (auto simp: cJSON_InsertItemInArray_def)
qed

interpretation children: edited_list kids detached detach_from insert_into
proof
  show "\<exists>h'. detach_from h p a = Inr h' \<and> kids h' p (xs @ ys) \<and> detached h' a" if "kids h p (xs @ a # ys)" for h p xs a ys
    using detach_child [OF that] by (auto simp: detach_from_def detached_def)
  show "\<exists>h'. insert_into h p (length xs) b = Inr h' \<and> kids h' p (xs @ b # ys)"
    if "kids h p (xs @ ys)" "detached h b" "b \<notin> set (p # xs @ ys)" for h p xs ys b
    using insert_child [OF that, of "length xs" "length xs"] by (cases ys) (auto simp: insert_into_def)
  show "distinct (p # as)" if "kids h p as" for h p as using that by (simp add: kids_def)
qed

text \<open>
  C37: Inserting into an array. \<open>cJSON_InsertItemInArray\<close> puts a loose item at the given position of the list of
  children, or at its end when the position is beyond it; the links in both directions are those of the new list,
  and no item changes besides.
\<close>

theorem insert_refines_list:
  assumes "kids h p as" "detached h b" "b \<notin> set (p # as)" "length as \<le> k" "0 \<le> which"
  shows "\<exists>h'. cJSON_InsertItemInArray k h (Some p) which (Some b) = Inr h'
    \<and> kids h' p (take (nat which) as @ b # drop (nat which) as) \<and> same_items p h h'
    \<and> (\<forall>c. c \<notin> set (p # b # as) \<longrightarrow> h' c = h c)"
  using insert_child [OF assms(1-3), of k "nat which"] assms(4,5) by simp

definition plain_node :: "ptr option \<Rightarrow> ptr option \<Rightarrow> ptr option \<Rightarrow> 32 word \<Rightarrow> cnode" where
  "plain_node nx pv ch t = \<lparr>c_next = nx, c_prev = pv, c_child = ch, c_type = t, c_valuestring = None, c_valueint = 0,
     c_valuedouble = DFin 0, c_string = None\<rparr>"

definition store_example :: store where
  "store_example = [0 \<mapsto> plain_node None None (Some 1) cJSON_Array, 1 \<mapsto> plain_node (Some 2) None None cJSON_NULL,
     2 \<mapsto> plain_node None (Some 1) (Some 4) cJSON_Array, 3 \<mapsto> plain_node None None None cJSON_True,
     4 \<mapsto> plain_node None None None cJSON_False]"

lemma store_example_facts:
  "kids store_example 0 [1, 2]" "detached store_example 3" "owned store_example 2 [PNode 4 []]"
  "forest store_example (Some 1) [PNode 1 [], PNode 2 [PNode 4 []]]"
  by (simp_all add: store_example_def kids_def detached_def owned_def plain_node_def is_reference_def cJSON_types cJSON_IsReference_def)

theorem insert_refines_list_witness:
  "\<exists>h'. cJSON_InsertItemInArray 2 store_example (Some 0) 1 (Some 3) = Inr h' \<and> kids h' 0 [1, 3, 2]"
  using insert_refines_list [OF store_example_facts(1,2), of 2 1] by auto

text \<open>
  C38: Replacing an item. \<open>cJSON_ReplaceItemViaPointer\<close> puts the replacement where the item was, in both
  directions of the list, frees the item and everything it owns, and touches nothing else.
\<close>

theorem replace_refines_list:
  assumes "kids h p (xs @ a # ys)" "h b = Some nb" "owned h a us"
    "set (b # addrs us) \<inter> set (p # xs @ a # ys) = {}" "b \<notin> set (addrs us)" "Suc (length (addrs us)) < k"
  shows "\<exists>h'. cJSON_ReplaceItemViaPointer k h (Some p) (Some a) (Some b) = Inr (True, h') \<and> kids h' p (xs @ b # ys)
    \<and> (\<forall>c \<in> set (a # addrs us). h' c = None) \<and> (\<forall>c. c \<notin> set (p # b # xs @ a # ys) \<union> set (addrs us) \<longrightarrow> h' c = h c)"
  using replace_child [OF assms(1,2) _ assms(3-6)] assms(4) by auto

theorem replace_refines_list_witness:
  "\<exists>h'. cJSON_ReplaceItemViaPointer 3 store_example (Some 0) (Some 2) (Some 3) = Inr (True, h') \<and> kids h' 0 [1, 3] \<and> h' 4 = None"
proof -
  have b: "store_example 3 = Some (plain_node None None None cJSON_True)" by (simp add: store_example_def)
  show ?thesis
    using replace_refines_list [of store_example 0 "[1]" 2 "[]" 3 _ "[PNode 4 []]" 3] store_example_facts(1,3) b by auto
qed

text \<open>
  C39: Deleting a tree. On a well-formed forest - every item reached along \<open>next\<close> and \<open>child\<close>, the children of
  references excepted, is allocated and reached once - \<open>cJSON_Delete\<close> ends, frees each of these items exactly once and
  leaves every other item alone.
\<close>

theorem delete_frees_exactly:
  assumes "forest h item ts" "distinct (addrs ts)" "length (addrs ts) < k"
  shows "cJSON_Delete k h item = Inr (h |` (- set (addrs ts)))"
  using assms by (rule delete_forest)

theorem delete_frees_exactly_witness:
  "cJSON_Delete 4 store_example (Some 1) = Inr (store_example |` (- {1, 2, 4}))"
  using delete_frees_exactly [OF store_example_facts(4), of 4] by simp

text \<open>
  Detaching and inserting are inverse: an item that is taken out of its list and put back at the position
  \<open>length us\<close> of what is left stands there, so that an item can be moved within its list.
\<close>

theorem move_item:
  assumes "kids h p (xs @ a # ys)" "us @ vs = xs @ ys"
  shows "\<exists>h'. cbind (detach_from h p a) (\<lambda>h. insert_into h p (length us) a) = Inr h' \<and> kids h' p (us @ a # vs)"
  using assms by (rule children.move)

theorem move_item_witness:
  "\<exists>h'. cbind (detach_from store_example 0 2) (\<lambda>h. insert_into h 0 0 2) = Inr h' \<and> kids h' 0 [2, 1]"
  using move_item [of store_example 0 "[1]" 2 "[]" "[]" "[1]"] store_example_facts(1) by simp

end
