(* ===== verification/Cjson_Number.thy ===== *)
theory Cjson_Number
  imports Cjson
begin

text \<open>
  The text of numbers, as \<open>parse_number\<close> and \<open>print_number\<close> of \<open>cJSON.c\<close> use the C library for it:
  \<open>strtod\<close> (and \<open>sscanf\<close> with \<open>%lg\<close>, which reads the same texts) and \<open>sprintf\<close> with \<open>%1.15g\<close> and
  \<open>%1.17g\<close>, both in the C locale. They read and write decimal numbers exactly and round once, to the nearest
  double or to the asked number of digits, ties to even. A double is a rational number or an infinity;
  negative zero is not distinguished from zero.
\<close>

section \<open>Rounding to a double\<close>

definition exp2 :: "int \<Rightarrow> rat" where
  "exp2 e = (if 0 \<le> e then 2 ^ nat e else 1 / 2 ^ nat (- e))"

definition exp10 :: "int \<Rightarrow> rat" where
  "exp10 e = (if 0 \<le> e then 10 ^ nat e else 1 / 10 ^ nat (- e))"

text \<open>To the nearest integer, ties to the even one.\<close>

definition round_even :: "rat \<Rightarrow> int" where
  "round_even r =
     (let f = \<lfloor>r\<rfloor>; d = r - of_int f in
      if 1 / 2 < d \<or> (d = 1 / 2 \<and> odd f) then f + 1 else f)"

text \<open>The exponent \<open>e\<close> with \<open>2 ^ e \<le> r < 2 ^ (e + 1)\<close>, for positive \<open>r\<close>.\<close>

definition binade :: "rat \<Rightarrow> int" where
  "binade r =
     (let (n, d) = quotient_of r; k = int (nbits (nat n)) - int (nbits (nat d))
      in if exp2 k \<le> r then k else k - 1)"

text \<open>53 significant bits, or fewer near zero, where the last bit counts \<open>2 ^ - 1074\<close>; \<open>2 ^ 1024\<close> is infinite.\<close>

definition to_double :: "rat \<Rightarrow> double" where
  "to_double r =
     (if r = 0 then DFin 0
      else let a = \<bar>r\<bar>; e = max (binade a - 52) (- 1074); v = of_int (round_even (a / exp2 e)) * exp2 e
           in if exp2 1024 \<le> v then DInf (r < 0) else DFin (if r < 0 then - v else v))"

section \<open>Reading\<close>

definition number_char :: "char \<Rightarrow> bool" where
  "number_char c \<longleftrightarrow> is_digit c \<or> c = CHR ''+'' \<or> c = CHR ''-'' \<or> c = CHR ''e'' \<or> c = CHR ''E'' \<or> c = CHR ''.''"

definition sign_of :: "string \<Rightarrow> bool \<times> string" where
  "sign_of s = (case s of [] \<Rightarrow> (False, s)
     | c # r \<Rightarrow> if c = CHR ''-'' then (True, r) else if c = CHR ''+'' then (False, r) else (False, s))"

text \<open>The exponent part: its value and the text after it; without digits there is none.\<close>

definition exponent_of :: "string \<Rightarrow> int \<times> string" where
  "exponent_of s = (case s of [] \<Rightarrow> (0, s)
     | c # r \<Rightarrow>
         if c = CHR ''e'' \<or> c = CHR ''E'' then
           (let (neg, u) = sign_of r; ds = takeWhile is_digit u in
            if ds = [] then (0, s)
            else (if neg then - int (digits_val ds) else int (digits_val ds), dropWhile is_digit u))
         else (0, s))"

text \<open>The number a text over \<open>number_char\<close> begins with, and how many characters belong to it.\<close>

definition strtod :: "string \<Rightarrow> double \<times> nat" where
  "strtod s =
     (let (neg, u) = sign_of s; ip = takeWhile is_digit u; r1 = dropWhile is_digit u;
          (fp, r2) = (case r1 of [] \<Rightarrow> ([], r1)
                        | c # t \<Rightarrow> if c = CHR ''.'' \<and> (ip \<noteq> [] \<or> takeWhile is_digit t \<noteq> [])
                                   then (takeWhile is_digit t, dropWhile is_digit t) else ([], r1))
      in if ip = [] \<and> fp = [] then (DFin 0, 0)
         else let (ex, rest) = exponent_of r2;
                  v = of_nat (digits_val (ip @ fp)) * exp10 (ex - int (length fp))
              in (to_double (if neg then - v else v), length s - length rest))"

section \<open>Writing\<close>

text \<open>The exponent \<open>x\<close> with \<open>10 ^ x \<le> r < 10 ^ (x + 1)\<close>, for positive \<open>r\<close>.\<close>

definition decade :: "rat \<Rightarrow> int" where
  "decade r =
     (let (n, d) = quotient_of r; k = int (length (nat_str (nat n))) - int (length (nat_str (nat d)))
      in if exp10 k \<le> r then k else k - 1)"

definition strip_zeros :: "string \<Rightarrow> string" where
  "strip_zeros s = rev (dropWhile (\<lambda>c. c = CHR ''0'') (rev s))"

definition point :: "string \<Rightarrow> string" where
  "point fs = (if fs = [] then [] else CHR ''.'' # fs)"

definition two_digits :: "nat \<Rightarrow> string" where
  "two_digits n = (if n < 10 then CHR ''0'' # nat_str n else nat_str n)"

definition fmt_e :: "string \<Rightarrow> int \<Rightarrow> string" where
  "fmt_e ds x = take 1 ds @ point (strip_zeros (drop 1 ds)) @ ''e''
     @ (if x < 0 then ''-'' else ''+'') @ two_digits (nat \<bar>x\<bar>)"

definition fmt_f :: "string \<Rightarrow> int \<Rightarrow> string" where
  "fmt_f ds x =
     (if 0 \<le> x then take (nat x + 1) ds @ point (strip_zeros (drop (nat x + 1) ds))
      else ''0'' @ point (replicate (nat (- x) - 1) (CHR ''0'') @ strip_zeros ds))"

text \<open>The first \<open>P\<close> significant digits of a positive number, as an integer, and the exponent of the first.\<close>

definition sig_digits :: "nat \<Rightarrow> rat \<Rightarrow> nat \<times> int" where
  "sig_digits P a =
     (let x = decade a; m = nat (round_even (a / exp10 (x - int P + 1)))
      in if m = 10 ^ P then (10 ^ (P - 1), x + 1) else (m, x))"

text \<open>\<open>%1.Pg\<close>: the fixed style unless the exponent is below -4 or not below \<open>P\<close>.\<close>

definition fmt_g :: "nat \<Rightarrow> rat \<Rightarrow> string" where
  "fmt_g P r =
     (if r = 0 then ''0''
      else let (m, x) = sig_digits P \<bar>r\<bar>; ds = nat_str m
           in (if r < 0 then ''-'' else []) @ (if x < - 4 \<or> int P \<le> x then fmt_e ds x else fmt_f ds x))"

section \<open>The shape of the written numbers\<close>

definition digits :: "string \<Rightarrow> bool" where
  "digits s \<longleftrightarrow> (\<forall>c \<in> set s. is_digit c)"

lemma digits_simps [simp]:
  "digits []" "digits (c # s) \<longleftrightarrow> is_digit c \<and> digits s" "digits (s @ t) \<longleftrightarrow> digits s \<and> digits t"
  "digits (nat_str n)"
  using nat_str_digits by (auto simp: digits_def)

lemma digits_sub:
  "digits s \<Longrightarrow> digits (take n s)" "digits s \<Longrightarrow> digits (drop n s)" "digits s \<Longrightarrow> digits (strip_zeros s)"
  unfolding digits_def strip_zeros_def by (auto dest: in_set_takeD in_set_dropD set_dropWhileD)

lemma digit_literals [simp]:
  "is_digit (CHR ''0'')" "\<not> is_digit (CHR ''.'')" "\<not> is_digit (CHR ''e'')" "\<not> is_digit (CHR ''E'')"
  "\<not> is_digit (CHR ''+'')" "\<not> is_digit (CHR ''-'')"
  by (simp_all add: is_digit_def)

definition num_text :: "bool \<Rightarrow> string \<Rightarrow> string \<Rightarrow> int option \<Rightarrow> string \<Rightarrow> bool" where
  "num_text neg ip fp ex s \<longleftrightarrow> ip \<noteq> [] \<and> digits ip \<and> digits fp
     \<and> (case ex of
          None \<Rightarrow> s = (if neg then ''-'' else []) @ ip @ point fp
        | Some x \<Rightarrow> s = (if neg then ''-'' else []) @ ip @ point fp @ ''e'' @ (if x < 0 then ''-'' else ''+'') @ two_digits (nat \<bar>x\<bar>))"

lemma two_digits_simps [simp]: "two_digits n \<noteq> []" "digits (two_digits n)" "digits_val (two_digits n) = n"
proof -
  have "digits_val (CHR ''0'' # s) = digits_val s" for s by (simp add: digits_val_def digit_val_def)
  then show "two_digits n \<noteq> []" "digits (two_digits n)" "digits_val (two_digits n) = n"
    by (simp_all add: two_digits_def digits_val_nat_str)
qed

lemma takeWhile_digits:
  "digits s \<Longrightarrow> (t = [] \<or> \<not> is_digit (hd t)) \<Longrightarrow> takeWhile is_digit (s @ t) = s \<and> dropWhile is_digit (s @ t) = t"
  by (cases t) (auto simp: digits_def takeWhile_append dropWhile_append takeWhile_eq_all_conv [THEN iffD2])

lemma all_digits [simp]: "digits s \<Longrightarrow> takeWhile is_digit s = s" "digits s \<Longrightarrow> dropWhile is_digit s = []"
  by (auto simp: digits_def takeWhile_eq_all_conv)

lemma exponent_of_text:
  "exponent_of (''e'' @ (if x < 0 then ''-'' else ''+'') @ two_digits (nat \<bar>x\<bar>)) = (x, [])"
  "exponent_of [] = (0, [])"
  by (auto simp: exponent_of_def sign_of_def Let_def)

lemma strtod_num_text:
  assumes "num_text neg ip fp ex s"
  shows "strtod s = (to_double ((if neg then - 1 else 1) * of_nat (digits_val (ip @ fp))
      * exp10 ((case ex of None \<Rightarrow> 0 | Some x \<Rightarrow> x) - int (length fp))), length s)"
proof -
  define tl where "tl = (case ex of None \<Rightarrow> [] | Some x \<Rightarrow> ''e'' @ (if x < 0 then ''-'' else ''+'') @ two_digits (nat \<bar>x\<bar>))"
  have ip: "ip \<noteq> []" "digits ip" "digits fp" and s: "s = (if neg then ''-'' else []) @ ip @ point fp @ tl"
    using assms by (auto simp: num_text_def tl_def split: option.splits)
  have tl: "exponent_of tl = ((case ex of None \<Rightarrow> 0 | Some x \<Rightarrow> x), [])"
    using exponent_of_text by (auto simp: tl_def split: option.splits)
  have tl1: "tl = [] \<or> (\<not> is_digit (hd tl) \<and> hd tl \<noteq> CHR ''.'')" by (auto simp: tl_def split: option.splits)
  obtain c cs where c: "ip = c # cs" "is_digit c" using ip by (cases ip) auto
  have sg: "sign_of s = (neg, ip @ point fp @ tl)"
    using c is_digit_not_special [of c] by (auto simp: s sign_of_def)
  have "point fp @ tl = [] \<or> \<not> is_digit (hd (point fp @ tl))" using tl1 by (auto simp: point_def)
  note w1 = takeWhile_digits [OF ip(2) this]
  note w2 = takeWhile_digits [OF ip(3), of tl]
  show ?thesis
  proof (cases fp)
    case Nil
    then show ?thesis
      using sg w1 ip(1,2) tl tl1 unfolding strtod_def Let_def
      by (cases tl) (auto simp: point_def)
  next
    case (Cons d ds)
    then show ?thesis
      using sg w1 w2 ip tl tl1 unfolding strtod_def Let_def
      by (auto simp: point_def)
  qed
qed

lemma num_text_chars:
  assumes "num_text neg ip fp ex s"
  shows "\<forall>c \<in> set s. number_char c" "s \<noteq> []" "hd s = CHR ''-'' \<or> is_digit (hd s)"
proof -
  have d: "number_char c" if "c \<in> set t" "digits t" for c t
    using that by (auto simp: digits_def number_char_def)
  show "\<forall>c \<in> set s. number_char c"
    using assms d [of _ ip] d [of _ fp] d [of _ "two_digits _"]
    by (auto simp: num_text_def point_def number_char_def split: option.splits if_splits)
  show "s \<noteq> []" "hd s = CHR ''-'' \<or> is_digit (hd s)"
    using assms by (cases ip; auto simp: num_text_def split: option.splits)+
qed

lemma fmt_g_shape: "\<exists>neg ip fp ex. num_text neg ip fp ex (fmt_g P r)"
proof (cases "r = 0")
  case True
  then have "num_text False ''0'' [] None (fmt_g P r)" by (simp add: num_text_def fmt_g_def point_def)
  then show ?thesis by blast
next
  case False
  then obtain m x where g: "fmt_g P r = (if r < 0 then ''-'' else []) @
      (if x < - 4 \<or> int P \<le> x then fmt_e (nat_str m) x else fmt_f (nat_str m) x)"
    by (cases "sig_digits P \<bar>r\<bar>") (simp add: fmt_g_def Let_def)
  let ?ds = "nat_str m"
  have e: "num_text (r < 0) (take 1 ?ds) (strip_zeros (drop 1 ?ds)) (Some x) ((if r < 0 then ''-'' else []) @ fmt_e ?ds x)"
    by (simp add: num_text_def fmt_e_def digits_sub)
  have f: "num_text (r < 0) (take (nat x + 1) ?ds) (strip_zeros (drop (nat x + 1) ?ds)) None
      ((if r < 0 then ''-'' else []) @ fmt_f ?ds x)" if "0 \<le> x"
    using that by (simp add: num_text_def fmt_f_def digits_sub)
  have f0: "num_text (r < 0) ''0'' (replicate (nat (- x) - 1) (CHR ''0'') @ strip_zeros ?ds) None
      ((if r < 0 then ''-'' else []) @ fmt_f ?ds x)" if "\<not> 0 \<le> x"
    using that by (simp add: num_text_def fmt_f_def digits_sub) (simp add: digits_def)
  show ?thesis
  proof (cases "x < - 4 \<or> int P \<le> x")
    case True
    with e show ?thesis unfolding g by (simp only: if_True) blast
  next
    case False
    with f f0 show ?thesis unfolding g by (cases "0 \<le> x") (simp only: if_False, blast)+
  qed
qed


section \<open>Decades\<close>

lemma nat_str_bounds: "0 < n \<Longrightarrow> 10 ^ (length (nat_str n) - 1) \<le> n \<and> n < 10 ^ length (nat_str n)"
proof (induction n rule: nat_str.induct)
  case (1 n)
  show ?case
  proof (cases "n < 10")
    case True
    with 1(2) show ?thesis by (subst (1 2) nat_str.simps) simp
  next
    case False
    let ?l = "length (nat_str (n div 10))"
    have l: "length (nat_str n) = Suc ?l" using False by (subst nat_str.simps) simp
    from 1(1) [OF False] False have IH: "10 ^ (?l - 1) \<le> n div 10" "n div 10 < 10 ^ ?l" by auto
    have "0 < ?l" by simp
    then have "10 ^ ?l = 10 * (10 :: nat) ^ (?l - 1)" by (metis One_nat_def Suc_pred power_Suc)
    moreover have "n < 10 * 10 ^ ?l" using IH(2) by (metis div_less_iff_less_mult mult.commute zero_less_numeral)
    moreover have "10 * 10 ^ (?l - 1) \<le> n"
    proof -
      have "10 * 10 ^ (?l - 1) \<le> 10 * (n div 10)" using IH(1) by simp
      also have "\<dots> \<le> n" by simp
      finally show ?thesis .
    qed
    ultimately show ?thesis using l by simp
  qed
qed

lemma exp10_pos [simp]: "0 < exp10 e"
  by (simp add: exp10_def)

lemma exp10_nat: "exp10 (int n) = 10 ^ n"
  by (simp add: exp10_def)

lemma exp10_add: "exp10 (a + b) = exp10 a * exp10 b"
proof -
  have "exp10 e = (10 :: rat) powi e" for e by (simp add: exp10_def power_int_def field_simps power_inverse)
  then show ?thesis by (simp add: power_int_add)
qed

lemma exp10_mono: "a \<le> b \<Longrightarrow> exp10 a \<le> exp10 b"
  using exp10_add [of a "b - a"] exp10_nat [of "nat (b - a)"] by (simp add: one_le_power)

lemma exp10_less: "exp10 a < exp10 b \<Longrightarrow> a < b"
  using exp10_mono [of b a] by linarith

lemma quotient_pos:
  assumes "0 < r" "quotient_of r = (n, d)"
  shows "0 < n" "0 < d" "r = of_nat (nat n) / of_nat (nat d)"
proof -
  show d: "0 < d" using assms(2) by (metis quotient_of_denom_pos)
  have r: "r = of_int n / of_int d" using assms(2) by (rule quotient_of_div)
  with assms(1) d show "0 < n" by (simp add: zero_less_divide_iff)
  with d r show "r = of_nat (nat n) / of_nat (nat d)" by simp
qed

lemma decade_bounds:
  assumes "0 < r"
  shows "exp10 (decade r) \<le> r" "r < exp10 (decade r + 1)"
proof -
  obtain n d where q: "quotient_of r = (n, d)" by fastforce
  note p = quotient_pos [OF assms q]
  let ?n = "nat n" and ?d = "nat d"
  let ?ln = "length (nat_str ?n)" and ?ld = "length (nat_str ?d)"
  define k where "k = int ?ln - int ?ld"
  have n: "(10 :: rat) ^ (?ln - 1) \<le> of_nat ?n" "of_nat ?n < (10 :: rat) ^ ?ln"
    using nat_str_bounds [of ?n] p(1) by (metis of_nat_le_iff of_nat_power of_nat_numeral zero_less_nat_eq,
        metis of_nat_less_iff of_nat_power of_nat_numeral zero_less_nat_eq nat_str_bounds)
  have d: "(10 :: rat) ^ (?ld - 1) \<le> of_nat ?d" "of_nat ?d < (10 :: rat) ^ ?ld"
    using nat_str_bounds [of ?d] p(2) by (metis of_nat_le_iff of_nat_power of_nat_numeral zero_less_nat_eq,
        metis of_nat_less_iff of_nat_power of_nat_numeral zero_less_nat_eq nat_str_bounds)
  obtain a b where len: "?ln = Suc a" "?ld = Suc b" by (metis length_0_conv nat_str_not_Nil not0_implies_Suc)
  have d0: "0 < (of_nat ?d :: rat)" using p(2) by simp
  have up: "r < exp10 (k + 1)"
  proof -
    have "of_nat ?n < (10 :: rat) ^ ?ln" by (rule n(2))
    also have "\<dots> = exp10 (k + 1) * 10 ^ (?ld - 1)"
      using exp10_add [of "k + 1" "int b"] len by (simp only: exp10_nat [symmetric]) (simp add: k_def algebra_simps)
    also have "\<dots> \<le> exp10 (k + 1) * of_nat ?d" using d(1) by simp
    finally show ?thesis using d0 by (simp add: p(3) divide_less_eq)
  qed
  have lo: "exp10 (k - 1) \<le> r"
  proof -
    have "exp10 (k - 1) * of_nat ?d \<le> exp10 (k - 1) * 10 ^ ?ld" using d(2) by simp
    also have "\<dots> = 10 ^ (?ln - 1)"
      using exp10_add [of "k - 1" "int ?ld"] len by (simp only: exp10_nat [symmetric]) (simp add: k_def)
    also have "\<dots> \<le> of_nat ?n" by (rule n(1))
    finally show ?thesis using d0 by (simp add: p(3) le_divide_eq)
  qed
  have dec: "decade r = (if exp10 k \<le> r then k else k - 1)" by (simp add: decade_def q k_def)
  show "exp10 (decade r) \<le> r" "r < exp10 (decade r + 1)" using up lo by (auto simp: dec)
qed

lemma decade_unique:
  assumes "0 < r" "exp10 x \<le> r" "r < exp10 (x + 1)"
  shows "decade r = x"
proof -
  note b = decade_bounds [OF assms(1)]
  have "exp10 x < exp10 (decade r + 1)" "exp10 (decade r) < exp10 (x + 1)" using assms b by linarith+
  then have "x < decade r + 1" "decade r < x + 1" by (blast intro: exp10_less)+
  then show ?thesis by linarith
qed


section \<open>Length of the written numbers\<close>

lemma round_even_mono_int: "r \<le> of_int k \<Longrightarrow> round_even r \<le> k" "of_int k \<le> r \<Longrightarrow> k \<le> round_even r"
proof -
  assume r: "r \<le> of_int k"
  show "round_even r \<le> k"
  proof (cases "\<lfloor>r\<rfloor> = k")
    case True
    with r have "r = of_int k" using of_int_floor_le [of r] by linarith
    then show ?thesis by (simp add: round_even_def)
  next
    case False
    with r have "\<lfloor>r\<rfloor> + 1 \<le> k" by (metis floor_mono floor_of_int zle_add1_eq_le le_less zless_imp_add1_zle)
    then show ?thesis by (simp add: round_even_def Let_def)
  qed
next
  assume "of_int k \<le> r"
  then have "k \<le> \<lfloor>r\<rfloor>" by (simp add: le_floor_iff)
  then show "k \<le> round_even r" by (simp add: round_even_def Let_def)
qed

lemma round_even_of_int [simp]: "round_even (of_int k) = k"
  by (simp add: round_even_def)

lemma sig_digits_bounds:
  assumes "0 < a" "0 < P" "sig_digits P a = (m, x)"
  shows "10 ^ (P - 1) \<le> m" "m < 10 ^ P" "decade a \<le> x" "x \<le> decade a + 1"
proof -
  let ?s = "a / exp10 (decade a - int P + 1)"
  note b = decade_bounds [OF assms(1)]
  have e: "exp10 (decade a) = exp10 (decade a - int P + 1) * 10 ^ (P - 1)"
    using exp10_add [of "decade a - int P + 1" "int (P - 1)"] assms(2)
    by (simp only: exp10_nat [symmetric]) (simp add: of_nat_diff)
  have e1: "exp10 (decade a + 1) = exp10 (decade a - int P + 1) * 10 ^ P"
    using exp10_add [of "decade a - int P + 1" "int P"] by (simp only: exp10_nat [symmetric]) (simp add: algebra_simps)
  have "of_int (10 ^ (P - 1)) \<le> ?s" using b(1) by (simp add: e le_divide_eq mult.commute)
  then have lo: "10 ^ (P - 1) \<le> round_even ?s" by (rule round_even_mono_int(2))
  have "?s \<le> of_int (10 ^ P)" using b(2) by (simp add: e1 divide_le_eq mult.commute)
  then have up: "round_even ?s \<le> 10 ^ P" by (rule round_even_mono_int(1))
  define m0 where "m0 = nat (round_even ?s)"
  have m0: "int m0 = round_even ?s" using lo by (simp add: m0_def) (metis order_trans zero_le_numeral zero_le_power)
  have m0b: "10 ^ (P - 1) \<le> m0" "m0 \<le> 10 ^ P"
    using lo up unfolding m0 [symmetric] by (metis of_nat_le_iff of_nat_numeral of_nat_power)+
  have lt: "(10 :: nat) ^ (P - 1) < 10 ^ P" using assms(2) by (simp add: power_strict_increasing)
  have "(m, x) = (if m0 = 10 ^ P then (10 ^ (P - 1), decade a + 1) else (m0, decade a))"
    using assms(3) by (simp only: sig_digits_def Let_def m0_def)
  with m0b lt show "10 ^ (P - 1) \<le> m" "m < 10 ^ P" "decade a \<le> x" "x \<le> decade a + 1" by (auto split: if_splits)
qed

lemma strip_zeros_length: "length (strip_zeros s) \<le> length s"
  by (simp add: strip_zeros_def length_dropWhile_le [THEN order_trans])

lemma point_length: "length (point s) \<le> Suc (length s)"
  by (simp add: point_def)

text \<open>The doubles other than zero and the infinities lie within these bounds, so that an exponent has at most three digits.\<close>

definition in_range :: "double \<Rightarrow> bool" where
  "in_range d = (case d of DInf _ \<Rightarrow> True | DFin r \<Rightarrow> r = 0 \<or> (exp10 (- 998) \<le> \<bar>r\<bar> \<and> \<bar>r\<bar> < exp10 998))"

lemma fmt_g_length:
  assumes "in_range (DFin r)" "0 < P"
  shows "length (fmt_g P r) \<le> P + 7"
proof (cases "r = 0")
  case True
  then show ?thesis by (simp add: fmt_g_def)
next
  case False
  define a where "a = \<bar>r\<bar>"
  have a: "0 < a" "exp10 (- 998) \<le> a" "a < exp10 998" using assms(1) False by (auto simp: a_def in_range_def)
  obtain m x where mx: "sig_digits P a = (m, x)" by fastforce
  note b = sig_digits_bounds [OF a(1) assms(2) mx]
  have "exp10 (- 998) < exp10 (decade a + 1)" "exp10 (decade a) < exp10 998"
    using a decade_bounds [OF a(1)] by linarith+
  then have "- 998 < decade a + 1" "decade a < 998" by (blast intro: exp10_less)+
  then have x: "nat \<bar>x\<bar> < 10 ^ 3" using b by simp
  have two: "length (two_digits (nat \<bar>x\<bar>)) \<le> 3"
    using length_nat_str [OF x] length_nat_str [of "nat \<bar>x\<bar>" 1] by (cases "nat \<bar>x\<bar> < 10") (simp_all add: two_digits_def)
  let ?ds = "nat_str m"
  have ds: "length ?ds \<le> P" using length_nat_str [OF b(2) assms(2)] .
  have "length (fmt_e ?ds x) \<le> P + 6"
    using two ds point_length [of "strip_zeros (drop 1 ?ds)"] strip_zeros_length [of "drop 1 ?ds"]
    by (cases ?ds) (auto simp: fmt_e_def)
  moreover have "length (fmt_f ?ds x) \<le> P + 6" if "\<not> x < - 4"
  proof (cases "0 \<le> x")
    case True
    then show ?thesis
      using ds point_length [of "strip_zeros (drop (nat x + 1) ?ds)"] strip_zeros_length [of "drop (nat x + 1) ?ds"]
      by (simp add: fmt_f_def)
  next
    case False
    let ?f = "replicate (nat (- x) - 1) (CHR ''0'') @ strip_zeros ?ds"
    have "length ?f \<le> P + 3" using that ds strip_zeros_length [of ?ds] by simp
    with False point_length [of ?f] show ?thesis by (simp add: fmt_f_def)
  qed
  ultimately show ?thesis using False mx by (auto simp: fmt_g_def a_def Let_def)
qed


section \<open>Integers\<close>

lemma nat_str_times: "0 < n \<Longrightarrow> nat_str (n * 10 ^ k) = nat_str n @ replicate k (CHR ''0'')"
proof (induction k)
  case (Suc k)
  have "nat_str (n * 10 ^ Suc k) = nat_str (n * 10 ^ k) @ ''0''"
  proof -
    have "\<not> n * 10 ^ Suc k < 10" using Suc.prems by simp
    moreover have "n * 10 ^ Suc k div 10 = n * 10 ^ k" "n * 10 ^ Suc k mod 10 = 0" by simp_all
    ultimately show ?thesis by (subst nat_str.simps) (simp add: digit_char_literals)
  qed
  with Suc show ?case by (simp add: replicate_append_same)
qed simp

lemma decade_of_nat: "0 < n \<Longrightarrow> decade (of_nat n) = int (length (nat_str n)) - 1"
proof (rule decade_unique)
  assume n: "0 < n"
  obtain l where l: "length (nat_str n) = Suc l" by (metis length_0_conv nat_str_not_Nil not0_implies_Suc)
  have "10 ^ l \<le> n" "n < 10 ^ Suc l" using nat_str_bounds [OF n] l by simp_all
  then have "(10 :: rat) ^ l \<le> of_nat n" "(of_nat n :: rat) < 10 ^ Suc l"
    by (metis of_nat_le_iff of_nat_numeral of_nat_power, metis of_nat_less_iff of_nat_numeral of_nat_power)
  with l show "exp10 (int (length (nat_str n)) - 1) \<le> of_nat n" "of_nat n < exp10 (int (length (nat_str n)) - 1 + 1)"
    using exp10_nat [of l] exp10_nat [of "Suc l"] by (simp_all add: add.commute)
qed simp

lemma sig_digits_of_nat:
  assumes "0 < n" "n < 10 ^ P"
  shows "sig_digits P (of_nat n) = (n * 10 ^ (P - length (nat_str n)), int (length (nat_str n)) - 1)"
proof -
  let ?l = "length (nat_str n)"
  have "0 < P" using assms by (cases P) auto
  then have l: "?l \<le> P" using length_nat_str [OF assms(2)] by blast
  have "exp10 (int (P - ?l)) * exp10 (int ?l - int P) = 1"
    using exp10_add [of "int (P - ?l)" "int ?l - int P"] l by (simp add: of_nat_diff) (simp add: exp10_def)
  then have e: "1 / exp10 (int ?l - int P) = 10 ^ (P - ?l)"
    by (simp add: exp10_nat eq_divide_eq divide_eq_eq)
      (metis exp10_nat exp10_pos less_irrefl mult.commute nonzero_eq_divide_eq)
  have "of_nat n / exp10 (int ?l - 1 - int P + 1) = of_int (int (n * 10 ^ (P - ?l)))"
    using e by (simp add: divide_inverse)
  then have r: "round_even (of_nat n / exp10 (decade (of_nat n) - int P + 1)) = int (n * 10 ^ (P - ?l))"
    by (simp only: decade_of_nat [OF assms(1)] round_even_of_int)
  have "n * 10 ^ (P - ?l) < 10 ^ ?l * 10 ^ (P - ?l)" using nat_str_bounds [OF assms(1)] by simp
  also have "\<dots> = 10 ^ P" using l by (simp add: power_add [symmetric])
  finally have "n * 10 ^ (P - ?l) \<noteq> 10 ^ P" by simp
  with r show ?thesis by (simp only: sig_digits_def Let_def nat_int decade_of_nat [OF assms(1)] if_False)
qed

lemma fmt_g_of_nat:
  assumes "0 < n" "n < 10 ^ P"
  shows "fmt_g P (of_nat n) = nat_str n" "fmt_g P (- of_nat n) = ''-'' @ nat_str n"
proof -
  let ?l = "length (nat_str n)"
  have "0 < P" using assms by (cases P) auto
  then have l: "?l \<le> P" using length_nat_str [OF assms(2)] by blast
  obtain k where k: "?l = Suc k" by (metis length_0_conv nat_str_not_Nil not0_implies_Suc)
  have "fmt_f (nat_str (n * 10 ^ (P - ?l))) (int ?l - 1) = nat_str n"
    using k by (simp add: fmt_f_def nat_str_times [OF assms(1)] strip_zeros_def point_def)
  moreover have "(of_nat n :: rat) \<noteq> 0" using assms(1) by simp
  moreover have "\<not> (of_nat n :: rat) < 0" "- (of_nat n :: rat) < 0" using assms(1) by simp_all
  moreover have "\<not> (int ?l - 1 < - 4 \<or> int P \<le> int ?l - 1)" using l k by simp
  ultimately show "fmt_g P (of_nat n) = nat_str n" "fmt_g P (- of_nat n) = ''-'' @ nat_str n"
    by (simp_all add: fmt_g_def sig_digits_of_nat [OF assms])
qed


section \<open>Doubles\<close>

lemma nbits_bounds: "0 < n \<Longrightarrow> 2 ^ (nbits n - 1) \<le> n \<and> n < 2 ^ nbits n \<and> 0 < nbits n"
proof (induction n rule: nbits.induct)
  case (1 n)
  show ?case
  proof (cases "n = 1")
    case True
    then show ?thesis by (simp add: nbits.simps)
  next
    case False
    with 1(2) have "0 < n div 2" by simp
    with 1 have IH: "2 ^ (nbits (n div 2) - 1) \<le> n div 2" "n div 2 < 2 ^ nbits (n div 2)" "0 < nbits (n div 2)" by auto
    have n: "nbits n = Suc (nbits (n div 2))" using 1(2) by (subst nbits.simps) simp
    obtain b where b: "nbits (n div 2) = Suc b" using IH(3) by (cases "nbits (n div 2)") auto
    have "n < 2 * 2 ^ nbits (n div 2)" using IH(2) by linarith
    moreover have "2 * 2 ^ b \<le> n" using IH(1) b by simp
    ultimately show ?thesis by (simp add: n b)
  qed
qed

lemma exp2_nat: "exp2 (int n) = 2 ^ n"
  by (simp add: exp2_def)

lemma exp2_pos [simp]: "0 < exp2 e"
  by (simp add: exp2_def)

lemma binade_of_nat: "0 < n \<Longrightarrow> binade (of_nat n) = int (nbits n) - 1"
proof -
  assume n: "0 < n"
  obtain b where b: "nbits n = Suc b" using nbits_bounds [OF n] by (cases "nbits n") auto
  have "2 ^ b \<le> n" using nbits_bounds [OF n] b by simp
  then have "(2 :: rat) ^ b \<le> of_nat n" by (metis of_nat_le_iff of_nat_numeral of_nat_power)
  moreover have "quotient_of (of_nat n) = (int n, 1)" using quotient_of_int [of "int n"] by (metis of_rat_of_nat_eq of_int_of_nat_eq rat_number_collapse(1) of_int_def Rat.of_int_def)
  moreover have "nbits 1 = 1" by (simp add: nbits.simps)
  ultimately show ?thesis using b by (simp add: binade_def exp2_nat)
qed

lemma exp2_mono: "a \<le> b \<Longrightarrow> exp2 a \<le> exp2 b"
proof -
  have "exp2 e = (2 :: rat) powi e" for e by (simp add: exp2_def power_int_def field_simps power_inverse)
  then show "a \<le> b \<Longrightarrow> exp2 a \<le> exp2 b" by (simp add: power_int_increasing)
qed

lemma exp2_exp10: "exp2 (4 * int m) \<le> exp10 (2 * int m)" "exp10 (- int m) \<le> exp2 (- (3 * int m))"
proof -
  have "(2 :: rat) ^ (4 * m) = (2 ^ 4) ^ m" by (simp only: power_mult)
  also have "\<dots> \<le> (10 ^ 2) ^ m" by (rule power_mono) simp_all
  also have "\<dots> = 10 ^ (2 * m)" by (simp only: power_mult)
  finally show "exp2 (4 * int m) \<le> exp10 (2 * int m)" using exp2_nat [of "4 * m"] exp10_nat [of "2 * m"] by simp
  have "(2 :: rat) ^ (3 * m) = (2 ^ 3) ^ m" by (simp only: power_mult)
  also have "\<dots> \<le> 10 ^ m" by (rule power_mono) simp_all
  finally have "(2 :: rat) ^ (3 * m) \<le> 10 ^ m" .
  then have "1 / (10 :: rat) ^ m \<le> 1 / 2 ^ (3 * m)" by (rule divide_left_mono) simp_all
  moreover have "nat (3 * int m) = 3 * m" by simp
  ultimately show "exp10 (- int m) \<le> exp2 (- (3 * int m))"
    by (cases "m = 0") (simp_all add: exp10_def exp2_def)
qed

lemma big_powers: "exp2 1024 \<le> exp10 998" "exp10 (- 998) \<le> exp2 (- 1074)"
  using exp2_exp10(1) [of 256] exp2_exp10(2) [of 358] exp10_mono [of 512 998] exp10_mono [of "- 998" "- 358"] by simp_all

lemma to_double_in_range: "in_range (to_double r)"
proof (cases "r = 0")
  case True
  then show ?thesis by (simp add: to_double_def in_range_def)
next
  case False
  define a where "a = \<bar>r\<bar>"
  define e where "e = max (binade a - 52) (- 1074)"
  define q where "q = round_even (a / exp2 e)"
  define v where "v = of_int q * exp2 e"
  have "of_int 0 \<le> a / exp2 e" by (simp add: a_def zero_le_divide_iff less_imp_le)
  then have "0 \<le> q" unfolding q_def by (rule round_even_mono_int(2))
  have low: "exp10 (- 998) \<le> v" if "q \<noteq> 0"
  proof -
    have "exp10 (- 998) \<le> exp2 (- 1074)" by (rule big_powers)
    also have "\<dots> \<le> exp2 e" by (rule exp2_mono) (simp add: e_def)
    also have "\<dots> \<le> v" using that \<open>0 \<le> q\<close> by (simp add: v_def)
    finally show ?thesis .
  qed
  have "0 \<le> v" using \<open>0 \<le> q\<close> by (simp add: v_def less_imp_le)
  have t: "to_double r = (if exp2 1024 \<le> v then DInf (r < 0) else DFin (if r < 0 then - v else v))"
    using False by (simp only: to_double_def Let_def a_def e_def q_def v_def if_False)
  show ?thesis
  proof (cases "exp2 1024 \<le> v")
    case True
    then show ?thesis unfolding t by (simp only: if_True in_range_def double.case)
  next
    case small: False
    then have "v < exp10 998" using big_powers(1) by linarith
    with low \<open>0 \<le> v\<close> show ?thesis
      unfolding t if_not_P [OF small] in_range_def double.case by (cases "q = 0") (auto simp: v_def)
  qed
qed

lemma to_double_of_nat:
  assumes "n \<le> 2 ^ 53"
  shows "to_double (of_nat n) = DFin (of_nat n)" "to_double (- of_nat n) = DFin (- of_nat n)"
proof -
  have "to_double (of_nat n) = DFin (of_nat n) \<and> to_double (- of_nat n) = DFin (- of_nat n)"
  proof (cases "n = 0")
    case True
    then show ?thesis by (simp add: to_double_def)
  next
    case False
    define k where "k = int (nbits n) - 1"
    define e where "e = max (k - 52) (- 1074)"
    have b: "2 ^ (nbits n - 1) \<le> n" "0 < nbits n" using nbits_bounds [of n] False by auto
    have "nbits n \<le> 54"
    proof (rule ccontr)
      assume "\<not> nbits n \<le> 54"
      then have "(2 :: nat) ^ 54 \<le> 2 ^ (nbits n - 1)" by (intro power_increasing) auto
      with b assms show False by simp
    qed
    have "\<exists>q. of_nat n / exp2 e = of_int q"
    proof (cases "nbits n = 54")
      case True
      then have "n = 2 ^ 53" using b assms by simp
      then have "of_nat n / exp2 e = of_int (2 ^ 52)" using True by (simp add: e_def k_def exp2_def)
      then show ?thesis by blast
    next
      case False
      with \<open>nbits n \<le> 54\<close> have "e \<le> 0" by (simp add: e_def k_def)
      then have "of_nat n / exp2 e = of_int (int n * 2 ^ nat (- e))" by (cases "e = 0") (simp_all add: exp2_def)
      then show ?thesis by blast
    qed
    then obtain q where q: "of_nat n / exp2 e = of_int q" by blast
    have "exp2 e \<noteq> 0" using exp2_pos [of e] by linarith
    moreover have "of_int (round_even (of_nat n / exp2 e)) = of_nat n / exp2 e" by (simp only: q round_even_of_int)
    ultimately have v: "of_int (round_even (of_nat n / exp2 e)) * exp2 e = of_nat n" by simp
    have "(of_nat n :: rat) \<le> of_nat (2 ^ 53)" using assms by (simp only: of_nat_le_iff)
    also have "\<dots> < exp2 (int 54)" unfolding exp2_nat by simp
    also have "\<dots> \<le> exp2 1024" by (rule exp2_mono) simp
    finally have big: "\<not> exp2 1024 \<le> (of_nat n :: rat)" by (simp only: not_le)
    have n0: "(of_nat n :: rat) \<noteq> 0" "\<not> (of_nat n :: rat) < 0" "- (of_nat n :: rat) < 0" "- (of_nat n :: rat) \<noteq> 0"
      using False by simp_all
    have "\<bar>of_nat n\<bar> = (of_nat n :: rat)" "\<bar>- of_nat n\<bar> = (of_nat n :: rat)" by simp_all
    then show ?thesis
      unfolding to_double_def Let_def
      using n0 big v binade_of_nat [of n] False by (simp only: e_def k_def if_False if_True)
  qed
  then show "to_double (of_nat n) = DFin (of_nat n)" "to_double (- of_nat n) = DFin (- of_nat n)" by blast+
qed

lemma strtod_fmt_g_int:
  assumes "n \<le> 2 ^ 53"
  shows "fst (strtod (fmt_g 17 (of_nat n))) = DFin (of_nat n)" "fst (strtod (fmt_g 17 (- of_nat n))) = DFin (- of_nat n)"
proof -
  have pos: "num_text False (nat_str n) [] None (nat_str n)" "num_text True (nat_str n) [] None (''-'' @ nat_str n)"
    by (simp_all add: num_text_def point_def)
  have e: "exp10 0 = 1" by (simp add: exp10_def)
  have small: "n < 10 ^ 17" using assms by (rule le_less_trans) simp
  have zero: "fmt_g 17 0 = nat_str 0" by (simp add: fmt_g_def nat_str.simps digit_char_literals)
  show "fst (strtod (fmt_g 17 (of_nat n))) = DFin (of_nat n)"
    using strtod_num_text [OF pos(1)] fmt_g_of_nat(1) [OF _ small] zero to_double_of_nat [OF assms]
    by (cases "n = 0") (simp_all add: digits_val_nat_str e)
  show "fst (strtod (fmt_g 17 (- of_nat n))) = DFin (- of_nat n)"
    using strtod_num_text [OF pos(1)] strtod_num_text [OF pos(2)] fmt_g_of_nat(2) [OF _ small] zero to_double_of_nat [OF assms]
    by (cases "n = 0") (simp_all add: digits_val_nat_str e)
qed

end
