(* ===== verification/Cjson_Parse.thy ===== *)
theory Cjson_Parse
  imports Cjson_Number
begin

unbundle bit_operations_syntax

text \<open>
  The parser of \<open>cJSON.c\<close>, from \<open>cJSON_Parse\<close> down to the hexadecimal digits of an escape. The text and
  its terminating NUL are the list \<open>content\<close>; positions are indices into it, and every access the C code
  makes through a pointer is checked against its length, as is every byte written to the buffer
  of an unescaped string: \<open>Inl BufferOverflow\<close> is an access outside of an array. Offsets and lengths of memory
  objects cannot wrap, so they are natural numbers. Memory allocation succeeds. \<open>parse_value\<close>
  takes the recursion depth as fuel, one more than the nesting limit, and the loops over elements and members
  take the length of the text; that this is enough is part of the totality theorem.

  A function that the C code gives an item to fill returns the filled item; the item of a failed
  parse is deleted by the caller.
\<close>

section \<open>The buffer\<close>

definition CJSON_NESTING_LIMIT :: nat where "CJSON_NESTING_LIMIT = 1000"

record parse_buffer =
  content :: string
  offset :: nat
  depth :: nat

definition rd :: "string \<Rightarrow> nat \<Rightarrow> char cres" where
  "rd s i = (if i < length s then Inr (s ! i) else Inl BufferOverflow)"

definition can_access_at_index :: "parse_buffer \<Rightarrow> nat \<Rightarrow> bool" where
  "can_access_at_index b i \<longleftrightarrow> offset b + i < length (content b)"

definition can_read :: "parse_buffer \<Rightarrow> nat \<Rightarrow> bool" where
  "can_read b n \<longleftrightarrow> offset b + n \<le> length (content b)"

text \<open>The test \<open>can_access_at_index(b, 0) && buffer_at_offset(b)[0] == c\<close>.\<close>

definition at_char :: "parse_buffer \<Rightarrow> char \<Rightarrow> bool" where
  "at_char b c \<longleftrightarrow> can_access_at_index b 0 \<and> content b ! offset b = c"

definition at_literal :: "parse_buffer \<Rightarrow> string \<Rightarrow> bool" where
  "at_literal b s \<longleftrightarrow> can_read b (length s) \<and> take (length s) (drop (offset b) (content b)) = s"

definition ahead :: "nat \<Rightarrow> parse_buffer \<Rightarrow> parse_buffer" where
  "ahead n b = b\<lparr>offset := offset b + n\<rparr>"

definition step_back :: "parse_buffer \<Rightarrow> parse_buffer" where
  "step_back b = b\<lparr>offset := offset b - 1\<rparr>"

definition json_space :: "char \<Rightarrow> bool" where
  "json_space c \<longleftrightarrow> (of_char c :: nat) \<le> 32"

definition buffer_skip_whitespace :: "parse_buffer \<Rightarrow> parse_buffer" where
  "buffer_skip_whitespace b =
     (let b = ahead (length (takeWhile json_space (drop (offset b) (content b)))) b
      in if offset b = length (content b) then step_back b else b)"

definition skip_utf8_bom :: "parse_buffer \<Rightarrow> parse_buffer option" where
  "skip_utf8_bom b =
     (if offset b \<noteq> 0 then None
      else Some (if can_access_at_index b 4 \<and> take 3 (content b) = [CHR 0xEF, CHR 0xBB, CHR 0xBF] then ahead 3 b else b))"

section \<open>Numbers\<close>

definition number_c_string :: "parse_buffer \<Rightarrow> string" where
  "number_c_string b = takeWhile number_char (take 63 (drop (offset b) (content b)))"

fun set_number :: "double \<Rightarrow> cjson \<Rightarrow> cjson" where
  "set_number d (CJson t vs vi vd s cs) = CJson cJSON_Number vs (valueint_of d) d s cs"

definition parse_number :: "cjson \<Rightarrow> parse_buffer \<Rightarrow> bool \<times> cjson \<times> parse_buffer" where
  "parse_number item b =
     (let (number, used) = strtod (number_c_string b)
      in if used = 0 then (False, item, b)
         else (True, set_number number item, ahead used b))"

section \<open>Strings\<close>

definition hex_digit :: "char \<Rightarrow> nat option" where
  "hex_digit c =
     (let n = of_char c :: nat in
      if 48 \<le> n \<and> n \<le> 57 then Some (n - 48)
      else if 65 \<le> n \<and> n \<le> 70 then Some (10 + n - 65)
      else if 97 \<le> n \<and> n \<le> 102 then Some (10 + n - 97)
      else None)"

text \<open>The loop of \<open>parse_hex4\<close> with \<open>i\<close> digits to go; an invalid digit ends it with 0.\<close>

fun hex4_loop :: "string \<Rightarrow> nat \<Rightarrow> nat \<Rightarrow> nat \<Rightarrow> nat cres" where
  "hex4_loop input p 0 h = Inr h"
| "hex4_loop input p (Suc i) h =
     cbind (rd input p) (\<lambda>c.
     case hex_digit c of
       None \<Rightarrow> Inr 0
     | Some d \<Rightarrow> hex4_loop input (Suc p) i (if i > 0 then (h + d) * 16 else h + d))"

definition parse_hex4 :: "string \<Rightarrow> nat \<Rightarrow> nat cres" where
  "parse_hex4 input p = hex4_loop input p 4 0"

definition byte :: "nat \<Rightarrow> char" where
  "byte n = char_of n"

text \<open>The continuation bytes are written from the last to the first, six bits at a time.\<close>

fun utf8_tail :: "nat \<Rightarrow> nat \<Rightarrow> string \<Rightarrow> nat \<times> string" where
  "utf8_tail 0 cp out = (cp, out)"
| "utf8_tail (Suc i) cp out = utf8_tail i (cp div 64) (byte ((cp OR 0x80) AND 0xBF) # out)"

definition utf8_encode :: "nat \<Rightarrow> string option" where
  "utf8_encode codepoint =
     (let enc = (\<lambda>len mark. let (cp, tl) = utf8_tail (len - 1) codepoint []
                            in byte (if len > 1 then (cp OR mark) AND 0xFF else cp AND 0x7F) # tl)
      in if codepoint < 0x80 then Some (enc 1 0)
         else if codepoint < 0x800 then Some (enc 2 0xC0)
         else if codepoint < 0x10000 then Some (enc 3 0xE0)
         else if codepoint \<le> 0x10FFFF then Some (enc 4 0xF0)
         else None)"

text \<open>
  The result is the bytes written and whether the sequence is a surrogate pair (12 characters) or a
  single escape (6 characters); \<open>None\<close> is the result 0, a failure.
\<close>

definition utf16_literal_to_utf8 :: "string \<Rightarrow> nat \<Rightarrow> nat \<Rightarrow> (string \<times> bool) option cres" where
  "utf16_literal_to_utf8 input p input_end =
     (if input_end - p < 6 then Inr None
      else cbind (parse_hex4 input (p + 2)) (\<lambda>first_code.
        if 0xDC00 \<le> first_code \<and> first_code \<le> 0xDFFF then Inr None
        else if 0xD800 \<le> first_code \<and> first_code \<le> 0xDBFF then
          (if input_end - (p + 6) < 6 then Inr None
           else cbind (rd input (p + 6)) (\<lambda>c0. cbind (rd input (p + 7)) (\<lambda>c1.
             if c0 \<noteq> CHR 0x5C \<or> c1 \<noteq> CHR ''u'' then Inr None
             else cbind (parse_hex4 input (p + 8)) (\<lambda>second_code.
               if second_code < 0xDC00 \<or> 0xDFFF < second_code then Inr None
               else Inr (map_option (\<lambda>u. (u, True))
                 (utf8_encode (0x10000 + (((first_code AND 0x3FF) * 1024) OR (second_code AND 0x3FF)))))))))
        else Inr (map_option (\<lambda>u. (u, False)) (utf8_encode first_code))))"

text \<open>The search for the closing quote, from the text after the opening one: its distance and the number of escapes.\<close>

fun string_end :: "string \<Rightarrow> nat \<Rightarrow> nat \<Rightarrow> (nat \<times> nat) option" where
  "string_end [] n skipped = None"
| "string_end (c # cs) n skipped =
     (if c = CHR 0x22 then Some (n, skipped)
      else if c = CHR 0x5C then
        (case cs of [] \<Rightarrow> None | _ # cs' \<Rightarrow> string_end cs' (n + 2) (skipped + 1))
      else string_end cs (n + 1) skipped)"

text \<open>Writing to the output, a buffer of \<open>cap\<close> bytes of which \<open>out\<close> are written.\<close>

definition put :: "nat \<Rightarrow> string \<Rightarrow> string \<Rightarrow> string cres" where
  "put cap out s = (if length out + length s \<le> cap then Inr (out @ s) else Inl BufferOverflow)"

definition escape_char :: "char \<Rightarrow> char option" where
  "escape_char c =
     (if c = CHR ''b'' then Some (CHR 0x08) else if c = CHR ''f'' then Some (CHR 0x0C)
      else if c = CHR ''n'' then Some (CHR 0x0A) else if c = CHR ''r'' then Some (CHR 0x0D)
      else if c = CHR ''t'' then Some (CHR 0x09)
      else if c = CHR 0x22 \<or> c = CHR 0x5C \<or> c = CHR ''/'' then Some c else None)"

function unescape :: "string \<Rightarrow> nat \<Rightarrow> nat \<Rightarrow> nat \<Rightarrow> string \<Rightarrow> (string option \<times> nat) cres" where
  "unescape input cap input_end p out =
     (if input_end \<le> p then cbind (put cap out [CHR 0x00]) (\<lambda>_. Inr (Some out, p))
      else cbind (rd input p) (\<lambda>c.
        if c \<noteq> CHR 0x5C then cbind (put cap out [c]) (unescape input cap input_end (p + 1))
        else cbind (rd input (p + 1)) (\<lambda>x.
          case escape_char x of
            Some y \<Rightarrow> cbind (put cap out [y]) (unescape input cap input_end (p + 2))
          | None \<Rightarrow>
              if x = CHR ''u'' then
                cbind (utf16_literal_to_utf8 input p input_end) (\<lambda>r.
                case r of
                  None \<Rightarrow> Inr (None, p)
                | Some (u, pair) \<Rightarrow>
                    cbind (put cap out u) (unescape input cap input_end (p + (if pair then 12 else 6))))
              else Inr (None, p))))"
  by pat_completeness auto
termination
  by (relation "measure (\<lambda>(input, cap, input_end, p, out). input_end - p)") auto

declare unescape.simps [simp del]

fun set_text :: "string \<Rightarrow> cjson \<Rightarrow> cjson" where
  "set_text v (CJson t vs vi vd s cs) = CJson cJSON_String (Some v) vi vd s cs"

text \<open>The text of the item is the C string in the output buffer: what stands before its first NUL.\<close>

definition parse_string :: "cjson \<Rightarrow> parse_buffer \<Rightarrow> (bool \<times> cjson \<times> parse_buffer) cres" where
  "parse_string item b =
     cbind (rd (content b) (offset b)) (\<lambda>c.
     let p = offset b + 1 in
     if c \<noteq> CHR 0x22 then Inr (False, item, b\<lparr>offset := p\<rparr>)
     else case string_end (drop p (content b)) 0 0 of
            None \<Rightarrow> Inr (False, item, b\<lparr>offset := p\<rparr>)
          | Some (n, skipped) \<Rightarrow>
              let input_end = p + n; allocation_length = (input_end - offset b) - skipped in
              cbind (unescape (content b) (allocation_length + 1) input_end p []) (\<lambda>(r, q).
              case r of
                None \<Rightarrow> Inr (False, item, b\<lparr>offset := q\<rparr>)
              | Some out \<Rightarrow> Inr (True, set_text (takeWhile (\<lambda>c. c \<noteq> CHR 0x00) out) item, b\<lparr>offset := input_end + 1\<rparr>)))"

section \<open>Values\<close>

fun set_type :: "32 word \<Rightarrow> cjson \<Rightarrow> cjson" where
  "set_type t' (CJson t vs vi vd s cs) = CJson t' vs vi vd s cs"

fun set_true :: "cjson \<Rightarrow> cjson" where
  "set_true (CJson t vs vi vd s cs) = CJson cJSON_True vs 1 vd s cs"

fun set_children :: "32 word \<Rightarrow> cjson list \<Rightarrow> cjson \<Rightarrow> cjson" where
  "set_children t' cs' (CJson t vs vi vd s cs) = CJson t' vs vi vd s cs'"

text \<open>The name of a member was parsed as its text; then the two are swapped.\<close>

fun swap_name :: "cjson \<Rightarrow> cjson" where
  "swap_name (CJson t vs vi vd s cs) = CJson t None vi vd vs cs"

text \<open>
  The loops over the elements of an array and the members of an object, given the function that parses a value;
  \<open>k\<close> bounds the number of rounds.
\<close>

type_synonym value_parser = "cjson \<Rightarrow> parse_buffer \<Rightarrow> (bool \<times> cjson \<times> parse_buffer) cres"

fun array_elements :: "value_parser \<Rightarrow> nat \<Rightarrow> cjson list \<Rightarrow> parse_buffer \<Rightarrow> (bool \<times> cjson list \<times> parse_buffer) cres" where
  "array_elements pv 0 cs b = Inl OutOfFuel"
| "array_elements pv (Suc k) cs b =
     cbind (pv cJSON_New_Item (buffer_skip_whitespace (ahead 1 b))) (\<lambda>(ok, it, b).
     if \<not> ok then Inr (False, cs, b)
     else let b = buffer_skip_whitespace b; cs = cs @ [it] in
          if at_char b (CHR '','') then array_elements pv k cs b else Inr (True, cs, b))"

definition parse_array :: "value_parser \<Rightarrow> value_parser" where
  "parse_array pv item b =
     (if depth b \<ge> CJSON_NESTING_LIMIT then Inr (False, item, b)
      else let b = b\<lparr>depth := depth b + 1\<rparr>;
               success = (\<lambda>cs b. Inr (True, set_children cJSON_Array cs item, ahead 1 (b\<lparr>depth := depth b - 1\<rparr>))) in
           cbind (rd (content b) (offset b)) (\<lambda>c.
           if c \<noteq> CHR ''['' then Inr (False, item, b)
           else let b = buffer_skip_whitespace (ahead 1 b) in
                if at_char b (CHR '']'') then success [] b
                else if \<not> can_access_at_index b 0 then Inr (False, item, step_back b)
                else cbind (array_elements pv (length (content b)) [] (step_back b)) (\<lambda>(ok, cs, b).
                     if \<not> ok \<or> \<not> at_char b (CHR '']'') then Inr (False, item, b) else success cs b)))"

fun object_members :: "value_parser \<Rightarrow> nat \<Rightarrow> cjson list \<Rightarrow> parse_buffer \<Rightarrow> (bool \<times> cjson list \<times> parse_buffer) cres" where
  "object_members pv 0 cs b = Inl OutOfFuel"
| "object_members pv (Suc k) cs b =
     cbind (parse_string cJSON_New_Item (buffer_skip_whitespace (ahead 1 b))) (\<lambda>(ok, it, b).
     if \<not> ok then Inr (False, cs, b)
     else let b = buffer_skip_whitespace b; it = swap_name it in
          if \<not> at_char b (CHR '':'') then Inr (False, cs, b)
          else cbind (pv it (buffer_skip_whitespace (ahead 1 b))) (\<lambda>(ok, it, b).
               if \<not> ok then Inr (False, cs, b)
               else let b = buffer_skip_whitespace b; cs = cs @ [it] in
                    if at_char b (CHR '','') then object_members pv k cs b else Inr (True, cs, b)))"

definition parse_object :: "value_parser \<Rightarrow> value_parser" where
  "parse_object pv item b =
     (if depth b \<ge> CJSON_NESTING_LIMIT then Inr (False, item, b)
      else let b = b\<lparr>depth := depth b + 1\<rparr>;
               success = (\<lambda>cs b. Inr (True, set_children cJSON_Object cs item, ahead 1 (b\<lparr>depth := depth b - 1\<rparr>))) in
           if \<not> at_char b (CHR ''{'') then Inr (False, item, b)
           else let b = buffer_skip_whitespace (ahead 1 b) in
                if at_char b (CHR ''}'') then success [] b
                else if \<not> can_access_at_index b 0 then Inr (False, item, step_back b)
                else cbind (object_members pv (length (content b)) [] (step_back b)) (\<lambda>(ok, cs, b).
                     if \<not> ok \<or> \<not> at_char b (CHR ''}'') then Inr (False, item, b) else success cs b))"

text \<open>The recursion depth is bounded by the fuel.\<close>

primrec parse_value :: "nat \<Rightarrow> value_parser" where
  "parse_value 0 = (\<lambda>item b. Inl OutOfFuel)"
| "parse_value (Suc f) = (\<lambda>item b.
     if at_literal b ''null'' then Inr (True, set_type cJSON_NULL item, ahead 4 b)
     else if at_literal b ''false'' then Inr (True, set_type cJSON_False item, ahead 5 b)
     else if at_literal b ''true'' then Inr (True, set_true item, ahead 4 b)
     else if at_char b (CHR 0x22) then parse_string item b
     else if can_access_at_index b 0 \<and> (content b ! offset b = CHR ''-'' \<or> is_digit (content b ! offset b))
     then Inr (parse_number item b)
     else if at_char b (CHR ''['') then parse_array (parse_value f) item b
     else if at_char b (CHR ''{'') then parse_object (parse_value f) item b
     else Inr (False, item, b))"

section \<open>Entry points\<close>

text \<open>
  The result of a parse: the tree, the end of the parsed text (or the position of the error) that the
  caller may ask for, and the position \<open>cJSON_GetErrorPtr\<close> reports, \<open>None\<close> for NULL.
\<close>

record parse_result =
  pr_item :: "cjson option"
  pr_end :: "nat option"
  pr_error_at :: "nat option"

definition parse_failed :: "parse_buffer \<Rightarrow> parse_result" where
  "parse_failed b =
     (let position = (if offset b < length (content b) then offset b
                      else if length (content b) > 0 then length (content b) - 1 else 0)
      in \<lparr>pr_item = None, pr_end = Some position, pr_error_at = Some position\<rparr>)"

definition cJSON_ParseWithOpts :: "cstr \<Rightarrow> bool \<Rightarrow> parse_result cres" where
  "cJSON_ParseWithOpts value require_null_terminated =
     (case value of
        None \<Rightarrow> Inr \<lparr>pr_item = None, pr_end = None, pr_error_at = None\<rparr>
      | Some text \<Rightarrow>
          let b = \<lparr>content = text @ [CHR 0x00], offset = 0, depth = 0\<rparr> in
          (case skip_utf8_bom b of
             None \<Rightarrow> Inr (parse_failed b)
           | Some b \<Rightarrow>
               let b = buffer_skip_whitespace b in
               cbind (parse_value (CJSON_NESTING_LIMIT + 1) cJSON_New_Item b) (\<lambda>(ok, item, b).
               if \<not> ok then Inr (parse_failed b)
               else let b = (if require_null_terminated then buffer_skip_whitespace b else b) in
                    if require_null_terminated \<and> (offset b \<ge> length (content b) \<or> content b ! offset b \<noteq> CHR 0x00)
                    then Inr (parse_failed b)
                    else Inr \<lparr>pr_item = Some item, pr_end = Some (offset b), pr_error_at = None\<rparr>)))"

definition cJSON_Parse :: "cstr \<Rightarrow> cjson option cres" where
  "cJSON_Parse value = cbind (cJSON_ParseWithOpts value False) (\<lambda>r. Inr (pr_item r))"

end
