(* ===== verification/Cjson_Safe.thy ===== *)
theory Cjson_Safe
  imports Cjson_Parse
begin

text \<open>
  The parser of \<open>cJSON.c\<close> on every input: it never reads or writes outside of its buffers, it ends, and a tree it
  returns is well typed. The contract of the functions that parse a value is the locale \<open>value_contract\<close>; the
  loops over elements and members are clients of it, and the interpretation at the end shows that \<open>parse_value\<close>
  provides it up to the nesting limit.
\<close>

section \<open>Unescaping stays within its buffer\<close>

text \<open>
  The number of bytes a text needs at least when it is read from its beginning: an escape counts as one. Reading from
  a later position never needs more.
\<close>

fun weight :: "string \<Rightarrow> nat" where
  "weight [] = 0"
| "weight (c # cs) = Suc (weight (if c = CHR 0x5C then tl cs else cs))"

lemma weight_tl: "weight (tl xs) \<le> weight xs"
proof (induction xs rule: weight.induct)
  case (2 c cs)
  then show ?case by (cases cs) auto
qed simp

lemma weight_drop: "weight (drop n xs) \<le> weight xs"
proof (induction n)
  case (Suc n)
  have "weight (drop (Suc n) xs) = weight (tl (drop n xs))" by (simp add: drop_Suc tl_drop)
  also have "\<dots> \<le> weight (drop n xs)" by (rule weight_tl)
  finally show ?case using Suc by linarith
qed simp

lemma weight_drop2: "xs \<noteq> [] \<Longrightarrow> weight (drop 2 xs) < weight xs"
  by (cases xs) (auto simp: less_Suc_eq_le numeral_2_eq_2 drop_Suc intro: weight_tl)

lemma weight_drop_even: "2 * k \<le> length xs \<Longrightarrow> weight (drop (2 * k) xs) + k \<le> weight xs"
proof (induction k)
  case (Suc k)
  then have "drop (2 * k) xs \<noteq> []" by simp
  from weight_drop2 [OF this] Suc show ?case by simp
qed simp

lemma string_end_spec:
  assumes "string_end xs n s = Some (n', s')"
  shows "n \<le> n' \<and> s \<le> s' \<and> n' - n < length xs \<and> xs ! (n' - n) = CHR 0x22
    \<and> weight (take (n' - n) xs) + (s' - s) = n' - n"
  using assms
proof (induction xs n s rule: string_end.induct)
  case (2 c cs n s)
  show ?case
  proof (cases "c = CHR 0x22")
    case True
    with 2(3) show ?thesis by simp
  next
    case q: False
    show ?thesis
    proof (cases "c = CHR 0x5C")
      case True
      with 2(3) q obtain c' cs' where cs: "cs = c' # cs'" by (cases cs) auto
      with 2(1) [OF q True cs] 2(3) q True
      have IH: "n + 2 \<le> n' \<and> s + 1 \<le> s' \<and> n' - (n + 2) < length cs' \<and> cs' ! (n' - (n + 2)) = CHR 0x22
          \<and> weight (take (n' - (n + 2)) cs') + (s' - (s + 1)) = n' - (n + 2)" by simp
      define k where "k = n' - (n + 2)"
      have k: "n' - n = Suc (Suc k)" using IH unfolding k_def by linarith
      from IH show ?thesis unfolding k cs k_def [symmetric] using True by auto
    next
      case False
      with 2(2) [OF q False] 2(3) q
      have IH: "n + 1 \<le> n' \<and> s \<le> s' \<and> n' - (n + 1) < length cs \<and> cs ! (n' - (n + 1)) = CHR 0x22
          \<and> weight (take (n' - (n + 1)) cs) + (s' - s) = n' - (n + 1)" by simp
      define k where "k = n' - (n + 1)"
      have k: "n' - n = Suc k" using IH unfolding k_def by linarith
      from IH show ?thesis unfolding k k_def [symmetric] using False by simp
    qed
  qed
qed simp

lemma hex_digit_less: "hex_digit c = Some d \<Longrightarrow> d < 16"
  by (auto simp: hex_digit_def Let_def split: if_splits)

lemma hex4_loop_total:
  assumes "p + i \<le> length s"
  shows "\<exists>h'. hex4_loop s p i h = Inr h' \<and> (h' = 0 \<or> h' < (h + 16) * 16 ^ (i - 1))"
  using assms
proof (induction s p i h rule: hex4_loop.induct)
  case (2 s p i h)
  then have r: "rd s p = Inr (s ! p)" by (simp add: rd_def)
  show ?case
  proof (cases "hex_digit (s ! p)")
    case None
    with r show ?thesis by simp
  next
    case (Some d)
    note d = hex_digit_less [OF Some]
    show ?thesis
    proof (cases i)
      case 0
      with r Some d show ?thesis by simp
    next
      case (Suc j)
      let ?h = "(h + d) * 16"
      from 2 r Some Suc obtain h' where h': "hex4_loop s (Suc p) i ?h = Inr h'" "h' = 0 \<or> h' < (?h + 16) * 16 ^ (i - 1)"
        by auto
      moreover have "(?h + 16) * 16 ^ (i - 1) \<le> (h + 16) * 16 ^ i" using d Suc by simp
      ultimately have "h' = 0 \<or> h' < (h + 16) * 16 ^ i" by linarith
      then show ?thesis using r Some Suc h'(1) by auto
    qed
  qed
qed simp

lemma parse_hex4_total:
  assumes "p + 4 \<le> length s"
  shows "\<exists>h. parse_hex4 s p = Inr h \<and> h < 0x10000"
  using hex4_loop_total [OF assms, of 0] by (auto simp: parse_hex4_def)

lemma utf8_tail_length: "length (snd (utf8_tail i cp out)) = i + length out"
  by (induction i cp out rule: utf8_tail.induct) auto

lemma utf8_encode_length:
  assumes "utf8_encode cp = Some u"
  shows "length u \<le> 4" "cp < 0x10000 \<Longrightarrow> length u \<le> 3"
proof -
  have enc: "length (case utf8_tail (n - 1) cp [] of (c, t) \<Rightarrow> byte (f c) # t) = Suc (n - 1)" for n f
    using utf8_tail_length [of "n - 1" cp "[]"] by (auto split: prod.splits)
  show "length u \<le> 4" "cp < 0x10000 \<Longrightarrow> length u \<le> 3"
    using assms enc [where n = 1] enc [where n = 2] enc [where n = 3] enc [where n = 4]
    by (auto simp: utf8_encode_def Let_def split: if_splits)
qed

lemma utf16_total:
  assumes "p < e" "e < length s"
  shows "\<exists>r. utf16_literal_to_utf8 s p e = Inr r
    \<and> (\<forall>u pair. r = Some (u, pair) \<longrightarrow> (if pair then 12 \<le> e - p \<and> length u \<le> 4 else 6 \<le> e - p \<and> length u \<le> 3))"
proof (cases "e - p < 6")
  case True
  then show ?thesis by (simp add: utf16_literal_to_utf8_def)
next
  case six: False
  have "p + 2 + 4 \<le> length s" using six assms by linarith
  then obtain h where h: "parse_hex4 s (p + 2) = Inr h" "h < 0x10000" using parse_hex4_total by blast
  show ?thesis
  proof (cases "0xD800 \<le> h \<and> h \<le> 0xDBFF \<and> \<not> e - (p + 6) < 6")
    case True
    have "p + 8 + 4 \<le> length s" using True assms by linarith
    then obtain h2 where h2: "parse_hex4 s (p + 8) = Inr h2" using parse_hex4_total by blast
    have r: "rd s (p + 6) = Inr (s ! (p + 6))" "rd s (p + 7) = Inr (s ! (p + 7))" using True assms by (auto simp: rd_def)
    show ?thesis
      using six h True h2 r by (auto simp: utf16_literal_to_utf8_def dest: utf8_encode_length(1))
  next
    case False
    then show ?thesis
      using six h by (auto simp: utf16_literal_to_utf8_def dest: utf8_encode_length(2))
  qed
qed

lemma unescape_total:
  assumes "e < length s" "length out + weight (take (e - p) (drop p s)) + 1 \<le> cap"
  shows "\<exists>r q. unescape s cap e p out = Inr (r, q)"
  using assms
proof (induction s cap e p out rule: unescape.induct)
  case (1 s cap e p out)
  show ?case
  proof (cases "e \<le> p")
    case True
    with 1(5) show ?thesis by (subst unescape.simps) (simp add: put_def)
  next
    case pe: False
    define rest where "rest = take (e - p) (drop p s)"
    have rd0: "rd s p = Inr (s ! p)" and rd1: "rd s (p + 1) = Inr (s ! (p + 1))" using pe 1(4) by (simp_all add: rd_def)
    have rest: "rest \<noteq> []" "length rest = e - p" "hd rest = s ! p"
      using pe 1(4) by (auto simp: rest_def hd_drop_conv_nth)
    have later: "take (e - (p + k)) (drop (p + k) s) = drop k rest" for k
      by (simp add: rest_def drop_take drop_drop add.commute)
    have cap: "length out + weight rest + 1 \<le> cap" using 1(5) by (simp add: rest_def)
    have put1: "put cap out [x] = Inr (out @ [x])" for x
      using cap rest(1) by (cases rest) (auto simp: put_def)
    show ?thesis
    proof (cases "s ! p = CHR 0x5C")
      case ord: False
      have "weight rest = Suc (weight (drop 1 rest))" using rest ord by (cases rest) auto
      with cap have "length (out @ [s ! p]) + weight (take (e - (p + 1)) (drop (p + 1) s)) + 1 \<le> cap" unfolding later by simp
      from 1(1) [OF pe rd0 ord put1 1(4) this] show ?thesis
        by (subst unescape.simps) (simp add: pe rd0 ord put1)
    next
      case esc: True
      then have ne: "\<not> s ! p \<noteq> CHR 0x5C" by simp
      show ?thesis
      proof (cases "escape_char (s ! (p + 1))")
        case (Some y)
        have "weight rest = Suc (weight (drop 2 rest))"
          using rest esc by (cases rest) (auto simp: numeral_2_eq_2 drop_Suc)
        with cap have "length (out @ [y]) + weight (take (e - (p + 2)) (drop (p + 2) s)) + 1 \<le> cap" unfolding later by simp
        from 1(3) [OF pe rd0 ne rd1 Some put1 1(4) this] show ?thesis
          using esc Some rd1 by (subst unescape.simps) (simp add: pe rd0 put1)
      next
        case None
        show ?thesis
        proof (cases "s ! (p + 1) = CHR ''u''")
          case False
          then show ?thesis using esc None rd1 by (subst unescape.simps) (simp add: pe rd0)
        next
          case u: True
          obtain r where r: "utf16_literal_to_utf8 s p e = Inr r"
            and len: "\<forall>u pair. r = Some (u, pair) \<longrightarrow> (if pair then 12 \<le> e - p \<and> length u \<le> 4 else 6 \<le> e - p \<and> length u \<le> 3)"
            using utf16_total [of p e s] pe 1(4) by auto
          show ?thesis
          proof (cases r)
            case r0: None
            then show ?thesis using esc None rd1 u r by (subst unescape.simps) (simp add: pe rd0)
          next
            case (Some up)
            obtain b pair where up: "up = (b, pair)" by fastforce
            have six: "weight (drop 6 rest) + 3 \<le> weight rest" if "6 \<le> e - p"
              using weight_drop_even [of 3 rest] rest(2) that by simp
            have twelve: "weight (drop 12 rest) + 6 \<le> weight rest" if "12 \<le> e - p"
              using weight_drop_even [of 6 rest] rest(2) that by simp
            have w: "length b + weight (drop (if pair then 12 else 6) rest) \<le> weight rest"
              using len Some up six twelve by (cases pair) fastforce+
            then have pu: "put cap out b = Inr (out @ b)" using cap by (simp add: put_def)
            have "length (out @ b) + weight (take (e - (p + (if pair then 12 else 6)))
                (drop (p + (if pair then 12 else 6)) s)) + 1 \<le> cap"
              using w cap unfolding later by simp
            from 1(2) [OF pe rd0 ne rd1 None u r Some up [symmetric] pu 1(4) this] show ?thesis
              using esc None rd1 u r Some up pu by (subst unescape.simps) (simp add: pe rd0)
          qed
        qed
      qed
    qed
  qed
qed


section \<open>Typed trees\<close>

definition nul_free :: "cstr \<Rightarrow> bool" where
  "nul_free s = (case s of None \<Rightarrow> True | Some t \<Rightarrow> CHR 0x00 \<notin> set t)"

text \<open>
  The trees the parser makes: one of the seven JSON types without further flags; a text exactly for a string, without
  NUL inside; the saturated integer and a value in the range of a double for a number; children only for an array,
  unnamed, or an object, named.
\<close>

fun well_typed :: "cjson \<Rightarrow> bool" where
  "well_typed (CJson t vs vi vd s cs) \<longleftrightarrow>
     t \<in> {cJSON_False, cJSON_True, cJSON_NULL, cJSON_Number, cJSON_String, cJSON_Array, cJSON_Object}
     \<and> (vs \<noteq> None \<longleftrightarrow> t = cJSON_String) \<and> nul_free vs \<and> nul_free s
     \<and> (t = cJSON_Number \<longrightarrow> vi = valueint_of vd \<and> in_range vd)
     \<and> (cs \<noteq> [] \<longrightarrow> t = cJSON_Array \<or> t = cJSON_Object)
     \<and> (\<forall>c \<in> set cs. (cj_string c \<noteq> None \<longleftrightarrow> t = cJSON_Object) \<and> well_typed c)"

fun nest :: "cjson \<Rightarrow> nat" where
  "nest (CJson t vs vi vd s cs) =
     (if t = cJSON_Array \<or> t = cJSON_Object then Suc (fold max (map nest cs) 0) else 0)"

lemma fold_max_le: "fold max xs (a :: nat) \<le> n \<longleftrightarrow> a \<le> n \<and> (\<forall>x \<in> set xs. x \<le> n)"
  by (induction xs arbitrary: a) auto

definition parsed :: "nat \<Rightarrow> cjson \<Rightarrow> bool" where
  "parsed d j \<longleftrightarrow> well_typed j \<and> nest j + d \<le> CJSON_NESTING_LIMIT"

text \<open>An item the parser is about to fill: no text, no children, a name without NUL.\<close>

definition fresh :: "cjson \<Rightarrow> bool" where
  "fresh j \<longleftrightarrow> valuestring j = None \<and> child j = [] \<and> nul_free (cj_string j)"

lemma fresh_new [simp]: "fresh cJSON_New_Item"
  by (simp add: fresh_def cJSON_New_Item_def nul_free_def)

lemma set_parsed:
  assumes "fresh item" "d \<le> CJSON_NESTING_LIMIT"
  shows "t \<in> {cJSON_False, cJSON_NULL} \<Longrightarrow> parsed d (set_type t item)" "parsed d (set_true item)"
    "nul_free (Some v) \<Longrightarrow> parsed d (set_text v item)" "in_range n \<Longrightarrow> parsed d (set_number n item)"
  using assms by (cases item; auto simp: parsed_def fresh_def nul_free_def cJSON_types)+

lemma set_children_parsed:
  assumes "fresh item" "d < CJSON_NESTING_LIMIT" "\<forall>c \<in> set cs. parsed (Suc d) c"
  shows "\<forall>c \<in> set cs. cj_string c = None \<Longrightarrow> parsed d (set_children cJSON_Array cs item)"
    "\<forall>c \<in> set cs. cj_string c \<noteq> None \<Longrightarrow> parsed d (set_children cJSON_Object cs item)"
proof -
  have "fold max (map nest cs) 0 \<le> CJSON_NESTING_LIMIT - Suc d"
    using assms(2,3) by (auto simp: fold_max_le parsed_def)
  then have n: "Suc (fold max (map nest cs) 0) + d \<le> CJSON_NESTING_LIMIT" using assms(2) by simp
  show "\<forall>c \<in> set cs. cj_string c = None \<Longrightarrow> parsed d (set_children cJSON_Array cs item)"
    "\<forall>c \<in> set cs. cj_string c \<noteq> None \<Longrightarrow> parsed d (set_children cJSON_Object cs item)"
    using assms n by (cases item; auto simp: parsed_def fresh_def nul_free_def cJSON_types)+
qed

lemma set_name [simp]:
  "cj_string (set_type t j) = cj_string j" "cj_string (set_true j) = cj_string j" "cj_string (set_text v j) = cj_string j"
  "cj_string (set_number n j) = cj_string j" "cj_string (set_children t cs j) = cj_string j"
  by (cases j; simp)+

section \<open>Positions\<close>

text \<open>A text ends with its NUL; the buffer stands before the end of the text.\<close>

definition terminated :: "string \<Rightarrow> bool" where
  "terminated s \<longleftrightarrow> s \<noteq> [] \<and> last s = CHR 0x00"

definition inside :: "string \<Rightarrow> nat \<Rightarrow> parse_buffer \<Rightarrow> bool" where
  "inside s d b \<longleftrightarrow> content b = s \<and> depth b = d \<and> offset b < length s"

lemma step_simps [simp]:
  "content (ahead n b) = content b" "depth (ahead n b) = depth b" "offset (ahead n b) = offset b + n"
  "content (step_back b) = content b" "depth (step_back b) = depth b" "offset (step_back b) = offset b - 1"
  by (simp_all add: ahead_def step_back_def)

lemma skip_simps [simp]: "content (buffer_skip_whitespace b) = content b" "depth (buffer_skip_whitespace b) = depth b"
  by (simp_all add: buffer_skip_whitespace_def Let_def)

lemma skip_offset:
  assumes "offset b \<le> length (content b)" "content b \<noteq> []"
  shows "offset (buffer_skip_whitespace b) < length (content b)"
    "offset b < length (content b) \<Longrightarrow> offset b \<le> offset (buffer_skip_whitespace b)"
proof -
  let ?n = "length (takeWhile json_space (drop (offset b) (content b)))"
  have "?n \<le> length (drop (offset b) (content b))" by (rule length_takeWhile_le)
  then have "offset b + ?n \<le> length (content b)" using assms(1) by simp
  moreover have "0 < length (content b)" using assms(2) by simp
  ultimately show "offset (buffer_skip_whitespace b) < length (content b)"
    "offset b < length (content b) \<Longrightarrow> offset b \<le> offset (buffer_skip_whitespace b)"
    unfolding buffer_skip_whitespace_def Let_def by (auto simp: ahead_def step_back_def)
qed

lemma inside_skip:
  assumes "inside s d b"
  shows "inside s d (buffer_skip_whitespace b)" "offset b \<le> offset (buffer_skip_whitespace b)"
  using skip_offset [of b] assms by (cases "content b = []"; auto simp: inside_def)+

text \<open>A character other than NUL is not the last one.\<close>

lemma not_last:
  assumes "terminated s" "i < length s" "s ! i \<noteq> CHR 0x00"
  shows "i + 1 < length s"
proof (rule ccontr)
  assume "\<not> i + 1 < length s"
  with assms(2) have "i = length s - 1" by simp
  with assms(1,3) show False by (auto simp: terminated_def last_conv_nth)
qed

lemma inside_step1:
  assumes "terminated s" "inside s d b" "at_char b c" "c \<noteq> CHR 0x00"
  shows "inside s d (ahead 1 b)"
  using not_last [OF assms(1), of "offset b"] assms(2-4) by (auto simp: inside_def at_char_def)

lemma no_nul_end:
  assumes "terminated s" "i + length t \<le> length s" "take (length t) (drop i s) = t" "CHR 0x00 \<notin> set t" "t \<noteq> []"
  shows "i + length t < length s"
proof (rule ccontr)
  assume "\<not> i + length t < length s"
  with assms(2) have eq: "i + length t = length s" by simp
  with assms(3) have "drop i s = t" by simp
  then have "last s = last t" using assms(5) by (metis append_take_drop_id last_appendR)
  with assms(1,4,5) show False by (metis last_in_set terminated_def)
qed


section \<open>Strings and numbers\<close>

lemma takeWhile_nul_free: "nul_free (Some (takeWhile (\<lambda>c. c \<noteq> CHR 0x00) out))"
  by (auto simp: nul_free_def dest: set_takeWhileD)

lemma parse_string_total:
  assumes "terminated s" "inside s d b"
  shows "\<exists>ok it b'. parse_string item b = Inr (ok, it, b')
    \<and> (ok \<longrightarrow> inside s d b' \<and> offset b < offset b' \<and> (\<exists>v. it = set_text v item \<and> nul_free (Some v)))"
proof -
  have b: "content b = s" "depth b = d" "offset b < length s" using assms(2) by (auto simp: inside_def)
  define p where "p = offset b + 1"
  have rd0: "rd s (offset b) = Inr (s ! offset b)" using b by (simp add: rd_def)
  show ?thesis
  proof (cases "s ! offset b = CHR 0x22 \<and> string_end (drop p s) 0 0 \<noteq> None")
    case False
    then have "\<exists>b'. parse_string item b = Inr (False, item, b')"
      using b rd0 by (auto simp: parse_string_def Let_def p_def split: option.splits)
    then show ?thesis by blast
  next
    case True
    then obtain n k where se: "string_end (drop p s) 0 0 = Some (n, k)" by fastforce
    note sp = string_end_spec [OF se]
    define e where "e = p + n"
    have e: "e < length s" "s ! e = CHR 0x22" using sp by (auto simp: e_def)
    have "length ([] :: string) + weight (take (e - p) (drop p s)) + 1 \<le> (e - offset b) - k + 1"
      using sp by (auto simp: e_def p_def)
    from unescape_total [OF e(1) this] obtain r q where
      r: "unescape s ((e - offset b) - k + 1) e p [] = Inr (r, q)" by blast
    show ?thesis
    proof (cases r)
      case None
      then have "\<exists>b'. parse_string item b = Inr (False, item, b')"
        using b rd0 True se r by (simp add: parse_string_def Let_def p_def e_def)
      then show ?thesis by blast
    next
      case (Some out)
      let ?v = "takeWhile (\<lambda>c. c \<noteq> CHR 0x00) out"
      have "parse_string item b = Inr (True, set_text ?v item, b\<lparr>offset := e + 1\<rparr>)"
        using b rd0 True se r Some by (simp add: parse_string_def Let_def p_def e_def)
      moreover have "inside s d (b\<lparr>offset := e + 1\<rparr>)"
        using not_last [OF assms(1) e(1)] e(2) b by (simp add: inside_def)
      ultimately show ?thesis using takeWhile_nul_free by (auto simp: e_def p_def)
    qed
  qed
qed

lemma strtod_used: "snd (strtod s) \<le> length s"
  by (auto simp: strtod_def Let_def split: prod.splits)

lemma strtod_in_range: "in_range (fst (strtod s))"
  by (auto simp: strtod_def Let_def to_double_in_range split: prod.splits) (simp add: in_range_def)

lemma parse_number_total:
  assumes "terminated s" "inside s d b" "parse_number item b = (True, it, b')"
  shows "inside s d b' \<and> offset b < offset b' \<and> (\<exists>n. it = set_number n item \<and> in_range n)"
proof -
  let ?t = "number_c_string b"
  obtain n u where st: "strtod ?t = (n, u)" by fastforce
  have b: "content b = s" "depth b = d" "offset b < length s" using assms(2) by (auto simp: inside_def)
  from assms(3) st have r: "u \<noteq> 0" "it = set_number n item" "b' = ahead u b"
    by (auto simp: parse_number_def split: if_splits)
  have u: "u \<le> length ?t" using strtod_used [of ?t] st by simp
  have n: "in_range n" using strtod_in_range [of ?t] st by simp
  let ?w = "take u ?t"
  have pre: "?t = take (length ?t) (drop (offset b) s)"
    unfolding number_c_string_def b(1)
    by (metis (no_types, lifting) length_takeWhile_le take_take takeWhile_eq_take min_absorb1 length_take min.bounded_iff)
  then have len: "length ?t \<le> length s - offset b" by (metis length_drop length_take min.bounded_iff order_refl)
  have w: "take (length ?w) (drop (offset b) s) = ?w" using u pre by (metis length_take min_absorb2 take_take)
  have "offset b + length ?w \<le> length s" using u len b(3) by simp
  moreover have "CHR 0x00 \<notin> set ?w"
  proof
    assume "CHR 0x00 \<in> set ?w"
    then have "CHR 0x00 \<in> set ?t" by (meson in_set_takeD)
    then have "number_char (CHR 0x00)" unfolding number_c_string_def by (meson set_takeWhileD)
    then show False by (simp add: number_char_def is_digit_def)
  qed
  moreover have "?w \<noteq> []" using r(1) u by (metis length_greater_0_conv length_take min_absorb2 neq0_conv)
  ultimately have "offset b + length ?w < length s" using no_nul_end [OF assms(1) _ w] by blast
  with u r n b show ?thesis by (auto simp: inside_def)
qed

lemma at_literal_step:
  assumes "terminated s" "inside s d b" "at_literal b t" "CHR 0x00 \<notin> set t" "t \<noteq> []" "n = length t"
  shows "inside s d (ahead n b)" "offset b < offset (ahead n b)"
  using no_nul_end [OF assms(1) _ _ assms(4,5), of "offset b"] assms(2,3,5,6)
  by (auto simp: inside_def at_literal_def can_read_def)


section \<open>The contract of a parser of values\<close>

locale value_contract =
  fixes pv :: value_parser and s :: string and d :: nat
  assumes ended: "terminated s" and limit: "d \<le> CJSON_NESTING_LIMIT"
    and value_ok: "inside s d b \<Longrightarrow> fresh item \<Longrightarrow> \<exists>ok it b'. pv item b = Inr (ok, it, b')
      \<and> (ok \<longrightarrow> inside s d b' \<and> offset b < offset b' \<and> parsed d it \<and> cj_string it = cj_string item)"
begin

lemma inside_next:
  assumes "inside s d b" "at_char b c" "c \<noteq> CHR 0x00"
  shows "inside s d (buffer_skip_whitespace (ahead 1 b))" "offset b < offset (buffer_skip_whitespace (ahead 1 b))"
  using inside_skip [OF inside_step1 [OF ended assms]] by simp_all

text \<open>A round of the loop over the elements moves forward by more than one position.\<close>

lemma array_elements_total:
  assumes "content b = s" "depth b = d" "offset b + 1 < length s" "length s - offset b \<le> k" "\<forall>c \<in> set cs. parsed d c \<and> cj_string c = None"
  shows "\<exists>ok cs' b'. array_elements pv k cs b = Inr (ok, cs', b')
    \<and> (ok \<longrightarrow> inside s d b' \<and> offset b < offset b' \<and> (\<forall>c \<in> set cs'. parsed d c \<and> cj_string c = None))"
  using assms
proof (induction k arbitrary: cs b)
  case (Suc k)
  define b0 where "b0 = buffer_skip_whitespace (ahead 1 b)"
  have b0: "inside s d b0" "offset b < offset b0"
    using inside_skip [of s d "ahead 1 b"] Suc.prems(1-3) by (auto simp: b0_def inside_def)
  obtain ok it b1 where v: "pv cJSON_New_Item b0 = Inr (ok, it, b1)"
    and ok: "ok \<longrightarrow> inside s d b1 \<and> offset b0 < offset b1 \<and> parsed d it \<and> cj_string it = None"
    using value_ok [OF b0(1) fresh_new] by (auto simp: cJSON_New_Item_def)
  show ?case
  proof (cases ok)
    case False
    with v have "array_elements pv (Suc k) cs b = Inr (False, cs, b1)" by (simp add: b0_def)
    then show ?thesis by blast
  next
    case True
    define b2 where "b2 = buffer_skip_whitespace b1"
    have b2: "inside s d b2" "offset b0 < offset b2" using ok True inside_skip [of s d b1] by (auto simp: b2_def)
    have cs: "\<forall>c \<in> set (cs @ [it]). parsed d c \<and> cj_string c = None" using Suc.prems(5) ok True by auto
    show ?thesis
    proof (cases "at_char b2 (CHR '','')")
      case False
      with v True have "array_elements pv (Suc k) cs b = Inr (True, cs @ [it], b2)" by (simp add: b0_def b2_def)
      with b0 b2 cs show ?thesis by auto
    next
      case comma: True
      have nx: "offset b2 + 1 < length s" using inside_step1 [OF ended b2(1) comma] by (simp add: inside_def)
      have "array_elements pv (Suc k) cs b = array_elements pv k (cs @ [it]) b2"
        using v True comma by (simp add: b0_def b2_def)
      moreover from Suc.IH [of b2 "cs @ [it]"] b2 b0 nx cs Suc.prems(4)
      have "\<exists>ok cs' b'. array_elements pv k (cs @ [it]) b2 = Inr (ok, cs', b')
          \<and> (ok \<longrightarrow> inside s d b' \<and> offset b2 < offset b' \<and> (\<forall>c \<in> set cs'. parsed d c \<and> cj_string c = None))"
        by (auto simp: inside_def)
      ultimately show ?thesis using b0 b2 by fastforce
    qed
  qed
qed simp

lemma object_members_total:
  assumes "content b = s" "depth b = d" "offset b + 1 < length s" "length s - offset b \<le> k" "\<forall>c \<in> set cs. parsed d c \<and> cj_string c \<noteq> None"
  shows "\<exists>ok cs' b'. object_members pv k cs b = Inr (ok, cs', b')
    \<and> (ok \<longrightarrow> inside s d b' \<and> offset b < offset b' \<and> (\<forall>c \<in> set cs'. parsed d c \<and> cj_string c \<noteq> None))"
  using assms
proof (induction k arbitrary: cs b)
  case (Suc k)
  define b0 where "b0 = buffer_skip_whitespace (ahead 1 b)"
  have b0: "inside s d b0" "offset b < offset b0"
    using inside_skip [of s d "ahead 1 b"] Suc.prems(1-3) by (auto simp: b0_def inside_def)
  obtain ok it b1 where n: "parse_string cJSON_New_Item b0 = Inr (ok, it, b1)"
    and ok: "ok \<longrightarrow> inside s d b1 \<and> offset b0 < offset b1 \<and> (\<exists>v. it = set_text v cJSON_New_Item \<and> nul_free (Some v))"
    using parse_string_total [OF ended b0(1)] by blast
  define b2 where "b2 = buffer_skip_whitespace b1"
  show ?case
  proof (cases "ok \<and> at_char b2 (CHR '':'')")
    case False
    with n have "\<exists>b'. object_members pv (Suc k) cs b = Inr (False, cs, b')" by (cases ok) (auto simp: b0_def b2_def)
    then show ?thesis by blast
  next
    case True
    have b2: "inside s d b2" "offset b0 < offset b2" using ok True inside_skip [of s d b1] by (auto simp: b2_def)
    define b3 where "b3 = buffer_skip_whitespace (ahead 1 b2)"
    have b3: "inside s d b3" "offset b2 < offset b3" using inside_next [OF b2(1)] True by (auto simp: b3_def)
    have fr: "fresh (swap_name it)" "cj_string (swap_name it) \<noteq> None"
      using ok True by (auto simp: fresh_def cJSON_New_Item_def)
    obtain ok2 it2 b4 where v: "pv (swap_name it) b3 = Inr (ok2, it2, b4)"
      and ok2: "ok2 \<longrightarrow> inside s d b4 \<and> offset b3 < offset b4 \<and> parsed d it2 \<and> cj_string it2 = cj_string (swap_name it)"
      using value_ok [OF b3(1) fr(1)] by blast
    show ?thesis
    proof (cases ok2)
      case False
      with n v True have "object_members pv (Suc k) cs b = Inr (False, cs, b4)" by (simp add: b0_def b2_def b3_def)
      then show ?thesis by blast
    next
      case t2: True
      define b5 where "b5 = buffer_skip_whitespace b4"
      have b5: "inside s d b5" "offset b3 < offset b5" using ok2 t2 inside_skip [of s d b4] by (auto simp: b5_def)
      have cs: "\<forall>c \<in> set (cs @ [it2]). parsed d c \<and> cj_string c \<noteq> None" using Suc.prems(5) ok2 t2 fr by auto
      note defs = b0_def b2_def b3_def b5_def
      show ?thesis
      proof (cases "at_char b5 (CHR '','')")
        case False
        with n v True t2 have "object_members pv (Suc k) cs b = Inr (True, cs @ [it2], b5)" by (simp add: defs)
        with b0 b2 b3 b5 cs show ?thesis by auto
      next
        case comma: True
        have nx: "offset b5 + 1 < length s" using inside_step1 [OF ended b5(1) comma] by (simp add: inside_def)
        have "object_members pv (Suc k) cs b = object_members pv k (cs @ [it2]) b5"
          using n v True t2 comma by (simp add: defs)
        moreover from Suc.IH [of b5 "cs @ [it2]"] b0 b2 b3 b5 nx cs Suc.prems(4)
        have "\<exists>ok cs' b'. object_members pv k (cs @ [it2]) b5 = Inr (ok, cs', b')
            \<and> (ok \<longrightarrow> inside s d b' \<and> offset b5 < offset b' \<and> (\<forall>c \<in> set cs'. parsed d c \<and> cj_string c \<noteq> None))"
          by (auto simp: inside_def)
        ultimately show ?thesis using b0 b2 b3 b5 by fastforce
      qed
    qed
  qed
qed simp

end


context value_contract
begin

lemma enter:
  assumes "inside s d' b" "at_char b c" "c \<noteq> CHR 0x00" "d = Suc d'"
  shows "inside s d (buffer_skip_whitespace (ahead 1 (b\<lparr>depth := depth b + 1\<rparr>)))"
    "offset b < offset (buffer_skip_whitespace (ahead 1 (b\<lparr>depth := depth b + 1\<rparr>)))"
proof -
  have "inside s d (b\<lparr>depth := depth b + 1\<rparr>)" "at_char (b\<lparr>depth := depth b + 1\<rparr>) c"
    using assms by (auto simp: inside_def at_char_def can_access_at_index_def)
  from inside_next [OF this assms(3)] show "inside s d (buffer_skip_whitespace (ahead 1 (b\<lparr>depth := depth b + 1\<rparr>)))"
    "offset b < offset (buffer_skip_whitespace (ahead 1 (b\<lparr>depth := depth b + 1\<rparr>)))" by simp_all
qed

lemma leave:
  assumes "inside s d b" "at_char b c" "c \<noteq> CHR 0x00" "d = Suc d'"
  shows "inside s d' (ahead 1 (b\<lparr>depth := depth b - 1\<rparr>))"
proof -
  have "inside s d (ahead 1 b)" by (rule inside_step1 [OF ended assms(1-3)])
  then show ?thesis using assms(1,4) by (auto simp: inside_def)
qed

lemma parse_array_total:
  assumes "inside s d' b" "at_char b (CHR ''['')" "fresh item" "d = Suc d'"
  shows "\<exists>ok it b'. parse_array pv item b = Inr (ok, it, b')
      \<and> (ok \<longrightarrow> inside s d' b' \<and> offset b < offset b' \<and> parsed d' it \<and> cj_string it = cj_string item)"
proof -
  define b1 where "b1 = buffer_skip_whitespace (ahead 1 (b\<lparr>depth := depth b + 1\<rparr>))"
  have b1: "inside s d b1" "offset b < offset b1" using enter [OF assms(1,2) _ assms(4)] by (auto simp: b1_def)
  have lim: "\<not> CJSON_NESTING_LIMIT \<le> depth b" "d' < CJSON_NESTING_LIMIT" using limit assms(1,4) by (auto simp: inside_def)
  have rd0: "rd (content b) (offset b) = Inr (CHR ''['')"
    using assms(2) by (auto simp: at_char_def can_access_at_index_def rd_def)
  have acc: "can_access_at_index b1 0" using b1 by (simp add: inside_def can_access_at_index_def)
  have close: "inside s d' (ahead 1 (b2\<lparr>depth := depth b2 - 1\<rparr>)) \<and> offset b < offset (ahead 1 (b2\<lparr>depth := depth b2 - 1\<rparr>))
      \<and> parsed d' (set_children cJSON_Array cs item)"
    if "inside s d b2" "at_char b2 (CHR '']'')" "offset b < offset b2" "\<forall>c \<in> set cs. parsed d c \<and> cj_string c = None" for b2 cs
    using leave [OF that(1,2) _ assms(4)] set_children_parsed(1) [OF assms(3) lim(2), of cs] that(3,4) assms(4) by auto
  show ?thesis
  proof (cases "at_char b1 (CHR '']'')")
    case True
    then have "parse_array pv item b = Inr (True, set_children cJSON_Array [] item, ahead 1 (b1\<lparr>depth := depth b1 - 1\<rparr>))"
      using lim rd0 by (simp add: parse_array_def Let_def b1_def)
    with close [OF b1(1) True b1(2), of "[]"] show ?thesis by auto
  next
    case False
    have "\<exists>ok cs' b'. array_elements pv (length s) [] (step_back b1) = Inr (ok, cs', b')
      \<and> (ok \<longrightarrow> inside s d b' \<and> offset (step_back b1) < offset b' \<and> (\<forall>c \<in> set cs'. parsed d c \<and> cj_string c = None))"
      by (rule array_elements_total) (use b1 in \<open>auto simp: inside_def\<close>)
    then obtain ok cs b2 where a: "array_elements pv (length s) [] (step_back b1) = Inr (ok, cs, b2)"
      and ok: "ok \<longrightarrow> inside s d b2 \<and> offset (step_back b1) < offset b2 \<and> (\<forall>c \<in> set cs. parsed d c \<and> cj_string c = None)"
      by blast
    have len: "content b1 = s" using b1 by (simp add: inside_def)
    have eq: "parse_array pv item b = (if \<not> ok \<or> \<not> at_char b2 (CHR '']'') then Inr (False, item, b2)
        else Inr (True, set_children cJSON_Array cs item, ahead 1 (b2\<lparr>depth := depth b2 - 1\<rparr>)))"
      using lim rd0 False acc a len by (simp add: parse_array_def Let_def b1_def)
    show ?thesis
    proof (cases "ok \<and> at_char b2 (CHR '']'')")
      case True
      then have "offset b < offset b2" using ok b1(2) by auto
      with close [of b2 cs] ok True eq show ?thesis by auto
    qed (use eq in auto)
  qed
qed

lemma parse_object_total:
  assumes "inside s d' b" "at_char b (CHR ''{'')" "fresh item" "d = Suc d'"
  shows "\<exists>ok it b'. parse_object pv item b = Inr (ok, it, b')
      \<and> (ok \<longrightarrow> inside s d' b' \<and> offset b < offset b' \<and> parsed d' it \<and> cj_string it = cj_string item)"
proof -
  define b1 where "b1 = buffer_skip_whitespace (ahead 1 (b\<lparr>depth := depth b + 1\<rparr>))"
  have b1: "inside s d b1" "offset b < offset b1" using enter [OF assms(1,2) _ assms(4)] by (auto simp: b1_def)
  have lim: "\<not> CJSON_NESTING_LIMIT \<le> depth b" "d' < CJSON_NESTING_LIMIT" using limit assms(1,4) by (auto simp: inside_def)
  have at: "at_char (b\<lparr>depth := Suc (depth b)\<rparr>) (CHR ''{'')"
    using assms(2) by (auto simp: at_char_def can_access_at_index_def)
  have acc: "can_access_at_index b1 0" using b1 by (simp add: inside_def can_access_at_index_def)
  have close: "inside s d' (ahead 1 (b2\<lparr>depth := depth b2 - 1\<rparr>)) \<and> offset b < offset (ahead 1 (b2\<lparr>depth := depth b2 - 1\<rparr>))
      \<and> parsed d' (set_children cJSON_Object cs item)"
    if "inside s d b2" "at_char b2 (CHR ''}'')" "offset b < offset b2" "\<forall>c \<in> set cs. parsed d c \<and> cj_string c \<noteq> None" for b2 cs
    using leave [OF that(1,2) _ assms(4)] set_children_parsed(2) [OF assms(3) lim(2), of cs] that(3,4) assms(4) by auto
  show ?thesis
  proof (cases "at_char b1 (CHR ''}'')")
    case True
    then have "parse_object pv item b = Inr (True, set_children cJSON_Object [] item, ahead 1 (b1\<lparr>depth := depth b1 - 1\<rparr>))"
      using lim at by (simp add: parse_object_def Let_def b1_def)
    with close [OF b1(1) True b1(2), of "[]"] show ?thesis by auto
  next
    case False
    have "\<exists>ok cs' b'. object_members pv (length s) [] (step_back b1) = Inr (ok, cs', b')
      \<and> (ok \<longrightarrow> inside s d b' \<and> offset (step_back b1) < offset b' \<and> (\<forall>c \<in> set cs'. parsed d c \<and> cj_string c \<noteq> None))"
      by (rule object_members_total) (use b1 in \<open>auto simp: inside_def\<close>)
    then obtain ok cs b2 where a: "object_members pv (length s) [] (step_back b1) = Inr (ok, cs, b2)"
      and ok: "ok \<longrightarrow> inside s d b2 \<and> offset (step_back b1) < offset b2 \<and> (\<forall>c \<in> set cs. parsed d c \<and> cj_string c \<noteq> None)"
      by blast
    have len: "content b1 = s" using b1 by (simp add: inside_def)
    have eq: "parse_object pv item b = (if \<not> ok \<or> \<not> at_char b2 (CHR ''}'') then Inr (False, item, b2)
        else Inr (True, set_children cJSON_Object cs item, ahead 1 (b2\<lparr>depth := depth b2 - 1\<rparr>)))"
      using lim at False acc a len by (simp add: parse_object_def Let_def b1_def)
    show ?thesis
    proof (cases "ok \<and> at_char b2 (CHR ''}'')")
      case True
      then have "offset b < offset b2" using ok b1(2) by auto
      with close [of b2 cs] ok True eq show ?thesis by auto
    qed (use eq in auto)
  qed
qed

end

section \<open>\<open>parse_value\<close> meets the contract\<close>

text \<open>Below the nesting limit the fuel of \<open>parse_value\<close> covers the levels that are left.\<close>

lemma parse_value_contract:
  assumes "terminated s" "d + f = CJSON_NESTING_LIMIT + 1" "0 < f"
  shows "value_contract (parse_value f) s d"
  using assms(2,3)
proof (induction f arbitrary: d)
  case (Suc f)
  have lim: "d \<le> CJSON_NESTING_LIMIT" using Suc.prems by simp
  show ?case
  proof (unfold_locales)
    fix b item
    assume b: "inside s d b" and fr: "fresh item"
    define P where "P r \<longleftrightarrow> (\<exists>ok it b'. r = Inr (ok, it, b')
      \<and> (ok \<longrightarrow> inside s d b' \<and> offset b < offset b' \<and> parsed d it \<and> cj_string it = cj_string item))"
      for r :: "(bool \<times> cjson \<times> parse_buffer) cres"
    have okI: "P (Inr (True, it, b'))"
      if "inside s d b'" "offset b < offset b'" "parsed d it" "cj_string it = cj_string item" for it b'
      using that by (auto simp: P_def)
    have fail: "P (Inr (False, item, b))" by (auto simp: P_def)
    note lit = at_literal_step [OF assms(1) b]
    have null: "P (Inr (True, set_type cJSON_NULL item, ahead 4 b))" if "at_literal b ''null''"
      using lit [OF that, of 4] set_parsed(1) [OF fr lim] by (intro okI) auto
    have false: "P (Inr (True, set_type cJSON_False item, ahead 5 b))" if "at_literal b ''false''"
      using lit [OF that, of 5] set_parsed(1) [OF fr lim] by (intro okI) auto
    have true: "P (Inr (True, set_true item, ahead 4 b))" if "at_literal b ''true''"
      using lit [OF that, of 4] set_parsed(2) [OF fr lim] by (intro okI) auto
    have str: "P (parse_string item b)"
      using parse_string_total [OF assms(1) b, of item] set_parsed(3) [OF fr lim] unfolding P_def by fastforce
    have num: "P (Inr (parse_number item b))"
      using parse_number_total [OF assms(1) b, of item] set_parsed(4) [OF fr lim] unfolding P_def
      by (cases "parse_number item b") fastforce
    have deeper: "value_contract (parse_value f) s (Suc d)" if "\<not> CJSON_NESTING_LIMIT \<le> d"
      using Suc.IH [of "Suc d"] Suc.prems that by auto
    have arr: "P (parse_array (parse_value f) item b)" if "at_char b (CHR ''['')"
    proof (cases "CJSON_NESTING_LIMIT \<le> d")
      case True
      then show ?thesis using b fail by (simp add: parse_array_def inside_def)
    next
      case False
      from value_contract.parse_array_total [OF deeper [OF False] b that fr] show ?thesis by (simp add: P_def)
    qed
    have obj: "P (parse_object (parse_value f) item b)" if "at_char b (CHR ''{'')"
    proof (cases "CJSON_NESTING_LIMIT \<le> d")
      case True
      then show ?thesis using b fail by (simp add: parse_object_def inside_def)
    next
      case False
      from value_contract.parse_object_total [OF deeper [OF False] b that fr] show ?thesis by (simp add: P_def)
    qed
    have "P (parse_value (Suc f) item b)" using null false true str num arr obj fail by simp
    then show "\<exists>ok it b'. parse_value (Suc f) item b = Inr (ok, it, b')
      \<and> (ok \<longrightarrow> inside s d b' \<and> offset b < offset b' \<and> parsed d it \<and> cj_string it = cj_string item)"
      unfolding P_def .
  qed (use assms lim in auto)
qed simp


text \<open>The instance the module runs: the text of a message, parsed from the outermost level.\<close>

interpretation outermost: value_contract "parse_value (CJSON_NESTING_LIMIT + 1)" "''{}'' @ [CHR 0x00]" 0
  by (rule parse_value_contract) (simp_all add: terminated_def)

section \<open>Properties\<close>

lemma bom_inside:
  assumes "b = \<lparr>content = t @ [CHR 0x00], offset = 0, depth = 0\<rparr>"
  shows "\<exists>b'. skip_utf8_bom b = Some b' \<and> inside (t @ [CHR 0x00]) 0 b'"
  using assms by (auto simp: skip_utf8_bom_def inside_def can_access_at_index_def)

lemma parse_run:
  assumes "value = Some t"
  shows "\<exists>ok it b0 b1. cJSON_ParseWithOpts value req =
      (if \<not> ok then Inr (parse_failed b1)
       else let b2 = (if req then buffer_skip_whitespace b1 else b1)
            in if req \<and> (offset b2 \<ge> length (content b2) \<or> content b2 ! offset b2 \<noteq> CHR 0x00) then Inr (parse_failed b2)
               else Inr \<lparr>pr_item = Some it, pr_end = Some (offset b2), pr_error_at = None\<rparr>)
    \<and> (ok \<longrightarrow> inside (t @ [CHR 0x00]) 0 b1 \<and> parsed 0 it \<and> cj_string it = None)
    \<and> inside (t @ [CHR 0x00]) 0 b0 \<and> parse_value (CJSON_NESTING_LIMIT + 1) cJSON_New_Item b0 = Inr (ok, it, b1)"
proof -
  let ?s = "t @ [CHR 0x00]"
  obtain b where b: "skip_utf8_bom \<lparr>content = ?s, offset = 0, depth = 0\<rparr> = Some b" "inside ?s 0 b"
    using bom_inside by blast
  have b0: "inside ?s 0 (buffer_skip_whitespace b)" using inside_skip [OF b(2)] by simp
  have "value_contract (parse_value (CJSON_NESTING_LIMIT + 1)) ?s 0"
    by (rule parse_value_contract) (simp_all add: terminated_def)
  from value_contract.value_ok [OF this b0 fresh_new] obtain ok it b1 where
    v: "parse_value (CJSON_NESTING_LIMIT + 1) cJSON_New_Item (buffer_skip_whitespace b) = Inr (ok, it, b1)"
    and ok: "ok \<longrightarrow> inside ?s 0 b1 \<and> parsed 0 it \<and> cj_string it = None" by (auto simp: cJSON_New_Item_def)
  have "cJSON_ParseWithOpts value req =
      (if \<not> ok then Inr (parse_failed b1)
       else let b2 = (if req then buffer_skip_whitespace b1 else b1)
            in if req \<and> (offset b2 \<ge> length (content b2) \<or> content b2 ! offset b2 \<noteq> CHR 0x00) then Inr (parse_failed b2)
               else Inr \<lparr>pr_item = Some it, pr_end = Some (offset b2), pr_error_at = None\<rparr>)"
    using assms b(1) v by (simp add: cJSON_ParseWithOpts_def Let_def)
  with ok v b0 show ?thesis by blast
qed


lemma well_typed_wf: "well_typed j \<Longrightarrow> cj_wf j"
proof (induction j rule: well_typed.induct)
  case (1 t vs vi vd s cs)
  have "t AND 0xFF = cJSON_String \<longrightarrow> t = cJSON_String" "t AND 0xFF = cJSON_Object \<longrightarrow> t = cJSON_Object"
    using 1(2) by (auto simp: cJSON_types)
  with 1 show ?case by auto
qed

text \<open>
  C29: the parser of JSON text is safe and total. Whatever bytes a text consists of, \<open>cJSON_ParseWithOpts\<close> reads only
  within the text, writes only within the buffers it allocates for strings, does not recurse deeper than the nesting
  limit and returns.
\<close>

theorem parse_total: "\<exists>r. cJSON_ParseWithOpts value require_null_terminated = Inr r"
proof (cases "value")
  case None
  then show ?thesis by (simp add: cJSON_ParseWithOpts_def)
next
  case (Some t)
  from parse_run [OF this, of require_null_terminated] show ?thesis by (auto simp: Let_def)
qed

text \<open>
  C30: the type of a parsed tree. Every item of a tree \<open>cJSON_Parse\<close> returns has one of the seven JSON types, a text
  exactly if it is a string, the saturated integer value if it is a number, children only if it is an array or an
  object, named exactly in an object; the nesting is at most 1000 levels. The tree is therefore well-formed in the
  sense \<open>decode\<close> and the dispatcher rely on.
\<close>

theorem parse_well_typed:
  assumes "cJSON_Parse value = Inr (Some j)"
  shows "well_typed j \<and> nest j \<le> CJSON_NESTING_LIMIT \<and> cj_string j = None \<and> cj_wf j"
proof -
  from assms obtain r where r: "cJSON_ParseWithOpts value False = Inr r" "pr_item r = Some j"
    by (auto simp: cJSON_Parse_def cbind_Inr_iff)
  then obtain t where t: "value = Some t" by (cases "value") (auto simp: cJSON_ParseWithOpts_def)
  from parse_run [OF t, of False] r have "parsed 0 j \<and> cj_string j = None"
    by (auto simp: Let_def parse_failed_def split: if_splits)
  then show ?thesis by (simp add: parsed_def well_typed_wf)
qed

theorem parse_well_typed_witness:
  "cJSON_Parse (Some ''[null]'') = Inr (Some (CJson cJSON_Array None 0 (DFin 0) None [CJson cJSON_NULL None 0 (DFin 0) None []]))
   \<and> well_typed (CJson cJSON_Array None 0 (DFin 0) None [CJson cJSON_NULL None 0 (DFin 0) None []])"
proof -
  have "parse_value (CJSON_NESTING_LIMIT + 1) = parse_value (Suc (Suc 999))" by (simp add: CJSON_NESTING_LIMIT_def)
  then have p: "cJSON_Parse (Some ''[null]'') = Inr (Some (CJson cJSON_Array None 0 (DFin 0) None [CJson cJSON_NULL None 0 (DFin 0) None []]))"
    by (simp add: cJSON_Parse_def cJSON_ParseWithOpts_def skip_utf8_bom_def can_access_at_index_def buffer_skip_whitespace_def
        json_space_def at_literal_def can_read_def at_char_def is_digit_def parse_array_def rd_def CJSON_NESTING_LIMIT_def ahead_def
        step_back_def cJSON_New_Item_def Let_def numeral_nat)
  with parse_well_typed [OF p] show ?thesis by blast
qed

end
