(* ===== verification/Cjson_Print.thy ===== *)
theory Cjson_Print
  imports Cjson_Number
begin

unbundle bit_operations_syntax

text \<open>
  The printer of \<open>cJSON.c\<close>, from \<open>cJSON_Print\<close> and its variants down to the escaping of a character. Every function
  writes at the current offset of a growing buffer; the model of the buffer is its size, the bytes before the offset
  and the bytes written from the offset on, with the information whether a NUL follows them. A write that
  does not fit the buffer, and a \<open>strlen\<close> that would run past what was written, is \<open>Inl BufferOverflow\<close>. The
  parameter \<open>alloc\<close> says for which sizes (re)allocation succeeds; the hooks are the default ones, \<open>malloc\<close>,
  \<open>realloc\<close> and \<open>free\<close>. Sizes do not exceed \<open>INT_MAX\<close>, so that they are natural numbers.
\<close>

section \<open>The buffer\<close>

record printbuffer =
  pb_buffer :: bool
  pb_length :: nat
  pb_done :: string
  pb_rest :: "string \<times> bool"
  pb_depth :: nat
  pb_noalloc :: bool
  pb_format :: bool

definition pb_offset :: "printbuffer \<Rightarrow> nat" where
  "pb_offset p = length (pb_done p)"

definition INT_MAX_SIZE :: nat where "INT_MAX_SIZE = 2147483647"

definition ensure :: "(nat \<Rightarrow> bool) \<Rightarrow> nat \<Rightarrow> printbuffer \<Rightarrow> bool \<times> printbuffer" where
  "ensure alloc needed p =
     (if \<not> pb_buffer p then (False, p)
      else if pb_length p > 0 \<and> pb_offset p \<ge> pb_length p then (False, p)
      else if needed > INT_MAX_SIZE then (False, p)
      else let needed = needed + pb_offset p + 1 in
           if needed \<le> pb_length p then (True, p)
           else if pb_noalloc p then (False, p)
           else if needed > INT_MAX_SIZE div 2 \<and> \<not> needed \<le> INT_MAX_SIZE then (False, p)
           else let newsize = (if needed > INT_MAX_SIZE div 2 then INT_MAX_SIZE else needed * 2) in
                if alloc newsize then (True, p\<lparr>pb_length := newsize\<rparr>)
                else (False, p\<lparr>pb_length := 0, pb_buffer := False\<rparr>))"

text \<open>Bytes written at the output pointer, with or without a NUL after them.\<close>

definition store :: "string \<Rightarrow> bool \<Rightarrow> printbuffer \<Rightarrow> printbuffer cres" where
  "store s nul p =
     (if pb_offset p + length s + (if nul then 1 else 0) \<le> pb_length p then Inr (p\<lparr>pb_rest := (s, nul)\<rparr>)
      else Inl BufferOverflow)"

text \<open>\<open>offset += n\<close>, over bytes that were written.\<close>

definition advance :: "nat \<Rightarrow> printbuffer \<Rightarrow> printbuffer cres" where
  "advance n p =
     (case pb_rest p of (s, nul) \<Rightarrow>
        if n \<le> length s then Inr (p\<lparr>pb_done := pb_done p @ take n s, pb_rest := (drop n s, nul)\<rparr>)
        else Inl BufferOverflow)"

definition c_text :: "string \<Rightarrow> string" where
  "c_text s = takeWhile (\<lambda>c. c \<noteq> CHR 0x00) s"

definition update_offset :: "printbuffer \<Rightarrow> printbuffer cres" where
  "update_offset p =
     (if \<not> pb_buffer p then Inr p
      else case pb_rest p of (s, nul) \<Rightarrow>
        if nul \<or> CHR 0x00 \<in> set s then advance (length (c_text s)) p else Inl BufferOverflow)"

type_synonym printed = "(bool \<times> printbuffer) cres"

text \<open>Reserve space, give up if there is none, go on otherwise.\<close>

definition reserve :: "(nat \<Rightarrow> bool) \<Rightarrow> nat \<Rightarrow> printbuffer \<Rightarrow> (printbuffer \<Rightarrow> printed) \<Rightarrow> printed" where
  "reserve alloc needed p k = (case ensure alloc needed p of (ok, p) \<Rightarrow> if ok then k p else Inr (False, p))"

definition finish :: "string \<Rightarrow> printbuffer \<Rightarrow> printed" where
  "finish s p = cbind (store s True p) (\<lambda>p. Inr (True, p))"

section \<open>Numbers and strings\<close>

definition sprintf_buffer :: "nat \<Rightarrow> string \<Rightarrow> string cres" where
  "sprintf_buffer cap s = (if length s < cap then Inr s else Inl BufferOverflow)"

definition number_text :: "double \<Rightarrow> string cres" where
  "number_text d =
     (case d of
        DInf _ \<Rightarrow> sprintf_buffer 26 ''null''
      | DFin r \<Rightarrow>
          cbind (sprintf_buffer 26 (fmt_g 15 r)) (\<lambda>t.
          if snd (strtod t) = 0 \<or> fst (strtod t) \<noteq> d then sprintf_buffer 26 (fmt_g 17 r) else Inr t))"

definition print_number :: "(nat \<Rightarrow> bool) \<Rightarrow> cjson \<Rightarrow> printbuffer \<Rightarrow> printed" where
  "print_number alloc item p =
     cbind (number_text (valuedouble item)) (\<lambda>t.
     if length t > 26 - 1 then Inr (False, p)
     else reserve alloc (length t + 1) p (\<lambda>p.
          cbind (store t True p) (\<lambda>p. cbind (advance (length t) p) (\<lambda>p. Inr (True, p)))))"

definition hex_char :: "nat \<Rightarrow> char" where
  "hex_char n = char_of (if n < 10 then 48 + n else 87 + n)"

definition escape_extra :: "char \<Rightarrow> nat" where
  "escape_extra c =
     (if c \<in> {CHR 0x22, CHR 0x5C, CHR 0x08, CHR 0x0C, CHR 0x0A, CHR 0x0D, CHR 0x09} then 1
      else if (of_char c :: nat) < 32 then 5 else 0)"

definition escape_text :: "char \<Rightarrow> string" where
  "escape_text c =
     (let n = of_char c :: nat in
      if n > 31 \<and> c \<noteq> CHR 0x22 \<and> c \<noteq> CHR 0x5C then [c]
      else CHR 0x5C #
        (if c = CHR 0x5C then [CHR 0x5C] else if c = CHR 0x22 then [CHR 0x22]
         else if c = CHR 0x08 then ''b'' else if c = CHR 0x0C then ''f''
         else if c = CHR 0x0A then ''n'' else if c = CHR 0x0D then ''r''
         else if c = CHR 0x09 then ''t''
         else ''u00'' @ [hex_char (n div 16), hex_char (n mod 16)]))"

text \<open>
  The closing quote goes to the position computed from the number of escapes, after the characters were copied; a
  position beyond the copied characters would leave a gap.
\<close>

definition print_string_ptr :: "(nat \<Rightarrow> bool) \<Rightarrow> cstr \<Rightarrow> printbuffer \<Rightarrow> printed" where
  "print_string_ptr alloc input p =
     (case input of
        None \<Rightarrow> reserve alloc 3 p (finish [CHR 0x22, CHR 0x22])
      | Some i \<Rightarrow>
          let s = c_text i;
              escape_characters = sum_list (map escape_extra s);
              output_length = length s + escape_characters in
          reserve alloc (output_length + 3) p (\<lambda>p.
          if escape_characters = 0 then finish (CHR 0x22 # s @ [CHR 0x22]) p
          else let e = concat (map escape_text s) in
               cbind (store (CHR 0x22 # e) True p) (\<lambda>p.
               if output_length \<le> length e then finish (CHR 0x22 # take output_length e @ [CHR 0x22]) p
               else Inl BufferOverflow)))"

definition print_string :: "(nat \<Rightarrow> bool) \<Rightarrow> cjson \<Rightarrow> printbuffer \<Rightarrow> printed" where
  "print_string alloc item p = print_string_ptr alloc (valuestring item) p"

section \<open>Values\<close>

type_synonym value_printer = "cjson \<Rightarrow> printbuffer \<Rightarrow> printed"

definition deeper :: "printbuffer \<Rightarrow> printbuffer" where
  "deeper p = p\<lparr>pb_depth := pb_depth p + 1\<rparr>"

definition shallower :: "printbuffer \<Rightarrow> printbuffer" where
  "shallower p = p\<lparr>pb_depth := pb_depth p - 1\<rparr>"

text \<open>Bytes written and skipped over by the offset.\<close>

definition emit_text :: "string \<Rightarrow> bool \<Rightarrow> printbuffer \<Rightarrow> (printbuffer \<Rightarrow> printed) \<Rightarrow> printed" where
  "emit_text s nul p k = cbind (store s nul p) (\<lambda>p. cbind (advance (length s) p) k)"

fun print_elements :: "(nat \<Rightarrow> bool) \<Rightarrow> value_printer \<Rightarrow> cjson list \<Rightarrow> printbuffer \<Rightarrow> printed" where
  "print_elements alloc pv [] p = Inr (True, p)"
| "print_elements alloc pv (c # cs) p =
     cbind (pv c p) (\<lambda>(ok, p).
     if \<not> ok then Inr (False, p)
     else cbind (update_offset p) (\<lambda>p.
          if cs = [] then Inr (True, p)
          else let sep = (if pb_format p then '', '' else '','') in
               reserve alloc (length sep + 1) p (\<lambda>p.
               emit_text sep True p (print_elements alloc pv cs))))"

definition print_array :: "(nat \<Rightarrow> bool) \<Rightarrow> value_printer \<Rightarrow> cjson list \<Rightarrow> printbuffer \<Rightarrow> printed" where
  "print_array alloc pv cs p =
     reserve alloc 1 p (\<lambda>p.
     emit_text ''['' False p (\<lambda>p.
     cbind (print_elements alloc pv cs (deeper p)) (\<lambda>(ok, p).
     if \<not> ok then Inr (False, p)
     else reserve alloc 2 p (\<lambda>p. cbind (store '']'' True p) (\<lambda>p. Inr (True, shallower p))))))"

definition tabs :: "nat \<Rightarrow> string" where
  "tabs n = replicate n (CHR 0x09)"

definition print_indent :: "(nat \<Rightarrow> bool) \<Rightarrow> printbuffer \<Rightarrow> (printbuffer \<Rightarrow> printed) \<Rightarrow> printed" where
  "print_indent alloc p k =
     (if pb_format p then reserve alloc (pb_depth p) p (\<lambda>p. emit_text (tabs (pb_depth p)) False p k) else k p)"

fun print_members :: "(nat \<Rightarrow> bool) \<Rightarrow> value_printer \<Rightarrow> cjson list \<Rightarrow> printbuffer \<Rightarrow> printed" where
  "print_members alloc pv [] p = Inr (True, p)"
| "print_members alloc pv (c # cs) p =
     print_indent alloc p (\<lambda>p.
     cbind (print_string_ptr alloc (cj_string c) p) (\<lambda>(ok, p).
     if \<not> ok then Inr (False, p)
     else cbind (update_offset p) (\<lambda>p.
          let colon = (if pb_format p then '':'' @ [CHR 0x09] else '':'') in
          reserve alloc (length colon) p (\<lambda>p.
          emit_text colon False p (\<lambda>p.
          cbind (pv c p) (\<lambda>(ok, p).
          if \<not> ok then Inr (False, p)
          else cbind (update_offset p) (\<lambda>p.
               let sep = (if cs \<noteq> [] then '','' else []) @ (if pb_format p then [CHR 0x0A] else []) in
               reserve alloc (length sep + 1) p (\<lambda>p.
               emit_text sep True p (print_members alloc pv cs)))))))))"

definition print_object :: "(nat \<Rightarrow> bool) \<Rightarrow> value_printer \<Rightarrow> cjson list \<Rightarrow> printbuffer \<Rightarrow> printed" where
  "print_object alloc pv cs p =
     (let open_text = (if pb_format p then ''{'' @ [CHR 0x0A] else ''{'') in
      reserve alloc (length open_text + 1) p (\<lambda>p.
      emit_text open_text False (deeper p) (\<lambda>p.
      cbind (print_members alloc pv cs p) (\<lambda>(ok, p).
      if \<not> ok then Inr (False, p)
      else reserve alloc (if pb_format p then pb_depth p + 1 else 2) p (\<lambda>p.
           cbind (store ((if pb_format p then tabs (pb_depth p - 1) else []) @ ''}'') True p) (\<lambda>p.
           Inr (True, shallower p)))))))"

lemma print_elements_cong:
  "cs = ds \<Longrightarrow> (\<And>c q. c \<in> set ds \<Longrightarrow> f c q = g c q) \<Longrightarrow> print_elements alloc f cs p = print_elements alloc g ds p"
proof (induction ds arbitrary: cs p)
  case (Cons d ds)
  have rec: "print_elements alloc f ds = print_elements alloc g ds"
    using Cons.IH [OF refl] Cons.prems(2) by (intro ext) auto
  have one: "f d = g d" using Cons.prems(2) by (intro ext) auto
  show ?case unfolding Cons.prems(1) by (simp only: print_elements.simps rec one)
qed simp

lemma print_members_cong:
  "cs = ds \<Longrightarrow> (\<And>c q. c \<in> set ds \<Longrightarrow> f c q = g c q) \<Longrightarrow> print_members alloc f cs p = print_members alloc g ds p"
proof (induction ds arbitrary: cs p)
  case (Cons d ds)
  have rec: "print_members alloc f ds = print_members alloc g ds"
    using Cons.IH [OF refl] Cons.prems(2) by (intro ext) auto
  have one: "f d = g d" using Cons.prems(2) by (intro ext) auto
  show ?case unfolding Cons.prems(1) by (simp only: print_members.simps rec one)
qed simp

lemma print_array_cong [fundef_cong]:
  "cs = ds \<Longrightarrow> p = q \<Longrightarrow> (\<And>c q. c \<in> set ds \<Longrightarrow> f c q = g c q) \<Longrightarrow> print_array alloc f cs p = print_array alloc g ds q"
  unfolding print_array_def using print_elements_cong [of ds ds f g] by simp

lemma print_object_cong [fundef_cong]:
  "cs = ds \<Longrightarrow> p = q \<Longrightarrow> (\<And>c q. c \<in> set ds \<Longrightarrow> f c q = g c q) \<Longrightarrow> print_object alloc f cs p = print_object alloc g ds q"
  unfolding print_object_def using print_members_cong [of ds ds f g] by simp

fun print_value :: "(nat \<Rightarrow> bool) \<Rightarrow> cjson \<Rightarrow> printbuffer \<Rightarrow> printed" where
  "print_value alloc (CJson ty vs vi vd s cs) p =
     (let t = ty AND 0xFF in
      if t = cJSON_NULL then reserve alloc 5 p (finish ''null'')
      else if t = cJSON_False then reserve alloc 6 p (finish ''false'')
      else if t = cJSON_True then reserve alloc 5 p (finish ''true'')
      else if t = cJSON_Number then print_number alloc (CJson ty vs vi vd s cs) p
      else if t = cJSON_Raw then
        (case vs of
           None \<Rightarrow> Inr (False, p)
         | Some raw \<Rightarrow> reserve alloc (length (c_text raw) + 1) p (finish (c_text raw)))
      else if t = cJSON_String then print_string alloc (CJson ty vs vi vd s cs) p
      else if t = cJSON_Array then print_array alloc (print_value alloc) cs p
      else if t = cJSON_Object then print_object alloc (print_value alloc) cs p
      else Inr (False, p))"

declare print_value.simps [simp del]

section \<open>Entry points\<close>

definition print_buffer :: "nat \<Rightarrow> bool \<Rightarrow> bool \<Rightarrow> printbuffer" where
  "print_buffer len noalloc fmt =
     \<lparr>pb_buffer = True, pb_length = len, pb_done = [], pb_rest = ([], False), pb_depth = 0, pb_noalloc = noalloc,
      pb_format = fmt\<rparr>"

definition buffer_text :: "printbuffer \<Rightarrow> string" where
  "buffer_text p = c_text (pb_done p @ fst (pb_rest p))"

definition print :: "(nat \<Rightarrow> bool) \<Rightarrow> cjson option \<Rightarrow> bool \<Rightarrow> cstr cres" where
  "print alloc item fmt =
     (if \<not> alloc 256 then Inr None
      else case item of
        None \<Rightarrow> Inr None
      | Some j \<Rightarrow>
          cbind (print_value alloc j (print_buffer 256 False fmt)) (\<lambda>(ok, p).
          if \<not> ok then Inr None
          else cbind (update_offset p) (\<lambda>p.
               if alloc (pb_offset p + 1) then Inr (Some (buffer_text p)) else Inr None)))"

definition cJSON_Print :: "(nat \<Rightarrow> bool) \<Rightarrow> cjson option \<Rightarrow> cstr cres" where
  "cJSON_Print alloc item = print alloc item True"

definition cJSON_PrintUnformatted :: "(nat \<Rightarrow> bool) \<Rightarrow> cjson option \<Rightarrow> cstr cres" where
  "cJSON_PrintUnformatted alloc item = print alloc item False"

definition cJSON_PrintBuffered :: "(nat \<Rightarrow> bool) \<Rightarrow> cjson option \<Rightarrow> int \<Rightarrow> bool \<Rightarrow> cstr cres" where
  "cJSON_PrintBuffered alloc item prebuffer fmt =
     (if prebuffer < 0 \<or> \<not> alloc (nat prebuffer) then Inr None
      else case item of
        None \<Rightarrow> Inr None
      | Some j \<Rightarrow>
          cbind (print_value alloc j (print_buffer (nat prebuffer) False fmt)) (\<lambda>(ok, p).
          if \<not> ok then Inr None else Inr (Some (buffer_text p))))"

text \<open>The caller's buffer: what it holds after a success.\<close>

text \<open>The flag \<open>buf\<close> says that the caller's buffer is not NULL.\<close>

definition cJSON_PrintPreallocated :: "(nat \<Rightarrow> bool) \<Rightarrow> cjson option \<Rightarrow> bool \<Rightarrow> int \<Rightarrow> bool \<Rightarrow> cstr cres" where
  "cJSON_PrintPreallocated alloc item buf len fmt =
     (if len < 0 \<or> \<not> buf then Inr None
      else case item of
        None \<Rightarrow> Inr None
      | Some j \<Rightarrow>
          cbind (print_value alloc j (print_buffer (nat len) True fmt)) (\<lambda>(ok, p).
          if \<not> ok then Inr None else Inr (Some (buffer_text p))))"

end
