(* ===== verification/Cjson_Text.thy ===== *)
theory Cjson_Text
  imports Cjson_Print
begin

unbundle bit_operations_syntax

text \<open>
  What the printer of \<open>cJSON.c\<close> prints. \<open>text_of\<close> is the specification: the text of a tree, without buffers. The
  printer is shown to refine it: it never leaves its buffer, a text it returns is the specified one, and it
  does return it when memory can be had and the text is below half of \<open>INT_MAX\<close>. The
  relation \<open>writes\<close> says that a piece of the printer writes a given text from the current offset on; its rules
  follow the way the functions are put together.
\<close>

section \<open>The specified text\<close>

definition ocat :: "string option \<Rightarrow> string option \<Rightarrow> string option" where
  "ocat a b = (case a of None \<Rightarrow> None | Some x \<Rightarrow> map_option (append x) b)"

lemma ocat_simps [simp]: "ocat None b = None" "ocat (Some x) (Some y) = Some (x @ y)" "ocat (Some x) None = None"
  by (simp_all add: ocat_def)

lemma ocat_Some_iff: "ocat a b = Some s \<longleftrightarrow> (\<exists>x y. a = Some x \<and> b = Some y \<and> s = x @ y)"
  by (auto simp: ocat_def split: option.splits)

definition string_text :: "cstr \<Rightarrow> string" where
  "string_text v = CHR 0x22 # (case v of None \<Rightarrow> [] | Some i \<Rightarrow> concat (map escape_text (c_text i))) @ [CHR 0x22]"

definition number_string :: "double \<Rightarrow> string" where
  "number_string d =
     (case d of DInf _ \<Rightarrow> ''null''
      | DFin r \<Rightarrow> if fst (strtod (fmt_g 15 r)) = d then fmt_g 15 r else fmt_g 17 r)"

fun text_elements :: "bool \<Rightarrow> string option list \<Rightarrow> string option" where
  "text_elements fmt [] = Some []"
| "text_elements fmt (t # ts) =
     (if ts = [] then t else ocat t (ocat (Some (if fmt then '', '' else '','')) (text_elements fmt ts)))"

fun text_members :: "bool \<Rightarrow> nat \<Rightarrow> (cstr \<times> string option) list \<Rightarrow> string option" where
  "text_members fmt d [] = Some []"
| "text_members fmt d ((k, t) # ms) =
     ocat (Some (if fmt then tabs d else []))
       (ocat (Some (string_text k))
         (ocat (Some (if fmt then '':'' @ [CHR 0x09] else '':''))
           (ocat t (ocat (Some ((if ms \<noteq> [] then '','' else []) @ (if fmt then [CHR 0x0A] else [])))
             (text_members fmt d ms)))))"

fun text_of :: "bool \<Rightarrow> nat \<Rightarrow> cjson \<Rightarrow> string option" where
  "text_of fmt d (CJson ty vs vi vd s cs) =
     (let t = ty AND 0xFF in
      if t = cJSON_NULL then Some ''null''
      else if t = cJSON_False then Some ''false''
      else if t = cJSON_True then Some ''true''
      else if t = cJSON_Number then Some (number_string vd)
      else if t = cJSON_Raw then map_option c_text vs
      else if t = cJSON_String then Some (string_text vs)
      else if t = cJSON_Array then
        ocat (Some ''['') (ocat (text_elements fmt (map (text_of fmt (Suc d)) cs)) (Some '']''))
      else if t = cJSON_Object then
        ocat (Some (if fmt then ''{'' @ [CHR 0x0A] else ''{''))
          (ocat (text_members fmt (Suc d) (map (\<lambda>c. (cj_string c, text_of fmt (Suc d) c)) cs))
            (Some ((if fmt then tabs d else []) @ ''}'')))
      else None)"

declare text_of.simps [simp del]

section \<open>Writing a text\<close>

definition usable_buffer :: "printbuffer \<Rightarrow> bool" where
  "usable_buffer p \<longleftrightarrow> pb_buffer p \<and> (pb_length p = 0 \<or> pb_offset p < pb_length p)"

definition framed :: "printbuffer \<Rightarrow> nat \<Rightarrow> printbuffer \<Rightarrow> bool" where
  "framed p d q \<longleftrightarrow> pb_noalloc q = pb_noalloc p \<and> pb_format q = pb_format p \<and> pb_depth q = d
     \<and> (pb_noalloc p \<longrightarrow> pb_length q = pb_length p)"

text \<open>The text stands from the old offset on, partly behind the new one, with a NUL after it.\<close>

definition written :: "printbuffer \<Rightarrow> string \<Rightarrow> nat \<Rightarrow> printbuffer \<Rightarrow> bool" where
  "written p s d q \<longleftrightarrow> pb_buffer q \<and> framed p d q \<and> CHR 0x00 \<notin> set s
     \<and> (\<exists>s1 s2. s = s1 @ s2 \<and> pb_done q = pb_done p @ s1 \<and> pb_rest q = (s2, True) \<and> pb_offset q + length s2 < pb_length q)"

text \<open>The text stands before the new offset.\<close>

definition passed :: "printbuffer \<Rightarrow> string \<Rightarrow> nat \<Rightarrow> printbuffer \<Rightarrow> bool" where
  "passed p s d q \<longleftrightarrow> usable_buffer q \<and> framed p d q \<and> CHR 0x00 \<notin> set s \<and> pb_done q = pb_done p @ s"

definition room :: "(nat \<Rightarrow> bool) \<Rightarrow> printbuffer \<Rightarrow> nat \<Rightarrow> bool" where
  "room alloc p n \<longleftrightarrow>
     (if pb_noalloc p then pb_offset p + n + 4 \<le> min (pb_length p) INT_MAX_SIZE
      else (\<forall>m. alloc m) \<and> pb_offset p + n + 4 \<le> INT_MAX_SIZE div 2)"

type_synonym buffer_post = "printbuffer \<Rightarrow> string \<Rightarrow> nat \<Rightarrow> printbuffer \<Rightarrow> bool"

definition outcome :: "buffer_post \<Rightarrow> (nat \<Rightarrow> bool) \<Rightarrow> printbuffer \<Rightarrow> string option \<Rightarrow> nat \<Rightarrow> printed \<Rightarrow> bool" where
  "outcome P alloc p so d r \<longleftrightarrow>
     (\<exists>ok q. r = Inr (ok, q) \<and> (ok \<longrightarrow> (\<exists>s. so = Some s \<and> P p s d q))
       \<and> (\<forall>s. so = Some s \<and> room alloc p (length s) \<longrightarrow> ok))"

abbreviation writes :: "(nat \<Rightarrow> bool) \<Rightarrow> printbuffer \<Rightarrow> string option \<Rightarrow> nat \<Rightarrow> printed \<Rightarrow> bool" where
  "writes \<equiv> outcome written"

abbreviation passes :: "(nat \<Rightarrow> bool) \<Rightarrow> printbuffer \<Rightarrow> string option \<Rightarrow> nat \<Rightarrow> printed \<Rightarrow> bool" where
  "passes \<equiv> outcome passed"

lemma outcome_ok: "P p s d q \<Longrightarrow> outcome P alloc p (Some s) d (Inr (True, q))"
  unfolding outcome_def by blast

lemma outcome_failed:
  assumes "\<And>s. so = Some s \<Longrightarrow> \<not> room alloc p (length s)"
  shows "outcome P alloc p so d (Inr (False, q))"
  unfolding outcome_def using assms by blast

lemma outcome_cases:
  assumes "outcome P alloc p so d r"
  obtains (ok) s q where "r = Inr (True, q)" "so = Some s" "P p s d q"
  | (failed) q where "r = Inr (False, q)" "\<And>s. so = Some s \<Longrightarrow> \<not> room alloc p (length s)"
  using assms unfolding outcome_def by (metis (full_types))

lemma room_less: "room alloc p n \<Longrightarrow> m \<le> n \<Longrightarrow> room alloc p m"
  by (auto simp: room_def split: if_splits)

lemma room_passed: "passed p t e q \<Longrightarrow> room alloc p (length t + n) \<Longrightarrow> room alloc q n"
  by (auto simp: room_def passed_def framed_def pb_offset_def split: if_splits)

lemma passed_trans: "passed p t e q \<Longrightarrow> passed q s d r \<Longrightarrow> passed p (t @ s) d r"
  by (simp add: passed_def framed_def)

lemma written_trans: "passed p t e q \<Longrightarrow> written q s d r \<Longrightarrow> written p (t @ s) d r"
  by (auto simp: passed_def written_def framed_def)

text \<open>The contract of one step of the printer: the space it asks for is there, or the printer gives up.\<close>

lemma reserve_cases:
  assumes "usable_buffer p"
  obtains (fail) q where "reserve alloc n p k = Inr (False, q)" "\<And>m. n \<le> m + 3 \<Longrightarrow> \<not> room alloc p m"
  | (grown) l where "reserve alloc n p k = k (p\<lparr>pb_length := l\<rparr>)" "pb_offset p + n + 1 \<le> l" "pb_noalloc p \<longrightarrow> l = pb_length p"
proof (cases "ensure alloc n p")
  case (Pair ok q)
  show ?thesis
  proof (cases ok)
    case True
    with Pair have "q = p\<lparr>pb_length := pb_length q\<rparr> \<and> pb_offset p + n + 1 \<le> pb_length q
        \<and> (pb_noalloc p \<longrightarrow> pb_length q = pb_length p)"
      by (simp add: ensure_def Let_def split: if_splits; force)
    with Pair True show ?thesis by (simp add: reserve_def grown [of "pb_length q"])
  next
    case False
    have "\<not> room alloc p m" if "n \<le> m + 3" for m
      using Pair False assms that
      by (simp add: ensure_def Let_def usable_buffer_def INT_MAX_SIZE_def room_def split: if_splits; blast | linarith)
    with Pair False show ?thesis by (simp add: reserve_def fail [of q])
  qed
qed

text \<open>A postcondition that holds of a text holds of a longer one, when the printer had passed its beginning.\<close>

locale post_condition =
  fixes P :: buffer_post
  assumes extend: "passed p t e q \<Longrightarrow> P q s d r \<Longrightarrow> P p (t @ s) d r"
begin

lemma outcome_after:
  assumes "passed p t e q" "outcome P alloc q so d r"
  shows "outcome P alloc p (ocat (Some t) so) d r"
  using assms(2)
proof (cases rule: outcome_cases)
  case (ok s r')
  then show ?thesis using extend [OF assms(1)] by (simp add: outcome_ok)
next
  case (failed r')
  have "\<not> room alloc p (length s)" if "ocat (Some t) so = Some s" for s
    using that failed(2) room_passed [OF assms(1)] by (auto simp: ocat_Some_iff)
  then show ?thesis using failed(1) by (simp add: outcome_failed)
qed

lemma outcome_emit:
  assumes "usable_buffer p" "length t \<le> n" "\<And>s. so = Some s \<Longrightarrow> n \<le> length t + length s + 3" "CHR 0x00 \<notin> set t"
    and rest: "\<And>q. passed p t (pb_depth p) q \<Longrightarrow> outcome P alloc q so d (k q)"
  shows "outcome P alloc p (ocat (Some t) so) d (reserve alloc n p (\<lambda>p. emit_text t nul p k))"
  using assms(1)
proof (cases rule: reserve_cases [of _ alloc n "\<lambda>p. emit_text t nul p k"])
  case (fail q)
  have "\<not> room alloc p (length s)" if "ocat (Some t) so = Some s" for s
    using that fail(2) assms(3) by (auto simp: ocat_Some_iff)
  then show ?thesis using fail(1) by (simp add: outcome_failed)
next
  case (grown l)
  define q where "q = p\<lparr>pb_length := l, pb_done := pb_done p @ t, pb_rest := ([], nul)\<rparr>"
  have "emit_text t nul (p\<lparr>pb_length := l\<rparr>) k = k q"
    using grown(2,3) assms(2) by (simp add: emit_text_def store_def advance_def pb_offset_def q_def)
  moreover have "passed p t (pb_depth p) q"
    using grown(2,3) assms(1,2,4) by (simp add: passed_def usable_buffer_def framed_def pb_offset_def q_def)
  ultimately show ?thesis using outcome_after rest grown(1) by simp
qed

lemma outcome_bind:
  assumes "passes alloc p so d r" "\<And>s q. passed p s d q \<Longrightarrow> outcome P alloc q so' d' (k q)"
  shows "outcome P alloc p (ocat so so') d' (cbind r (\<lambda>(ok, p). if \<not> ok then Inr (False, p) else k p))"
  using assms(1)
proof (cases rule: outcome_cases)
  case (ok s q)
  then show ?thesis using outcome_after assms(2) by simp
next
  case (failed q)
  have "\<not> room alloc p (length s)" if "ocat so so' = Some s" for s
    using that failed(2) room_less by (fastforce simp: ocat_Some_iff)
  then show ?thesis using failed(1) by (simp add: outcome_failed)
qed

end

interpretation finished: post_condition written
  by unfold_locales (rule written_trans)

interpretation onward: post_condition passed
  by unfold_locales (rule passed_trans)

lemma update_offset_written:
  assumes "written p s d q"
  shows "\<exists>q'. update_offset q = Inr q' \<and> passed p s d q' \<and> pb_rest q' = ([], True)"
proof -
  obtain s1 s2 where s: "s = s1 @ s2" "pb_done q = pb_done p @ s1" "pb_rest q = (s2, True)" "pb_offset q + length s2 < pb_length q"
    and b: "pb_buffer q" "framed p d q" "CHR 0x00 \<notin> set s" using assms by (auto simp: written_def)
  have "c_text s2 = s2" using b(3) s(1) by (auto simp: c_text_def takeWhile_eq_all_conv)
  then have "update_offset q = Inr (q\<lparr>pb_done := pb_done p @ s, pb_rest := ([], True)\<rparr>)"
    using b s by (simp add: update_offset_def advance_def)
  moreover have "passed p s d (q\<lparr>pb_done := pb_done p @ s, pb_rest := ([], True)\<rparr>)"
    using b s by (simp add: passed_def usable_buffer_def framed_def pb_offset_def)
  ultimately show ?thesis by auto
qed

text \<open>\<open>update_offset\<close> after a callee turns a written text into a passed one.\<close>

lemma passes_update:
  assumes "writes alloc p so d r"
  shows "passes alloc p so d (cbind r (\<lambda>(ok, p). if \<not> ok then Inr (False, p) else cbind (update_offset p) (\<lambda>p. Inr (True, p))))"
  using assms
proof (cases rule: outcome_cases)
  case (ok s q)
  then show ?thesis using update_offset_written [OF ok(3)] by (auto intro: outcome_ok)
next
  case (failed q)
  then show ?thesis by (simp add: outcome_failed)
qed

lemma update_bind:
  "cbind r (\<lambda>(ok, p). if \<not> ok then Inr (False, p) else cbind (update_offset p) k)
   = cbind (cbind r (\<lambda>(ok, p). if \<not> ok then Inr (False, p) else cbind (update_offset p) (\<lambda>p. Inr (True, p))))
       (\<lambda>(ok, p). if \<not> ok then Inr (False, p) else k p)"
  unfolding cbind_assoc by (rule cbind_cong [OF refl]) (auto simp: cbind_assoc)

lemma passes_seq:
  assumes "writes alloc p so d r" "\<And>s q. passed p s d q \<Longrightarrow> passes alloc q so' d' (k q)"
  shows "passes alloc p (ocat so so') d' (cbind r (\<lambda>(ok, p). if \<not> ok then Inr (False, p) else cbind (update_offset p) k))"
  by (subst update_bind) (rule onward.outcome_bind [OF passes_update [OF assms(1)] assms(2)])

lemma writes_finish:
  assumes "usable_buffer p" "length t \<le> n" "n \<le> length t + 3" "CHR 0x00 \<notin> set t" "d = pb_depth p"
  shows "writes alloc p (Some t) d (reserve alloc n p (finish t))"
  using assms(1)
proof (cases rule: reserve_cases [of _ alloc n "finish t"])
  case (fail q)
  then show ?thesis using assms(3) by (auto intro: outcome_failed)
next
  case (grown l)
  have "finish t (p\<lparr>pb_length := l\<rparr>) = Inr (True, p\<lparr>pb_length := l, pb_rest := (t, True)\<rparr>)"
    using grown(2,3) assms(2) by (simp add: finish_def store_def pb_offset_def)
  moreover have "written p t d (p\<lparr>pb_length := l, pb_rest := (t, True)\<rparr>)"
    using grown(2,3) assms by (auto simp: written_def framed_def pb_offset_def usable_buffer_def)
  ultimately show ?thesis using grown(1) by (simp add: outcome_ok)
qed

section \<open>Strings and numbers\<close>

lemma escape_text_length: "length (escape_text c) = 1 + escape_extra c"
proof (cases "c \<in> {CHR 0x22, CHR 0x5C, CHR 0x08, CHR 0x0C, CHR 0x0A, CHR 0x0D, CHR 0x09}")
  case True
  then show ?thesis by (elim insertE) (simp_all add: escape_text_def escape_extra_def)
next
  case False
  then show ?thesis by (simp add: escape_text_def escape_extra_def Let_def)
qed

lemma escape_text_plain:
  assumes "escape_extra c = 0"
  shows "escape_text c = [c]"
proof -
  have "c \<notin> {CHR 0x22, CHR 0x5C, CHR 0x08, CHR 0x0C, CHR 0x0A, CHR 0x0D, CHR 0x09} \<and> \<not> (of_char c :: nat) < 32"
    using assms unfolding escape_extra_def by (metis zero_neq_numeral zero_neq_one)
  then show ?thesis by (simp add: escape_text_def Let_def)
qed

lemma hex_char_code: "n < 16 \<Longrightarrow> (of_char (hex_char n) :: nat) = (if n < 10 then 48 + n else 87 + n)"
  by (simp add: hex_char_def)

lemma of_char_zero: "(of_char (CHR 0x00) :: nat) = 0"
  by simp

lemma escape_text_no_nul:
  assumes "c \<noteq> CHR 0x00"
  shows "CHR 0x00 \<notin> set (escape_text c)"
proof -
  have "(of_char c :: nat) < 256" by (rule nat_of_char_less_256)
  then have "(of_char c :: nat) div 16 < 16" "(of_char c :: nat) mod 16 < 16" by linarith+
  then have "of_char (hex_char (of_char c div 16)) \<noteq> (0 :: nat)" "of_char (hex_char (of_char c mod 16)) \<noteq> (0 :: nat)"
    by (simp_all add: hex_char_code)
  then have hex: "hex_char (of_char c div 16) \<noteq> CHR 0x00" "hex_char (of_char c mod 16) \<noteq> CHR 0x00"
    by (metis of_char_zero)+
  show ?thesis unfolding escape_text_def Let_def by (auto simp: assms [symmetric] hex [symmetric])
qed

lemma escape_length: "length (concat (map escape_text s)) = length s + sum_list (map escape_extra s)"
  by (induction s) (simp_all add: escape_text_length)

lemma escape_plain: "sum_list (map escape_extra s) = 0 \<Longrightarrow> concat (map escape_text s) = s"
  by (induction s) (simp_all add: escape_text_plain)

lemma c_text_no_nul: "CHR 0x00 \<notin> set (c_text s)"
  by (auto simp: c_text_def dest: set_takeWhileD)

lemma string_text_no_nul: "CHR 0x00 \<notin> set (string_text v)"
proof -
  have "CHR 0x00 \<notin> set (concat (map escape_text (c_text i)))" for i
  proof -
    have "CHR 0x00 \<notin> set (escape_text c)" if "c \<in> set (c_text i)" for c
      using that c_text_no_nul [of i] by (intro escape_text_no_nul) blast
    then show ?thesis by auto
  qed
  then show ?thesis by (simp add: string_text_def split: option.split)
qed

lemma store_finish: "length a \<le> length t \<Longrightarrow> cbind (store a True p) (finish t) = finish t p"
  by (simp add: store_def finish_def pb_offset_def)

lemma writes_string:
  assumes "usable_buffer p" "d = pb_depth p"
  shows "writes alloc p (Some (string_text v)) d (print_string_ptr alloc v p)"
proof (cases v)
  case None
  have "writes alloc p (Some (string_text v)) d (reserve alloc 3 p (finish (string_text v)))"
    using assms string_text_no_nul [of v] None by (intro writes_finish) (simp_all add: string_text_def)
  then show ?thesis by (simp add: print_string_ptr_def None string_text_def)
next
  case (Some i)
  define e where "e = concat (map escape_text (c_text i))"
  define x where "x = sum_list (map escape_extra (c_text i))"
  have t: "string_text v = CHR 0x22 # e @ [CHR 0x22]" and len: "length e = length (c_text i) + x"
    using Some by (simp_all add: string_text_def e_def x_def escape_length)
  have k: "(if x = 0 then finish (CHR 0x22 # c_text i @ [CHR 0x22]) q
      else cbind (store (CHR 0x22 # e) True q) (finish (CHR 0x22 # e @ [CHR 0x22])))
    = finish (CHR 0x22 # e @ [CHR 0x22]) q" for q
  proof (cases "x = 0")
    case True
    then have "e = c_text i" unfolding e_def x_def by (rule escape_plain)
    then show ?thesis using True by simp
  qed (simp add: store_finish)
  have "writes alloc p (Some (string_text v)) d (reserve alloc (length e + 3) p (finish (string_text v)))"
    using assms string_text_no_nul [of v] by (intro writes_finish) (simp_all add: t)
  then show ?thesis
    unfolding print_string_ptr_def Some option.case Let_def e_def [symmetric] x_def [symmetric]
      len [symmetric] t [unfolded Some] take_all [OF order_refl] if_P [OF order_refl] k .
qed

lemma fmt_g_read: "snd (strtod (fmt_g P r)) = length (fmt_g P r)" "fmt_g P r \<noteq> []" "CHR 0x00 \<notin> set (fmt_g P r)"
proof -
  obtain neg ip fp ex where sh: "num_text neg ip fp ex (fmt_g P r)" using fmt_g_shape by blast
  have nul: "\<not> number_char (CHR 0x00)" by (simp add: number_char_def is_digit_def)
  show "snd (strtod (fmt_g P r)) = length (fmt_g P r)" by (simp add: strtod_num_text [OF sh])
  show "fmt_g P r \<noteq> []" by (rule num_text_chars(2) [OF sh])
  show "CHR 0x00 \<notin> set (fmt_g P r)" using num_text_chars(1) [OF sh] nul by blast
qed

lemma number_text_spec:
  assumes "in_range d"
  shows "number_text d = Inr (number_string d)" "length (number_string d) < 26"
proof -
  have fmt: "length (fmt_g 15 r) < 26 \<and> length (fmt_g 17 r) < 26" if "d = DFin r" for r
    using assms that fmt_g_length [of r 15] fmt_g_length [of r 17] by simp
  show "number_text d = Inr (number_string d)" "length (number_string d) < 26"
    using fmt by (simp_all add: number_text_def number_string_def sprintf_buffer_def fmt_g_read split: double.splits)
qed

lemma number_string_no_nul: "CHR 0x00 \<notin> set (number_string d)"
  by (simp add: number_string_def fmt_g_read split: double.splits)

lemma writes_number:
  assumes "usable_buffer p" "d = pb_depth p" "in_range (valuedouble j)"
  shows "writes alloc p (Some (number_string (valuedouble j))) d (print_number alloc j p)"
proof -
  define t where "t = number_string (valuedouble j)"
  have t: "number_text (valuedouble j) = Inr t" "\<not> length t > 26 - 1" "CHR 0x00 \<notin> set t"
    using number_text_spec [OF assms(3)] number_string_no_nul by (auto simp: t_def)
  have "writes alloc p (Some t) d (reserve alloc (length t + 1) p (\<lambda>p.
          cbind (store t True p) (\<lambda>p. cbind (advance (length t) p) (\<lambda>p. Inr (True, p)))))"
    using assms(1)
  proof (cases rule: reserve_cases [of _ alloc "length t + 1" "\<lambda>p. cbind (store t True p) (\<lambda>p. cbind (advance (length t) p) (\<lambda>p. Inr (True, p)))"])
    case (fail q)
    then show ?thesis by (auto intro: outcome_failed)
  next
    case (grown l)
    have "written p t d (p\<lparr>pb_length := l, pb_done := pb_done p @ t, pb_rest := ([], True)\<rparr>)"
      using grown(2,3) assms t(3) by (auto simp: written_def framed_def pb_offset_def usable_buffer_def)
    then show ?thesis using grown by (simp add: store_def advance_def pb_offset_def outcome_ok)
  qed
  then show ?thesis using t(1,2) by (simp add: print_number_def flip: t_def)
qed

section \<open>Arrays and objects\<close>

definition printing :: "bool \<Rightarrow> nat \<Rightarrow> printbuffer \<Rightarrow> bool" where
  "printing fmt d p \<longleftrightarrow> usable_buffer p \<and> pb_format p = fmt \<and> pb_depth p = d"

lemma printing_passed: "passed p s d q \<Longrightarrow> pb_format p = fmt \<Longrightarrow> printing fmt d q"
  by (simp add: printing_def passed_def framed_def)

lemma printingD: "printing fmt d p \<Longrightarrow> usable_buffer p" "printing fmt d p \<Longrightarrow> pb_format p = fmt" "printing fmt d p \<Longrightarrow> pb_depth p = d"
  by (simp_all add: printing_def)

text \<open>What a value printer promises of the items it is used on.\<close>

definition prints :: "(nat \<Rightarrow> bool) \<Rightarrow> value_printer \<Rightarrow> (cjson \<Rightarrow> string option) \<Rightarrow> bool \<Rightarrow> nat \<Rightarrow> cjson list \<Rightarrow> bool" where
  "prints alloc pv tx fmt d cs \<longleftrightarrow> (\<forall>c \<in> set cs. \<forall>p. printing fmt d p \<longrightarrow> writes alloc p (tx c) d (pv c p))"

lemma prints_Cons: "prints alloc pv tx fmt d (c # cs) \<longleftrightarrow>
    (\<forall>p. printing fmt d p \<longrightarrow> writes alloc p (tx c) d (pv c p)) \<and> prints alloc pv tx fmt d cs"
  by (auto simp: prints_def)

lemma passes_nothing: "printing fmt d p \<Longrightarrow> passes alloc p (Some []) d (Inr (True, p))"
  by (rule outcome_ok) (simp add: passed_def framed_def printing_def)

lemma passes_elements:
  assumes "prints alloc pv tx fmt d cs" "printing fmt d p"
  shows "passes alloc p (text_elements fmt (map tx cs)) d (print_elements alloc pv cs p)"
  using assms
proof (induction cs arbitrary: p)
  case Nil
  then show ?case by (simp add: passes_nothing)
next
  case (Cons c cs)
  define sep where "sep = (if fmt then '', '' else '','')"
  have w: "writes alloc p (tx c) d (pv c p)" and cs: "prints alloc pv tx fmt d cs"
    using Cons.prems by (auto simp: prints_Cons)
  show ?case
  proof (cases "cs = []")
    case True
    then show ?thesis using passes_update [OF w] by (simp cong: if_cong)
  next
    case False
    have k: "passes alloc q (ocat (Some sep) (text_elements fmt (map tx cs))) d
        (reserve alloc (length sep + 1) q (\<lambda>p. emit_text sep True p (print_elements alloc pv cs)))"
      if "printing fmt d q" for q
      using that Cons.IH [OF cs]
      by (intro onward.outcome_emit) (auto simp: sep_def printing_passed printingD)
    have "passes alloc p (ocat (tx c) (ocat (Some sep) (text_elements fmt (map tx cs)))) d
        (cbind (pv c p) (\<lambda>(ok, p). if \<not> ok then Inr (False, p) else cbind (update_offset p) (\<lambda>p.
          let sep = (if pb_format p then '', '' else '','') in
          reserve alloc (length sep + 1) p (\<lambda>p. emit_text sep True p (print_elements alloc pv cs)))))"
    proof (rule passes_seq [OF w])
      fix s q assume "passed p s d q"
      then have q: "printing fmt d q" using Cons.prems(2) by (simp add: printing_passed printingD)
      show "passes alloc q (ocat (Some sep) (text_elements fmt (map tx cs))) d (let sep = (if pb_format q then '', '' else '','') in
          reserve alloc (length sep + 1) q (\<lambda>p. emit_text sep True p (print_elements alloc pv cs)))"
        using k [OF q] by (simp only: Let_def printingD(2) [OF q] sep_def)
    qed
    then show ?thesis using False by (simp add: sep_def cong: if_cong)
  qed
qed

lemma passes_indent:
  assumes "printing fmt d p" "post_condition P"
    and rest: "\<And>q. printing fmt d q \<Longrightarrow> outcome P alloc q so d' (k q)"
  shows "outcome P alloc p (ocat (Some (if fmt then tabs d else [])) so) d' (print_indent alloc p k)"
proof (cases fmt)
  case True
  have "outcome P alloc p (ocat (Some (tabs d)) so) d' (reserve alloc d p (\<lambda>p. emit_text (tabs d) False p k))"
    using assms by (intro post_condition.outcome_emit) (auto simp: tabs_def printing_passed printingD)
  moreover have "reserve alloc d p (\<lambda>p. emit_text (tabs (pb_depth p)) False p k) = reserve alloc d p (\<lambda>p. emit_text (tabs d) False p k)"
    using assms(1) by (simp add: reserve_def ensure_def Let_def printing_def)
  ultimately show ?thesis using assms(1) True by (simp add: print_indent_def printingD)
next
  case False
  have "ocat (Some []) so = so" by (cases so) simp_all
  then show ?thesis using assms(1) rest False by (simp add: print_indent_def printingD)
qed

lemma passes_members:
  assumes "prints alloc pv tx fmt d cs" "printing fmt d p"
  shows "passes alloc p (text_members fmt d (map (\<lambda>c. (cj_string c, tx c)) cs)) d (print_members alloc pv cs p)"
  using assms
proof (induction cs arbitrary: p)
  case Nil
  then show ?case by (simp add: passes_nothing)
next
  case (Cons c cs)
  define colon where "colon = (if fmt then '':'' @ [CHR 0x09] else '':'')"
  define sep where "sep = (if cs \<noteq> [] then '','' else []) @ (if fmt then [CHR 0x0A] else [])"
  define ms where "ms = text_members fmt d (map (\<lambda>c. (cj_string c, tx c)) cs)"
  define k1 where "k1 = (\<lambda>p. let sep = (if cs \<noteq> [] then '','' else []) @ (if pb_format p then [CHR 0x0A] else []) in
      reserve alloc (length sep + 1) p (\<lambda>p. emit_text sep True p (print_members alloc pv cs)))"
  define k2 where "k2 = (\<lambda>p. cbind (pv c p) (\<lambda>(ok, p). if \<not> ok then Inr (False, p) else cbind (update_offset p) k1))"
  define k3 where "k3 = (\<lambda>p. let colon = (if pb_format p then '':'' @ [CHR 0x09] else '':'') in
      reserve alloc (length colon) p (\<lambda>p. emit_text colon False p k2))"
  define k4 where "k4 = (\<lambda>p. cbind (print_string_ptr alloc (cj_string c) p)
      (\<lambda>(ok, p). if \<not> ok then Inr (False, p) else cbind (update_offset p) k3))"
  have cs: "prints alloc pv tx fmt d cs" using Cons.prems by (simp add: prints_Cons)
  have 1: "passes alloc q (ocat (Some sep) ms) d (k1 q)" if "printing fmt d q" for q
    unfolding k1_def Let_def printingD(2) [OF that] sep_def [symmetric]
    using that Cons.IH [OF cs] by (intro onward.outcome_emit) (auto simp: sep_def ms_def printing_passed printingD)
  have 2: "passes alloc q (ocat (tx c) (ocat (Some sep) ms)) d (k2 q)" if "printing fmt d q" for q
    unfolding k2_def using that Cons.prems(1) 1
    by (intro passes_seq) (auto simp: prints_Cons printing_passed printingD)
  have 3: "passes alloc q (ocat (Some colon) (ocat (tx c) (ocat (Some sep) ms))) d (k3 q)" if "printing fmt d q" for q
    unfolding k3_def Let_def printingD(2) [OF that] colon_def [symmetric]
    using that 2 by (intro onward.outcome_emit) (auto simp: colon_def printing_passed printingD)
  have 4: "passes alloc q (ocat (Some (string_text (cj_string c))) (ocat (Some colon) (ocat (tx c) (ocat (Some sep) ms)))) d (k4 q)"
    if "printing fmt d q" for q
    unfolding k4_def using that 3
    by (intro passes_seq writes_string) (auto simp: printing_passed printingD)
  have "print_members alloc pv (c # cs) p = print_indent alloc p k4"
    unfolding print_members.simps k4_def k3_def k2_def k1_def ..
  then show ?case
    using passes_indent [OF Cons.prems(2) onward.post_condition_axioms 4]
    by (simp add: colon_def sep_def ms_def)
qed

text \<open>The closing bracket, after which the depth is that of the surrounding value.\<close>

lemma writes_close:
  assumes "printing fmt (Suc d) p" "length t \<le> n" "n \<le> length t + 3" "CHR 0x00 \<notin> set t"
  shows "writes alloc p (Some t) d (reserve alloc n p (\<lambda>p. cbind (store t True p) (\<lambda>p. Inr (True, shallower p))))"
  using printingD(1) [OF assms(1)]
proof (cases rule: reserve_cases [of _ alloc n "\<lambda>p. cbind (store t True p) (\<lambda>p. Inr (True, shallower p))"])
  case (fail q)
  then show ?thesis using assms(3) by (auto intro: outcome_failed)
next
  case (grown l)
  have "written p t d (shallower (p\<lparr>pb_length := l, pb_rest := (t, True)\<rparr>))"
    using grown(2,3) assms by (auto simp: written_def framed_def pb_offset_def usable_buffer_def shallower_def printing_def)
  then show ?thesis using grown assms(2) by (simp add: store_def pb_offset_def outcome_ok)
qed

lemma deeper_frame [simp]: "pb_done (deeper p) = pb_done p" "pb_format (deeper p) = pb_format p" "pb_noalloc (deeper p) = pb_noalloc p"
  "pb_length (deeper p) = pb_length p"
  "pb_depth (deeper p) = Suc (pb_depth p)" "usable_buffer (deeper p) = usable_buffer p" "pb_offset (deeper p) = pb_offset p"
  by (simp_all add: deeper_def usable_buffer_def pb_offset_def)

lemma outcome_deeper: "post_condition P \<Longrightarrow> usable_buffer p \<Longrightarrow> outcome P alloc (deeper p) so d r \<Longrightarrow> outcome P alloc p so d r"
  using post_condition.outcome_after [of P p "[]" "Suc (pb_depth p)" "deeper p" alloc so d r]
  by (cases so) (simp_all add: passed_def framed_def)

lemma writes_array:
  assumes "prints alloc pv tx fmt (Suc d) cs" "printing fmt d p"
  shows "writes alloc p (ocat (Some ''['') (ocat (text_elements fmt (map tx cs)) (Some '']''))) d (print_array alloc pv cs p)"
  unfolding print_array_def
proof (rule finished.outcome_emit)
  fix q assume "passed p ''['' (pb_depth p) q"
  then have q: "printing fmt (Suc d) (deeper q)" "usable_buffer q"
    using assms(2) by (auto simp: printing_def passed_def framed_def)
  show "writes alloc q (ocat (text_elements fmt (map tx cs)) (Some '']'')) d
      (cbind (print_elements alloc pv cs (deeper q)) (\<lambda>(ok, p). if \<not> ok then Inr (False, p)
        else reserve alloc 2 p (\<lambda>p. cbind (store '']'' True p) (\<lambda>p. Inr (True, shallower p)))))"
  proof (intro outcome_deeper [OF finished.post_condition_axioms q(2)]
      finished.outcome_bind [OF passes_elements [OF assms(1) q(1)]])
    fix s r assume "passed (deeper q) s (Suc d) r"
    then have "printing fmt (Suc d) r" using printingD(2) [OF q(1)] by (rule printing_passed)
    then show "writes alloc r (Some '']'') d (reserve alloc 2 r (\<lambda>p. cbind (store '']'' True p) (\<lambda>p. Inr (True, shallower p))))"
      by (rule writes_close) simp_all
  qed
qed (use assms(2) in \<open>auto simp: printingD ocat_Some_iff\<close>)

lemma reserve_frame:
  assumes "\<And>l. k (p\<lparr>pb_length := l\<rparr>) = k' (p\<lparr>pb_length := l\<rparr>)"
  shows "reserve alloc n p k = reserve alloc n p k'"
  using assms assms [of "pb_length p"] by (simp add: reserve_def ensure_def Let_def)

lemma emit_deeper: "emit_text t nul (deeper p) k = emit_text t nul p (\<lambda>q. k (deeper q))"
  by (cases p) (simp add: emit_text_def store_def advance_def deeper_def pb_offset_def)

lemma writes_object:
  assumes "prints alloc pv tx fmt (Suc d) cs" "printing fmt d p"
  shows "writes alloc p
    (ocat (Some (if fmt then ''{'' @ [CHR 0x0A] else ''{''))
      (ocat (text_members fmt (Suc d) (map (\<lambda>c. (cj_string c, tx c)) cs)) (Some ((if fmt then tabs d else []) @ ''}''))))
    d (print_object alloc pv cs p)"
  unfolding print_object_def Let_def printingD(2) [OF assms(2)] emit_deeper
proof (rule finished.outcome_emit)
  fix q assume "passed p (if fmt then ''{'' @ [CHR 0x0A] else ''{'') (pb_depth p) q"
  then have q: "printing fmt (Suc d) (deeper q)" "usable_buffer q"
    using assms(2) by (auto simp: printing_def passed_def framed_def)
  define t where "t = (if fmt then tabs d else []) @ ''}''"
  show "writes alloc q (ocat (text_members fmt (Suc d) (map (\<lambda>c. (cj_string c, tx c)) cs)) (Some ((if fmt then tabs d else []) @ ''}''))) d
      (cbind (print_members alloc pv cs (deeper q)) (\<lambda>(ok, p). if \<not> ok then Inr (False, p)
        else reserve alloc (if pb_format p then pb_depth p + 1 else 2) p (\<lambda>p.
           cbind (store ((if pb_format p then tabs (pb_depth p - 1) else []) @ ''}'') True p) (\<lambda>p. Inr (True, shallower p)))))"
    unfolding t_def [symmetric]
  proof (intro outcome_deeper [OF finished.post_condition_axioms q(2)]
      finished.outcome_bind [OF passes_members [OF assms(1) q(1)]])
    fix s r assume "passed (deeper q) s (Suc d) r"
    then have r: "printing fmt (Suc d) r" using printingD(2) [OF q(1)] by (rule printing_passed)
    have "writes alloc r (Some t) d (reserve alloc (if fmt then Suc d + 1 else 2) r (\<lambda>p. cbind (store t True p) (\<lambda>p. Inr (True, shallower p))))"
      using r by (rule writes_close) (simp_all add: t_def tabs_def)
    moreover have "reserve alloc (if fmt then Suc d + 1 else 2) r (\<lambda>p. cbind (store t True p) (\<lambda>p. Inr (True, shallower p)))
      = reserve alloc (if pb_format r then pb_depth r + 1 else 2) r (\<lambda>p.
           cbind (store ((if pb_format p then tabs (pb_depth p - 1) else []) @ ''}'') True p) (\<lambda>p. Inr (True, shallower p)))"
      unfolding printingD(2,3) [OF r] by (rule reserve_frame) (simp add: t_def printingD(2,3) [OF r])
    ultimately show "writes alloc r (Some t) d (reserve alloc (if pb_format r then pb_depth r + 1 else 2) r (\<lambda>p.
           cbind (store ((if pb_format p then tabs (pb_depth p - 1) else []) @ ''}'') True p) (\<lambda>p. Inr (True, shallower p))))"
      by simp
  qed
qed (use assms(2) in \<open>auto simp: printingD ocat_Some_iff\<close>)

lemma elements_no_nul:
  "(\<forall>c \<in> set cs. \<forall>s. tx c = Some s \<longrightarrow> CHR 0x00 \<notin> set s) \<Longrightarrow> text_elements fmt (map tx cs) = Some u \<Longrightarrow> CHR 0x00 \<notin> set u"
  by (induction cs arbitrary: u) (auto simp: ocat_Some_iff split: if_splits)

lemma members_no_nul:
  "(\<forall>c \<in> set cs. \<forall>s. tx c = Some s \<longrightarrow> CHR 0x00 \<notin> set s)
   \<Longrightarrow> text_members fmt d (map (\<lambda>c. (f c, tx c)) cs) = Some u \<Longrightarrow> CHR 0x00 \<notin> set u"
  by (induction cs arbitrary: u) (auto simp: ocat_Some_iff string_text_no_nul tabs_def split: if_splits)

lemma text_no_nul: "text_of fmt d j = Some t \<Longrightarrow> CHR 0x00 \<notin> set t"
proof (induction j arbitrary: d t)
  case (CJson ty vs vi vd nm cs)
  have sub: "\<forall>c \<in> set cs. \<forall>s. text_of fmt (Suc d) c = Some s \<longrightarrow> CHR 0x00 \<notin> set s" using CJson.IH by blast
  show ?case
    using CJson.prems elements_no_nul [OF sub] members_no_nul [OF sub] string_text_no_nul number_string_no_nul c_text_no_nul
    by (auto simp: text_of.simps Let_def ocat_Some_iff tabs_def split: if_splits)
qed

section \<open>The printer refines the text\<close>

text \<open>The values of the nodes are doubles: C has no others.\<close>

fun doubles :: "cjson \<Rightarrow> bool" where
  "doubles (CJson ty vs vi vd s cs) \<longleftrightarrow> in_range vd \<and> list_all doubles cs"

lemma outcome_if:
  "(b \<Longrightarrow> outcome P alloc p x d r) \<Longrightarrow> (\<not> b \<Longrightarrow> outcome P alloc p y d s)
   \<Longrightarrow> outcome P alloc p (if b then x else y) d (if b then r else s)"
  by simp

lemma writes_value:
  "doubles j \<Longrightarrow> printing fmt d p \<Longrightarrow> writes alloc p (text_of fmt d j) d (print_value alloc j p)"
proof (induction j arbitrary: d p)
  case (CJson ty vs vi vd s cs)
  define t where "t = ty AND 0xFF"
  have p: "usable_buffer p" "d = pb_depth p" using CJson.prems(2) by (simp_all add: printingD)
  have sub: "prints alloc (print_value alloc) (text_of fmt (Suc d)) fmt (Suc d) cs"
    using CJson by (simp add: prints_def list_all_iff)
  have lits: "writes alloc p (Some ''null'') d (reserve alloc 5 p (finish ''null''))"
    "writes alloc p (Some ''false'') d (reserve alloc 6 p (finish ''false''))"
    "writes alloc p (Some ''true'') d (reserve alloc 5 p (finish ''true''))"
    using p by (intro writes_finish; simp)+
  have lit: "writes alloc p (Some x) d (reserve alloc (length x + 1) p (finish x))" if "CHR 0x00 \<notin> set x" for x
    using p that by (intro writes_finish) simp_all
  have raw: "writes alloc p (map_option c_text vs) d (case vs of None \<Rightarrow> Inr (False, p)
         | Some raw \<Rightarrow> reserve alloc (length (c_text raw) + 1) p (finish (c_text raw)))"
    using lit [OF c_text_no_nul] by (cases vs) (auto intro: outcome_failed)
  have num: "writes alloc p (Some (number_string vd)) d (print_number alloc (CJson ty vs vi vd s cs) p)"
    using writes_number [of p d "CJson ty vs vi vd s cs" alloc] p CJson.prems(1) by simp
  have str: "writes alloc p (Some (string_text vs)) d (print_string alloc (CJson ty vs vi vd s cs) p)"
    using writes_string [of p d alloc vs] p by (simp add: print_string_def)
  have no: "writes alloc p None d (Inr (False, p))" by (rule outcome_failed) simp
  show ?case
    unfolding text_of.simps print_value.simps Let_def t_def [symmetric]
    by (intro outcome_if lits raw num str no writes_array [OF sub CJson.prems(2)] writes_object [OF sub CJson.prems(2)])
qed

lemma print_buffer_printing: "printing fmt 0 (print_buffer n noalloc fmt)"
  by (auto simp: printing_def print_buffer_def usable_buffer_def pb_offset_def)

lemma written_buffer_text: "written (print_buffer n noalloc fmt) s d q \<Longrightarrow> buffer_text q = s"
  by (auto simp: written_def buffer_text_def print_buffer_def c_text_def takeWhile_eq_all_conv)

lemma passed_buffer_text: "passed (print_buffer n noalloc fmt) s d q \<Longrightarrow> pb_rest q = ([], True) \<Longrightarrow> buffer_text q = s"
  by (auto simp: passed_def buffer_text_def print_buffer_def c_text_def takeWhile_eq_all_conv)

lemma print_result:
  assumes "doubles j"
  shows "(\<exists>s. print alloc (Some j) fmt = Inr (Some s) \<and> text_of fmt 0 j = Some s)
    \<or> print alloc (Some j) fmt = Inr None
      \<and> (\<forall>s. text_of fmt 0 j = Some s \<longrightarrow> \<not> ((\<forall>m. alloc m) \<and> length s + 4 \<le> INT_MAX_SIZE div 2))"
proof (cases "alloc 256")
  case False
  then show ?thesis by (auto simp: print_def)
next
  case True
  have "writes alloc (print_buffer 256 False fmt) (text_of fmt 0 j) 0 (print_value alloc j (print_buffer 256 False fmt))"
    using assms print_buffer_printing by (rule writes_value)
  then show ?thesis
  proof (cases rule: outcome_cases)
    case (ok s q)
    then obtain q' where q': "update_offset q = Inr q'" "passed (print_buffer 256 False fmt) s 0 q'" "pb_rest q' = ([], True)"
      using update_offset_written by blast
    show ?thesis
    proof (cases "alloc (pb_offset q' + 1)")
      case True
      then show ?thesis using \<open>alloc 256\<close> ok q' by (simp add: print_def passed_buffer_text)
    next
      case False
      then show ?thesis using True ok q' by (auto simp: print_def)
    qed
  next
    case (failed q)
    then show ?thesis using True
      by (auto simp: print_def room_def print_buffer_def pb_offset_def)
  qed
qed

text \<open>
  C31: The printer refines the text of the tree. For every allocator, every tree whose values are doubles and both
  formats, \<open>print\<close> (the body of \<open>cJSON_Print\<close> and \<open>cJSON_PrintUnformatted\<close>) stays within its
  buffers - the output buffer, which it grows as it goes, and the 26 bytes a number is formatted in -, every text it
  returns is the specified one, and it does return it when the allocator does not fail and the text is
  at least four bytes below half of \<open>INT_MAX\<close>.
\<close>

theorem print_refines_text:
  assumes "doubles j"
  shows "\<exists>r. print alloc (Some j) fmt = Inr r \<and> (r = None \<or> r = text_of fmt 0 j)
    \<and> ((\<forall>m. alloc m) \<and> text_of fmt 0 j = Some s \<and> length s + 4 \<le> INT_MAX_SIZE div 2 \<longrightarrow> r = Some s)"
  using print_result [OF assms, of alloc fmt] by auto

definition print_example :: cjson where
  "print_example = CJson cJSON_Object None 0 (DFin 0) None
     [CJson cJSON_String (Some [CHR ''a'', CHR 0x22, CHR 0x0A]) 0 (DFin 0) (Some ''k'') [],
      CJson cJSON_Array None 0 (DFin 0) (Some ''l'') [CJson cJSON_Number None 0 (DFin 0) None [], CJson cJSON_NULL None 0 (DFin 0) None []]]"

definition print_example_text :: string where
  "print_example_text = ''{'' @ [CHR 0x22] @ ''k'' @ [CHR 0x22] @ '':'' @ [CHR 0x22] @ ''a'' @ [CHR 0x5C, CHR 0x22, CHR 0x5C]
     @ ''n'' @ [CHR 0x22] @ '','' @ [CHR 0x22] @ ''l'' @ [CHR 0x22] @ '':[0,null]}''"

lemma print_example_facts: "doubles print_example" "text_of False 0 print_example = Some print_example_text"
    "length print_example_text = 26"
  by (simp add: print_example_def in_range_def) code_simp+

theorem print_refines_text_witness:
  "doubles print_example \<and> print (\<lambda>m. True) (Some print_example) False = Inr (Some print_example_text)"
  using print_refines_text [OF print_example_facts(1), of "\<lambda>m. True" False print_example_text] print_example_facts
  by (auto simp: INT_MAX_SIZE_def)

text \<open>
  C32: The caller's buffer. \<open>cJSON_PrintPreallocated\<close> never writes past the length the caller gives, a text it
  leaves there is the specified one and fits with its NUL, NULL is refused, and three bytes more than the text and its NUL are enough for
  it to succeed (the header of the library asks for five).
\<close>

theorem print_preallocated_bounds:
  assumes "doubles j" "0 \<le> len" "len \<le> INT_MAX"
  shows "cJSON_PrintPreallocated alloc (Some j) False len fmt = Inr None
    \<and> (\<exists>r. cJSON_PrintPreallocated alloc (Some j) True len fmt = Inr r
    \<and> (\<forall>s. r = Some s \<longrightarrow> text_of fmt 0 j = Some s \<and> int (length s) < len)
    \<and> (\<forall>s. text_of fmt 0 j = Some s \<and> int (length s) + 4 \<le> len \<longrightarrow> r = Some s))"
proof -
  define b where "b = print_buffer (nat len) True fmt"
  have "writes alloc b (text_of fmt 0 j) 0 (print_value alloc j b)"
    unfolding b_def using assms(1) print_buffer_printing by (rule writes_value)
  then show ?thesis
  proof (cases rule: outcome_cases)
    case (ok s q)
    have "buffer_text q = s" using ok(3) unfolding b_def by (rule written_buffer_text)
    moreover have "int (length s) < len"
      using ok(3) by (auto simp: written_def framed_def b_def print_buffer_def pb_offset_def)
    ultimately show ?thesis using ok assms(2) by (simp add: cJSON_PrintPreallocated_def flip: b_def)
  next
    case (failed q)
    have "\<not> int (length s) + 4 \<le> len" if "text_of fmt 0 j = Some s" for s
      using failed(2) [OF that] assms(2,3)
      by (auto simp: room_def b_def print_buffer_def pb_offset_def INT_MAX_SIZE_def INT_MAX_def)
    then show ?thesis using failed(1) assms(2) by (auto simp: cJSON_PrintPreallocated_def simp flip: b_def)
  qed
qed

theorem print_preallocated_bounds_witness:
  "doubles print_example
   \<and> cJSON_PrintPreallocated (\<lambda>m. False) (Some print_example) True 30 False = Inr (Some print_example_text)"
  using print_preallocated_bounds [OF print_example_facts(1), of 30 "\<lambda>m. False" False] print_example_facts
  by (auto simp: INT_MAX_def)

end
