(* ===== verification/Cjson_Roundtrip.thy ===== *)
theory Cjson_Roundtrip
  imports Cjson_Safe Cjson_Text "HOL-Library.Sublist"
begin

unbundle bit_operations_syntax

text \<open>
  Printing and parsing. The parser reads every text the printer writes, compact or formatted, and gives the printed
  tree back: \<open>reread\<close> is the tree it builds, the printed one with the types and fields a parser sets. The
  state of the parser is described by the text that is still to be read.
\<close>

section \<open>The buffer by what is left of it\<close>

definition bat :: "string \<Rightarrow> nat \<Rightarrow> string \<Rightarrow> parse_buffer" where
  "bat C D r = \<lparr>content = C, offset = length C - length r, depth = D\<rparr>"

lemma bat_fields [simp]: "content (bat C D r) = C" "depth (bat C D r) = D" "(bat C D r)\<lparr>depth := E\<rparr> = bat C E r"
  by (simp_all add: bat_def)

lemma suffix_tail: "suffix (u @ r) C \<Longrightarrow> suffix r C" "suffix (x # r) C \<Longrightarrow> suffix r C"
  by (auto simp: suffix_def)

lemma bat_rest: "suffix r C \<Longrightarrow> drop (offset (bat C D r)) C = r"
  by (auto simp: suffix_def bat_def)

lemma bat_offset: "suffix r C \<Longrightarrow> offset (bat C D r) + length r = length C"
  by (auto simp: suffix_def bat_def)

lemma bat_ahead: "suffix (u @ r) C \<Longrightarrow> ahead (length u) (bat C D (u @ r)) = bat C D r"
  by (auto simp: suffix_def bat_def ahead_def)

lemma bat_ahead1: "suffix (x # r) C \<Longrightarrow> ahead 1 (bat C D (x # r)) = bat C D r"
  using bat_ahead [of "[x]" r C D] by simp

lemma bat_back: "suffix (x # r) C \<Longrightarrow> step_back (bat C D r) = bat C D (x # r)"
  by (auto simp: suffix_def bat_def step_back_def)

lemma bat_can_access: "suffix r C \<Longrightarrow> can_access_at_index (bat C D r) 0 \<longleftrightarrow> r \<noteq> []"
  using bat_offset [of r C D] by (cases r) (auto simp: can_access_at_index_def)

lemma bat_nth: "suffix (x # r) C \<Longrightarrow> C ! offset (bat C D (x # r)) = x"
  by (auto simp: suffix_def bat_def nth_append)

lemma bat_at_char: "suffix (x # r) C \<Longrightarrow> at_char (bat C D (x # r)) c \<longleftrightarrow> x = c"
  by (simp add: at_char_def bat_can_access bat_nth)

lemma bat_rd: "suffix (x # r) C \<Longrightarrow> rd C (offset (bat C D (x # r))) = Inr x"
  using bat_offset [of "x # r" C D] by (simp add: rd_def bat_nth)

lemma bat_literal: "suffix r C \<Longrightarrow> at_literal (bat C D r) s \<longleftrightarrow> prefix s r"
  using bat_offset [of r C D] bat_rest [of r C D]
  by (auto simp: at_literal_def can_read_def prefix_def) (metis append_take_drop_id)

lemma bat_skip:
  assumes "suffix (w @ c # r) C" "\<forall>x \<in> set w. json_space x" "\<not> json_space c"
  shows "buffer_skip_whitespace (bat C D (w @ c # r)) = bat C D (c # r)"
proof -
  have "takeWhile json_space (w @ c # r) = w"
    using assms(2,3) by (simp add: takeWhile_append2)
  moreover have "offset (bat C D (c # r)) \<noteq> length C"
    using bat_offset [of "c # r" C D] suffix_tail(1) [OF assms(1)] by simp
  ultimately show ?thesis
    using bat_rest [OF assms(1)] bat_ahead [OF assms(1)] by (simp add: buffer_skip_whitespace_def Let_def)
qed

lemma bat_skip0: "suffix (c # r) C \<Longrightarrow> \<not> json_space c \<Longrightarrow> buffer_skip_whitespace (bat C D (c # r)) = bat C D (c # r)"
  using bat_skip [of "[]" c r C D] by simp

section \<open>Strings\<close>

lemma escape_cases:
  obtains (plain) "escape_text c = [c] \<and> c \<noteq> CHR 0x22 \<and> c \<noteq> CHR 0x5C"
  | (short) x where "escape_text c = [CHR 0x5C, x]" "escape_char x = Some c"
  | (hex) "escape_text c = [CHR 0x5C, CHR ''u'', CHR ''0'', CHR ''0'', hex_char (of_char c div 16), hex_char (of_char c mod 16)]
      \<and> (of_char c :: nat) < 32"
proof (cases "c \<in> {CHR 0x22, CHR 0x5C, CHR 0x08, CHR 0x0C, CHR 0x0A, CHR 0x0D, CHR 0x09}")
  case True
  then have "\<exists>x. escape_text c = [CHR 0x5C, x] \<and> escape_char x = Some c"
    by (elim insertE) (simp_all add: escape_text_def escape_char_def)
  then show ?thesis using short by blast
next
  case False
  then show ?thesis using plain hex by (cases "(of_char c :: nat) > 31") (simp_all add: escape_text_def Let_def)
qed

lemma hex_digit_char: "n < 16 \<Longrightarrow> hex_digit (hex_char n) = Some n"
  using hex_char_code [of n] by (simp add: hex_digit_def Let_def)

lemma hex_char_plain: "n < 16 \<Longrightarrow> hex_char n \<noteq> CHR 0x22 \<and> hex_char n \<noteq> CHR 0x5C"
  using hex_char_code [of n] by (auto split: if_splits)

lemma of_char_halves: "(of_char c :: nat) div 16 < 16" "(of_char c :: nat) mod 16 < 16"
  using nat_of_char_less_256 [of c] by linarith+

definition escapes :: "string \<Rightarrow> nat" where
  "escapes s = length (filter (\<lambda>c. length (escape_text c) > 1) s)"

lemma escapes_le: "escapes s + length s \<le> length (concat (map escape_text s))"
proof (induction s)
  case (Cons c s)
  have "length (escape_text c) \<ge> (if length (escape_text c) > 1 then 2 else 1)" by (simp add: escape_text_length)
  with Cons show ?case by (simp add: escapes_def split: if_splits)
qed (simp add: escapes_def)

lemma string_end_escape:
  "string_end (concat (map escape_text s) @ CHR 0x22 # r) n k = Some (n + length (concat (map escape_text s)), k + escapes s)"
proof (induction s arbitrary: n k)
  case Nil
  then show ?case by (simp add: escapes_def)
next
  case (Cons c s)
  show ?case
  proof (cases rule: escape_cases [of c])
    case plain
    then show ?thesis using Cons [of "n + 1" k] by (simp add: escapes_def)
  next
    case (short x)
    then show ?thesis using Cons [of "n + 2" "k + 1"] by (simp add: escapes_def)
  next
    case hex
    have "hex_char (of_char c div 16) \<noteq> CHR 0x22 \<and> hex_char (of_char c div 16) \<noteq> CHR 0x5C"
      "hex_char (of_char c mod 16) \<noteq> CHR 0x22 \<and> hex_char (of_char c mod 16) \<noteq> CHR 0x5C"
      by (rule hex_char_plain [OF of_char_halves(1)], rule hex_char_plain [OF of_char_halves(2)])
    then show ?thesis using hex Cons [of "Suc (Suc (Suc (Suc (Suc (Suc n)))))" "k + 1"] by (simp add: escapes_def)
  qed
qed

lemma rd_drop: "drop p input = x # r \<Longrightarrow> rd input p = Inr x \<and> drop (Suc p) input = r"
proof -
  assume d: "drop p input = x # r"
  then have "p < length input" by (metis drop_all leI list.distinct(1))
  then show ?thesis using d by (simp add: rd_def flip: Cons_nth_drop_Suc)
qed

lemma byte_of_char: "(of_char c :: nat) < 32 \<Longrightarrow> utf8_encode (of_char c) = Some [c]"
  using take_bit_nat_eq_self [of "of_char c" 7] by (simp add: utf8_encode_def byte_def take_bit_eq_mask mask_eq_exp_minus_1)

lemma utf16_escape:
  assumes "drop p input = CHR 0x5C # CHR ''u'' # CHR ''0'' # CHR ''0'' # hex_char (of_char c div 16) # hex_char (of_char c mod 16) # r"
    and "(of_char c :: nat) < 32" "6 \<le> input_end - p"
  shows "utf16_literal_to_utf8 input p input_end = Inr (Some ([c], False))"
proof -
  note 1 = rd_drop [OF assms(1)]
  note 2 = rd_drop [OF conjunct2 [OF 1]]
  note 3 = rd_drop [OF conjunct2 [OF 2]]
  note 4 = rd_drop [OF conjunct2 [OF 3]]
  note 5 = rd_drop [OF conjunct2 [OF 4]]
  note 6 = rd_drop [OF conjunct2 [OF 5]]
  have z: "hex_digit (CHR ''0'') = Some 0" by (simp add: hex_digit_def)
  have four: "hex4_loop input q 4 h = hex4_loop input q (Suc (Suc (Suc (Suc 0)))) h" for q h by (simp add: eval_nat_numeral)
  have "parse_hex4 input (p + 2) = Inr (of_char c)"
    using 3 4 5 6 hex_digit_char [OF of_char_halves(1), of c] hex_digit_char [OF of_char_halves(2), of c]
    by (simp add: parse_hex4_def four z)
  then show ?thesis using assms(2,3) byte_of_char [OF assms(2)] by (simp add: utf16_literal_to_utf8_def)
qed

lemma unescape_escape:
  assumes "drop p input = concat (map escape_text s) @ CHR 0x22 # r" "input_end = p + length (concat (map escape_text s))"
    "length out + length s < cap"
  shows "unescape input cap input_end p out = Inr (Some (out @ s), input_end)"
  using assms
proof (induction s arbitrary: p out)
  case Nil
  then show ?case by (simp add: unescape.simps put_def)
next
  case (Cons c s)
  let ?e = "concat (map escape_text s)"
  have next_ok: "unescape input cap input_end q (out @ [c]) = Inr (Some (out @ c # s), input_end)"
    if "drop q input = ?e @ CHR 0x22 # r" "q + length ?e = input_end" for q
    using Cons.IH [of q "out @ [c]"] that Cons.prems(3) by simp
  have lt: "\<not> input_end \<le> p" using Cons.prems(2) by (simp add: escape_text_length)
  have put: "put cap out [c] = Inr (out @ [c])" using Cons.prems(3) by (simp add: put_def)
  show ?case
  proof (cases rule: escape_cases [of c])
    case plain
    then have d: "drop p input = c # ?e @ CHR 0x22 # r" using Cons.prems(1) by simp
    have "unescape input cap input_end (Suc p) (out @ [c]) = Inr (Some (out @ c # s), input_end)"
      using plain rd_drop [OF d] Cons.prems(2) by (intro next_ok) simp_all
    then show ?thesis using plain rd_drop [OF d] lt put by (subst unescape.simps) simp
  next
    case (short x)
    then have d: "drop p input = CHR 0x5C # x # ?e @ CHR 0x22 # r" using Cons.prems(1) by simp
    note 1 = rd_drop [OF d]
    note 2 = rd_drop [OF conjunct2 [OF 1]]
    have "unescape input cap input_end (p + 2) (out @ [c]) = Inr (Some (out @ c # s), input_end)"
      using short 2 Cons.prems(2) by (intro next_ok) simp_all
    then show ?thesis using short 1 2 lt put by (subst unescape.simps) simp
  next
    case hex
    then have d: "drop p input = CHR 0x5C # CHR ''u'' # CHR ''0'' # CHR ''0'' # hex_char (of_char c div 16)
        # hex_char (of_char c mod 16) # ?e @ CHR 0x22 # r" using Cons.prems(1) by simp
    note 1 = rd_drop [OF d]
    have "drop (p + 6) input = drop 6 (drop p input)" by (simp add: add.commute)
    then have 6: "drop (p + 6) input = ?e @ CHR 0x22 # r" using d by simp
    have u: "utf16_literal_to_utf8 input p input_end = Inr (Some ([c], False))"
      using utf16_escape [OF d] hex Cons.prems(2) by simp
    have e: "escape_char (CHR ''u'') = None" by (simp add: escape_char_def)
    have "unescape input cap input_end (p + 6) (out @ [c]) = Inr (Some (out @ c # s), input_end)"
      using hex 6 Cons.prems(2) by (intro next_ok) simp_all
    then show ?thesis using 1 rd_drop [OF conjunct2 [OF 1]] u e lt put by (subst unescape.simps) simp
  qed
qed

lemma c_text_id: "CHR 0x00 \<notin> set s \<Longrightarrow> c_text s = s"
  by (auto simp: c_text_def takeWhile_eq_all_conv)

lemma c_text_idem [simp]: "c_text (c_text s) = c_text s"
  by (rule c_text_id [OF c_text_no_nul])

definition text_value :: "cstr \<Rightarrow> string" where
  "text_value v = (case v of None \<Rightarrow> [] | Some i \<Rightarrow> c_text i)"

lemma string_text_value: "string_text v = CHR 0x22 # concat (map escape_text (text_value v)) @ [CHR 0x22]"
  by (simp add: string_text_def text_value_def split: option.split)

lemma parse_string_text:
  assumes "suffix (string_text v @ r) C"
  shows "parse_string item (bat C D (string_text v @ r)) = Inr (True, set_text (text_value v) item, bat C D r)"
proof -
  define e where "e = concat (map escape_text (text_value v))"
  define b where "b = bat C D (string_text v @ r)"
  have t: "string_text v @ r = CHR 0x22 # e @ CHR 0x22 # r" by (simp add: string_text_value e_def)
  have s: "suffix (CHR 0x22 # e @ CHR 0x22 # r) C" using assms by (simp add: t)
  have len: "offset b + length (string_text v @ r) = length C" using bat_offset [OF assms] by (simp add: b_def)
  have b: "content b = C" "rd C (offset b) = Inr (CHR 0x22)" "drop (Suc (offset b)) C = e @ CHR 0x22 # r"
    using bat_rd [OF s, of D] rd_drop [OF bat_rest [OF s, of D]] by (simp_all add: b_def t)
  have se: "string_end (e @ CHR 0x22 # r) 0 0 = Some (length e, escapes (text_value v))"
    using string_end_escape [of "text_value v" r 0 0] by (simp add: e_def)
  have cap: "length (text_value v) < length e + 1 - escapes (text_value v) + 1"
    using escapes_le [of "text_value v"] by (simp add: e_def)
  have u: "unescape C (length e + 1 - escapes (text_value v) + 1) (Suc (offset b + length e)) (Suc (offset b)) []
      = Inr (Some (text_value v), Suc (offset b + length e))"
    using unescape_escape [of "Suc (offset b)" C "text_value v" r _ "[]"] b(3) cap by (simp add: e_def)
  have nul: "takeWhile (\<lambda>c. c \<noteq> CHR 0x00) (text_value v) = text_value v"
    using c_text_id [of "text_value v"] c_text_no_nul by (cases v) (simp_all add: text_value_def flip: c_text_def)
  have "b\<lparr>offset := Suc (Suc (offset b + length e))\<rparr> = bat C D r"
    using len by (simp add: b_def bat_def t)
  then show ?thesis using b se u unfolding b_def [symmetric] by (simp add: parse_string_def Let_def nul)
qed

section \<open>The tree the parser builds\<close>

fun reread :: "cstr \<Rightarrow> cjson \<Rightarrow> cjson" where
  "reread name (CJson ty vs vi vd s cs) =
     (let t = ty AND 0xFF; number = (\<lambda>d. CJson cJSON_Number None (valueint_of d) d name []) in
      if t = cJSON_NULL then CJson cJSON_NULL None 0 (DFin 0) name []
      else if t = cJSON_False then CJson cJSON_False None 0 (DFin 0) name []
      else if t = cJSON_True then CJson cJSON_True None 1 (DFin 0) name []
      else if t = cJSON_Number then number vd
      else if t = cJSON_Raw then number (fst (strtod (text_value vs)))
      else if t = cJSON_String then CJson cJSON_String (Some (text_value vs)) 0 (DFin 0) name []
      else if t = cJSON_Array then CJson cJSON_Array None 0 (DFin 0) name (map (reread None) cs)
      else CJson cJSON_Object None 0 (DFin 0) name (map (\<lambda>c. reread (Some (text_value (cj_string c))) c) cs))"

text \<open>
  A tree of JSON values: finite numbers whose printed text reads back as the number - integers of up to 53 bits, by
  \<open>whole_number_readable\<close> - and raw text only as the decimal digits the module uses for 64-bit identifiers.
\<close>

definition readable :: "double \<Rightarrow> bool" where
  "readable d = (case d of DInf _ \<Rightarrow> False | DFin r \<Rightarrow> in_range d \<and> fst (strtod (number_string d)) = d)"

definition digit_text :: "string \<Rightarrow> bool" where
  "digit_text s \<longleftrightarrow> s \<noteq> [] \<and> digits s \<and> length s \<le> 62"

fun json_tree :: "cjson \<Rightarrow> bool" where
  "json_tree (CJson ty vs vi vd s cs) =
     (let t = ty AND 0xFF in
      if t = cJSON_NULL \<or> t = cJSON_False \<or> t = cJSON_True \<or> t = cJSON_String then True
      else if t = cJSON_Number then readable vd
      else if t = cJSON_Raw then vs \<noteq> None \<and> digit_text (text_value vs)
      else (t = cJSON_Array \<or> t = cJSON_Object) \<and> list_all json_tree cs)"

declare reread.simps [simp del]

lemma whole_number_readable: "n \<le> 2 ^ 53 \<Longrightarrow> readable (DFin (of_nat n))"
  using to_double_in_range [of "of_nat n"] to_double_of_nat [of n]
  by (simp add: readable_def number_string_def strtod_fmt_g_int(1))

lemma readable_text:
  assumes "readable d"
  shows "strtod (number_string d) = (d, length (number_string d))" "\<forall>c \<in> set (number_string d). number_char c"
    "length (number_string d) \<le> 62" "number_string d \<noteq> []" "hd (number_string d) = CHR ''-'' \<or> is_digit (hd (number_string d))"
proof -
  obtain r where d: "d = DFin r" "in_range d" "fst (strtod (number_string d)) = d"
    using assms by (cases d) (auto simp: readable_def)
  define P :: nat where "P = (if fst (strtod (fmt_g 15 r)) = d then 15 else 17)"
  have P: "number_string d = fmt_g P r" using d(1) by (simp add: number_string_def P_def)
  obtain neg ip fp ex where sh: "num_text neg ip fp ex (fmt_g P r)" using fmt_g_shape by blast
  show "strtod (number_string d) = (d, length (number_string d))"
    using d(3) P fmt_g_read(1) by (metis prod.collapse)
  show "length (number_string d) \<le> 62" using number_text_spec(2) [OF d(2)] by simp
  show "\<forall>c \<in> set (number_string d). number_char c" "number_string d \<noteq> []"
    "hd (number_string d) = CHR ''-'' \<or> is_digit (hd (number_string d))"
    using num_text_chars [OF sh] by (simp_all add: P)
qed

lemma digit_text_read:
  assumes "digit_text s"
  shows "strtod s = (fst (strtod s), length s)" "\<forall>c \<in> set s. number_char c" "hd s = CHR ''-'' \<or> is_digit (hd s)"
proof -
  have sh: "num_text False s [] None s" using assms by (simp add: digit_text_def num_text_def point_def)
  show "strtod s = (fst (strtod s), length s)" by (simp add: strtod_num_text [OF sh])
  show "\<forall>c \<in> set s. number_char c" "hd s = CHR ''-'' \<or> is_digit (hd s)" using num_text_chars [OF sh] by simp_all
qed

section \<open>Reading a value\<close>

definition blank :: "cstr \<Rightarrow> cjson \<Rightarrow> bool" where
  "blank name item \<longleftrightarrow> (\<exists>t. item = CJson t None 0 (DFin 0) name [])"

text \<open>What may follow a value.\<close>

definition stops :: "string \<Rightarrow> bool" where
  "stops r \<longleftrightarrow> r \<noteq> [] \<and> \<not> number_char (hd r)"

lemma parse_number_text:
  assumes "suffix (t @ r) C" "stops r" "\<forall>c \<in> set t. number_char c" "t \<noteq> []" "length t \<le> 62" "strtod t = (d, length t)"
  shows "parse_number item (bat C D (t @ r)) = (True, set_number d item, bat C D r)"
proof -
  obtain x r' where r: "r = x # r'" "\<not> number_char x" using assms(2) by (cases r) (auto simp: stops_def)
  have "takeWhile number_char (take 63 (t @ r)) = t"
    using assms(3,5) r by (simp add: takeWhile_append2 take_Cons')
  then have "number_c_string (bat C D (t @ r)) = t"
    using bat_rest [OF assms(1)] by (simp add: number_c_string_def)
  then show ?thesis using assms(4,6) bat_ahead [OF assms(1)] by (simp add: parse_number_def)
qed

definition reads :: "nat \<Rightarrow> nat \<Rightarrow> bool \<Rightarrow> nat \<Rightarrow> cstr \<Rightarrow> cjson \<Rightarrow> bool" where
  "reads f D fmt d name j \<longleftrightarrow>
     (\<forall>C r t item. text_of fmt d j = Some t \<and> suffix (t @ r) C \<and> stops r \<and> blank name item
        \<longrightarrow> parse_value f item (bat C D (t @ r)) = Inr (True, reread name j, bat C D r))"

lemma readsD:
  "reads f D fmt d name j \<Longrightarrow> text_of fmt d j = Some t \<Longrightarrow> suffix (t @ r) C \<Longrightarrow> stops r \<Longrightarrow> blank name item
   \<Longrightarrow> parse_value f item (bat C D (t @ r)) = Inr (True, reread name j, bat C D r)"
  by (simp add: reads_def)

definition starts :: "string \<Rightarrow> bool" where
  "starts t \<longleftrightarrow> t \<noteq> [] \<and> 33 \<le> (of_char (hd t) :: nat) \<and> (of_char (hd t) :: nat) < 128 \<and> hd t \<noteq> CHR '']''"

lemma starts_Cons: "starts t \<Longrightarrow> \<exists>y t'. t = y # t' \<and> \<not> json_space y \<and> y \<noteq> CHR '']''"
  by (cases t) (auto simp: starts_def json_space_def)

lemma starts_number: "t \<noteq> [] \<Longrightarrow> hd t = CHR ''-'' \<or> is_digit (hd t) \<Longrightarrow> starts t"
  by (auto simp: starts_def is_digit_def)

lemma string_type: "cJSON_String \<noteq> cJSON_Number" "cJSON_String \<noteq> cJSON_Raw"
  by (simp_all add: cJSON_types)

lemma text_starts:
  assumes "json_tree j" "text_of fmt d j = Some t"
  shows "starts t"
proof (cases j)
  case (CJson ty vs vi vd s cs)
  show ?thesis
    using assms readable_text(4,5) [of vd] digit_text_read(3) [of "text_value vs"] starts_number
    by (auto simp: CJson text_of.simps Let_def ocat_Some_iff string_text_def starts_def digit_text_def text_value_def string_type
        split: if_splits option.splits)
qed

lemma skip_to_text:
  assumes "suffix (w @ t @ r) C" "\<forall>x \<in> set w. json_space x" "starts t"
  shows "buffer_skip_whitespace (bat C D (w @ t @ r)) = bat C D (t @ r)"
  using starts_Cons [OF assms(3)] assms(1,2) bat_skip by fastforce

lemma marks [simp]:
  "\<not> json_space (CHR '','')" "\<not> json_space (CHR '']'')" "\<not> json_space (CHR ''}'')" "\<not> json_space (CHR '':'')"
  "\<not> json_space (CHR 0x22)" "json_space (CHR 0x09)" "json_space (CHR 0x0A)" "json_space (CHR '' '')" "json_space (CHR 0x00)"
  "stops (CHR '','' # r)" "stops (CHR '']'' # r)" "stops (CHR ''}'' # r)" "stops (CHR 0x0A # r)" "stops [CHR 0x00]"
  by (simp_all add: json_space_def stops_def number_char_def is_digit_def)

lemma blank_new: "blank None cJSON_New_Item"
  by (simp add: blank_def cJSON_New_Item_def)

lemma array_elements_text:
  assumes "\<forall>c \<in> set cs. reads f D fmt d None c \<and> json_tree c" "cs \<noteq> []"
    "text_elements fmt (map (text_of fmt d) cs) = Some u"
    "suffix (x # w @ u @ CHR '']'' # r) C" "\<forall>x \<in> set w. json_space x" "length cs \<le> k"
  shows "array_elements (parse_value f) k acc (bat C D (x # w @ u @ CHR '']'' # r))
    = Inr (True, acc @ map (reread None) cs, bat C D (CHR '']'' # r))"
  using assms
proof (induction cs arbitrary: k acc x w u)
  case (Cons c cs)
  then obtain k' where k: "k = Suc k'" by (cases k) auto
  define sp where "sp = (if fmt then '' '' else [])"
  obtain t where t: "text_of fmt d c = Some t" and u: "if cs = [] then u = t else
      \<exists>u'. text_elements fmt (map (text_of fmt d) cs) = Some u' \<and> u = t @ CHR '','' # sp @ u'"
    using Cons.prems(3) by (auto simp: ocat_Some_iff sp_def split: if_splits)
  have s: "starts t" using Cons.prems(1) t by (auto intro: text_starts)
  obtain m where m: "u @ CHR '']'' # r = t @ m" and st: "stops m"
    using u by (auto split: if_splits)
  have sf: "suffix (w @ t @ m) C" "suffix (t @ m) C" "suffix m C"
    using Cons.prems(4) m by (auto dest: suffix_tail)
  have v: "parse_value f cJSON_New_Item (bat C D (t @ m)) = Inr (True, reread None c, bat C D m)"
    using Cons.prems(1) t sf(2) st blank_new by (auto intro: readsD)
  have b: "buffer_skip_whitespace (ahead 1 (bat C D (x # w @ t @ m))) = bat C D (t @ m)"
    using bat_ahead1 [of x "w @ t @ m" C D] Cons.prems(4) m skip_to_text [OF sf(1) Cons.prems(5) s] by simp
  show ?case
  proof (cases "cs = []")
    case True
    then have "m = CHR '']'' # r" using u m by simp
    then show ?thesis using v b sf(3) True by (simp add: k m bat_skip0 bat_at_char)
  next
    case False
    then obtain u' where u': "text_elements fmt (map (text_of fmt d) cs) = Some u'" "u = t @ CHR '','' # sp @ u'"
      using u by auto
    then have m': "m = CHR '','' # sp @ u' @ CHR '']'' # r" using m by simp
    have "array_elements (parse_value f) k' (acc @ [reread None c]) (bat C D (CHR '','' # sp @ u' @ CHR '']'' # r))
      = Inr (True, (acc @ [reread None c]) @ map (reread None) cs, bat C D (CHR '']'' # r))"
      using Cons.prems(1,6) False u'(1) sf(3) m' k by (intro Cons.IH) (auto simp: sp_def)
    then show ?thesis using v b sf(3) by (simp add: k m m' bat_skip0 bat_at_char)
  qed
qed simp

lemma text_elements_length:
  assumes "text_elements fmt (map (text_of fmt d) cs) = Some u" "\<forall>c \<in> set cs. json_tree c"
  shows "length cs \<le> length u"
  using assms
proof (induction cs arbitrary: u)
  case (Cons c cs)
  obtain t where t: "text_of fmt d c = Some t" using Cons.prems(1) by (auto simp: ocat_Some_iff split: if_splits)
  then have "starts t" using Cons.prems(2) by (auto intro: text_starts)
  then have "1 \<le> length t" by (cases t) (auto simp: starts_def)
  with Cons t show ?case by (fastforce simp: ocat_Some_iff split: if_splits)
qed simp

lemma parse_array_text:
  assumes "\<forall>c \<in> set cs. reads f (Suc D) fmt d None c \<and> json_tree c"
    "text_elements fmt (map (text_of fmt d) cs) = Some u"
    "suffix (CHR ''['' # u @ CHR '']'' # r) C" "D < CJSON_NESTING_LIMIT" "blank name item"
  shows "parse_array (parse_value f) item (bat C D (CHR ''['' # u @ CHR '']'' # r))
    = Inr (True, CJson cJSON_Array None 0 (DFin 0) name (map (reread None) cs), bat C D r)"
proof -
  have sf: "suffix (u @ CHR '']'' # r) C" "suffix (CHR '']'' # r) C" using assms(3) by (auto dest: suffix_tail)
  have len: "length cs \<le> length C"
    using text_elements_length [OF assms(2)] assms(1) suffix_length_le [OF sf(1)] by simp
  have ch: "set_children cJSON_Array cs' item = CJson cJSON_Array None 0 (DFin 0) name cs'" for cs'
    using assms(5) by (auto simp: blank_def)
  show ?thesis
  proof (cases "cs = []")
    case True
    then show ?thesis using assms(2,3,4) sf(2) ch
      by (simp add: parse_array_def Let_def bat_rd bat_ahead1 [unfolded One_nat_def] bat_skip0 bat_at_char)
  next
    case False
    then obtain c cs' where cs: "cs = c # cs'" by (cases cs) auto
    then obtain t m where t: "text_of fmt d c = Some t" and u: "u = t @ m"
      using assms(2) by (auto simp: ocat_Some_iff split: if_splits)
    have "starts t" using t assms(1) cs by (auto intro: text_starts)
    then obtain y t' where y: "u @ CHR '']'' # r = y # t'" "\<not> json_space y" "y \<noteq> CHR '']''"
      using starts_Cons [of t] u by auto
    have el: "array_elements (parse_value f) (length C) [] (bat C (Suc D) (CHR ''['' # u @ CHR '']'' # r))
      = Inr (True, map (reread None) cs, bat C (Suc D) (CHR '']'' # r))"
      using array_elements_text [OF assms(1) False assms(2), of "CHR ''[''" "[]" r C "length C" "[]"] assms(3) len by simp
    show ?thesis using assms(3,4) sf el y ch
      by (simp add: parse_array_def Let_def bat_rd bat_ahead1 [unfolded One_nat_def] bat_skip0 bat_at_char bat_can_access bat_back)
  qed
qed

lemma string_starts: "starts (string_text v)"
  by (simp add: starts_def string_text_value)

lemma space_not_number: "json_space c \<Longrightarrow> \<not> number_char c"
  by (auto simp: json_space_def number_char_def is_digit_def)

lemma stops_space: "\<forall>x \<in> set w. json_space x \<Longrightarrow> stops (w @ CHR ''}'' # r)"
  using space_not_number by (cases w) (auto simp: stops_def number_char_def is_digit_def)

lemma blank_named: "blank (Some k) (swap_name (set_text k cJSON_New_Item))"
  by (simp add: blank_def cJSON_New_Item_def)

definition indent :: "bool \<Rightarrow> nat \<Rightarrow> string" where
  "indent fmt d = (if fmt then tabs d else [])"

lemma indent_space: "x \<in> set (indent fmt d) \<Longrightarrow> json_space x"
  by (simp add: indent_def tabs_def split: if_splits)

definition reread_member :: "cjson \<Rightarrow> cjson" where
  "reread_member c = reread (Some (text_value (cj_string c))) c"

text \<open>One member: its name, the colon, its value.\<close>

lemma object_member_text:
  assumes "reads f D fmt d (Some (text_value (cj_string c))) c" "json_tree c" "text_of fmt d c = Some t" "stops m"
    "suffix (x # w @ string_text (cj_string c) @ CHR '':'' # sp @ t @ m) C"
    "\<forall>x \<in> set w. json_space x" "\<forall>x \<in> set sp. json_space x"
  shows "object_members (parse_value f) (Suc k) acc (bat C D (x # w @ string_text (cj_string c) @ CHR '':'' # sp @ t @ m))
    = (let b = buffer_skip_whitespace (bat C D m); cs = acc @ [reread_member c] in
       if at_char b (CHR '','') then object_members (parse_value f) k cs b else Inr (True, cs, b))"
proof -
  define m1 where "m1 = CHR '':'' # sp @ t @ m"
  have sf1: "suffix (w @ string_text (cj_string c) @ m1) C" using assms(5) unfolding m1_def by (rule suffix_tail)
  have sf2: "suffix (string_text (cj_string c) @ m1) C" using sf1 by (rule suffix_tail)
  have sf3: "suffix m1 C" using sf2 by (rule suffix_tail)
  have sf4: "suffix (sp @ t @ m) C" using sf3 unfolding m1_def by (rule suffix_tail)
  have sf5: "suffix (t @ m) C" using sf4 by (rule suffix_tail)
  have "starts t" using assms(2,3) by (rule text_starts)
  then have 3: "buffer_skip_whitespace (bat C D (sp @ t @ m)) = bat C D (t @ m)" by (rule skip_to_text [OF sf4 assms(7)])
  have 1: "buffer_skip_whitespace (bat C D (w @ string_text (cj_string c) @ m1)) = bat C D (string_text (cj_string c) @ m1)"
    by (rule skip_to_text [OF sf1 assms(6) string_starts])
  have 2: "buffer_skip_whitespace (bat C D m1) = bat C D m1" "at_char (bat C D m1) (CHR '':'')" "ahead 1 (bat C D m1) = bat C D (sp @ t @ m)"
    using sf3 by (simp_all add: m1_def bat_skip0 bat_at_char bat_ahead1 [unfolded One_nat_def])
  have 4: "parse_value f (swap_name (set_text (text_value (cj_string c)) cJSON_New_Item)) (bat C D (t @ m)) = Inr (True, reread_member c, bat C D m)"
    unfolding reread_member_def using assms(1,3) sf5 assms(4) blank_named by (rule readsD)
  have 0: "ahead 1 (bat C D (x # w @ string_text (cj_string c) @ m1)) = bat C D (w @ string_text (cj_string c) @ m1)"
    using assms(5) by (intro bat_ahead1) (simp add: m1_def)
  show ?thesis
    unfolding object_members.simps m1_def [symmetric] 0 1 parse_string_text [OF sf2] using 2 3 4
    by (simp add: Let_def)
qed

lemma object_members_text:
  assumes "\<forall>c \<in> set cs. reads f D fmt d (Some (text_value (cj_string c))) c \<and> json_tree c" "cs \<noteq> []"
    "text_members fmt d (map (\<lambda>c. (cj_string c, text_of fmt d c)) cs) = Some (indent fmt d @ u)"
    "suffix (x # w @ u @ w' @ CHR ''}'' # r) C" "\<forall>x \<in> set w. json_space x" "\<forall>x \<in> set w'. json_space x" "length cs \<le> k"
  shows "object_members (parse_value f) k acc (bat C D (x # w @ u @ w' @ CHR ''}'' # r))
    = Inr (True, acc @ map reread_member cs, bat C D (CHR ''}'' # r))"
  using assms
proof (induction cs arbitrary: k acc x w u)
  case (Cons c cs)
  then obtain k' where k: "k = Suc k'" by (cases k) auto
  define sp where "sp = (if fmt then [CHR 0x09] else [])"
  define nl where "nl = (if fmt then [CHR 0x0A] else [])"
  obtain t v where t: "text_of fmt d c = Some t" and v: "text_members fmt d (map (\<lambda>c. (cj_string c, text_of fmt d c)) cs) = Some v"
    and u: "u = string_text (cj_string c) @ CHR '':'' # sp @ t @ (if cs \<noteq> [] then '','' else []) @ nl @ v"
    using Cons.prems(3) by (auto simp: ocat_Some_iff indent_def sp_def nl_def split: if_splits)
  define m where "m = (if cs \<noteq> [] then '','' else []) @ nl @ v @ w' @ CHR ''}'' # r"
  have um: "u @ w' @ CHR ''}'' # r = string_text (cj_string c) @ CHR '':'' # sp @ t @ m" by (simp add: u m_def)
  have sf: "suffix (x # w @ string_text (cj_string c) @ CHR '':'' # sp @ t @ m) C" using Cons.prems(4) um by simp
  have sfm: "suffix m C" using sf by (auto dest!: suffix_tail)
  have sps: "\<forall>x \<in> set sp. json_space x" "\<forall>x \<in> set nl. json_space x" by (simp_all add: sp_def nl_def)
  have st: "stops m"
  proof (cases "cs = []")
    case True
    have "\<forall>x \<in> set (nl @ w'). json_space x" using sps(2) Cons.prems(6) by auto
    then show ?thesis using stops_space [of "nl @ w'" r] v True by (simp add: m_def)
  qed (simp add: m_def)
  have step: "object_members (parse_value f) k acc (bat C D (x # w @ u @ w' @ CHR ''}'' # r))
    = (let b = buffer_skip_whitespace (bat C D m); cs = acc @ [reread_member c] in
       if at_char b (CHR '','') then object_members (parse_value f) k' cs b else Inr (True, cs, b))"
    unfolding um k using Cons.prems(1,5) t st sf sps(1) by (intro object_member_text) auto
  show ?case
  proof (cases "cs = []")
    case True
    then have m: "m = (nl @ w') @ CHR ''}'' # r" using v by (simp add: m_def)
    have b: "buffer_skip_whitespace (bat C D m) = bat C D (CHR ''}'' # r)"
      using sfm sps(2) Cons.prems(6) unfolding m by (intro bat_skip) auto
    have "suffix (CHR ''}'' # r) C" using sfm unfolding m by (rule suffix_tail)
    then show ?thesis using step b True by (simp add: bat_at_char)
  next
    case False
    then obtain c' cs' where cs: "cs = c' # cs'" by (cases cs) auto
    then obtain u' where u': "v = indent fmt d @ u'" using v by (auto simp: ocat_Some_iff indent_def)
    have m: "m = CHR '','' # (nl @ indent fmt d) @ u' @ w' @ CHR ''}'' # r" using False by (simp add: m_def u')
    have "object_members (parse_value f) k' (acc @ [reread_member c]) (bat C D m)
      = Inr (True, (acc @ [reread_member c]) @ map reread_member cs, bat C D (CHR ''}'' # r))"
      unfolding m using Cons.prems(1,6,7) False v u' sfm m k sps(2) indent_space by (intro Cons.IH) auto
    then show ?thesis using step sfm by (simp add: m bat_skip0 bat_at_char)
  qed
qed simp

lemma text_members_length:
  "text_members fmt d (map (\<lambda>c. (cj_string c, text_of fmt d c)) cs) = Some u \<Longrightarrow> length cs \<le> length u"
proof (induction cs arbitrary: u)
  case (Cons c cs)
  then show ?case by (fastforce simp: ocat_Some_iff string_text_def)
qed simp

lemma parse_object_text:
  assumes "\<forall>c \<in> set cs. reads f (Suc D) fmt d (Some (text_value (cj_string c))) c \<and> json_tree c"
    "text_members fmt d (map (\<lambda>c. (cj_string c, text_of fmt d c)) cs) = Some v"
    "suffix (CHR ''{'' # nl @ v @ w' @ CHR ''}'' # r) C" "\<forall>x \<in> set nl. json_space x" "\<forall>x \<in> set w'. json_space x"
    "D < CJSON_NESTING_LIMIT" "blank name item"
  shows "parse_object (parse_value f) item (bat C D (CHR ''{'' # nl @ v @ w' @ CHR ''}'' # r))
    = Inr (True, CJson cJSON_Object None 0 (DFin 0) name (map reread_member cs), bat C D r)"
proof -
  have sf0: "suffix (nl @ v @ w' @ CHR ''}'' # r) C" using assms(3) by (rule suffix_tail)
  have sf2: "suffix (v @ w' @ CHR ''}'' # r) C" using sf0 by (rule suffix_tail)
  have sf3: "suffix (w' @ CHR ''}'' # r) C" using sf2 by (rule suffix_tail)
  have sf1: "suffix (CHR ''}'' # r) C" using sf3 by (rule suffix_tail)
  have ch: "set_children cJSON_Object cs' item = CJson cJSON_Object None 0 (DFin 0) name cs'" for cs'
    using assms(7) by (auto simp: blank_def)
  show ?thesis
  proof (cases "cs = []")
    case True
    have "\<forall>x \<in> set (nl @ w'). json_space x" using assms(4,5) by auto
    then have "buffer_skip_whitespace (bat C (Suc D) (nl @ w' @ CHR ''}'' # r)) = bat C (Suc D) (CHR ''}'' # r)"
      using sf0 assms(2) True bat_skip [of "nl @ w'" "CHR ''}''" r C "Suc D"] by simp
    then show ?thesis using assms(2,3,6) sf1 ch True
      by (simp add: parse_object_def Let_def bat_ahead1 [unfolded One_nat_def] bat_at_char)
  next
    case False
    then obtain c cs' where cs: "cs = c # cs'" by (cases cs) auto
    then obtain u u' where v: "v = indent fmt d @ u" and u: "u = CHR 0x22 # u'"
      using assms(2) by (auto simp: ocat_Some_iff indent_def string_text_value)
    define pre where "pre = CHR ''{'' # nl @ indent fmt d"
    obtain x where x: "suffix (x # u @ w' @ CHR ''}'' # r) C"
    proof -
      have "pre = butlast pre @ [last pre]" by (simp add: pre_def)
      then have "suffix (butlast pre @ last pre # u @ w' @ CHR ''}'' # r) C"
        using assms(3) v by (metis append.assoc append_Cons append_Nil pre_def)
      then show ?thesis by (intro that) (rule suffix_tail)
    qed
    have skip: "buffer_skip_whitespace (bat C (Suc D) (nl @ v @ w' @ CHR ''}'' # r)) = bat C (Suc D) (u @ w' @ CHR ''}'' # r)"
      using sf0 assms(4) indent_space bat_skip [of "nl @ indent fmt d" "CHR 0x22" "u' @ w' @ CHR ''}'' # r" C "Suc D"]
      by (auto simp: v u)
    have sfu: "suffix (u @ w' @ CHR ''}'' # r) C" using x by (rule suffix_tail)
    have len: "length cs \<le> length C"
      using text_members_length [OF assms(2)] suffix_length_le [OF sf2] by simp
    have mem: "object_members (parse_value f) (length C) [] (bat C (Suc D) (x # u @ w' @ CHR ''}'' # r))
      = Inr (True, map reread_member cs, bat C (Suc D) (CHR ''}'' # r))"
      using object_members_text [OF assms(1) False, of u x "[]" w' r C "length C" "[]"] assms(2,5) v x len by simp
    show ?thesis using assms(3,6) sfu sf1 mem skip ch bat_back [OF x, of "Suc D"]
      by (simp add: parse_object_def Let_def bat_ahead1 [unfolded One_nat_def] bat_at_char bat_can_access u)
  qed
qed

lemma dispatch:
  assumes "suffix (y # t) C"
  shows "y = CHR 0x22 \<Longrightarrow> parse_value (Suc f) item (bat C D (y # t)) = parse_string item (bat C D (y # t))"
    "y = CHR ''-'' \<or> is_digit y \<Longrightarrow> parse_value (Suc f) item (bat C D (y # t)) = Inr (parse_number item (bat C D (y # t)))"
    "y = CHR ''['' \<Longrightarrow> parse_value (Suc f) item (bat C D (y # t)) = parse_array (parse_value f) item (bat C D (y # t))"
    "y = CHR ''{'' \<Longrightarrow> parse_value (Suc f) item (bat C D (y # t)) = parse_object (parse_value f) item (bat C D (y # t))"
  using assms by (auto simp: bat_literal bat_at_char bat_can_access bat_nth is_digit_def)

lemma literal_value:
  assumes "suffix (s @ r) C"
  shows "s = ''null'' \<Longrightarrow> parse_value (Suc f) item (bat C D (s @ r)) = Inr (True, set_type cJSON_NULL item, bat C D r)"
    "s = ''false'' \<Longrightarrow> parse_value (Suc f) item (bat C D (s @ r)) = Inr (True, set_type cJSON_False item, bat C D r)"
    "s = ''true'' \<Longrightarrow> parse_value (Suc f) item (bat C D (s @ r)) = Inr (True, set_true item, bat C D r)"
proof -
  have at: "at_literal (bat C D (s @ r)) l \<longleftrightarrow> prefix l (s @ r)" for l using bat_literal [OF assms] .
  show "s = ''null'' \<Longrightarrow> parse_value (Suc f) item (bat C D (s @ r)) = Inr (True, set_type cJSON_NULL item, bat C D r)"
    "s = ''false'' \<Longrightarrow> parse_value (Suc f) item (bat C D (s @ r)) = Inr (True, set_type cJSON_False item, bat C D r)"
    "s = ''true'' \<Longrightarrow> parse_value (Suc f) item (bat C D (s @ r)) = Inr (True, set_true item, bat C D r)"
    using at [of "''null''"] at [of "''false''"] at [of "''true''"] bat_ahead [OF assms, of D] by (simp_all add: numeral_eq_Suc)
qed

lemma number_value:
  assumes "suffix (t @ r) C" "stops r" "\<forall>c \<in> set t. number_char c" "t \<noteq> []" "length t \<le> 62" "strtod t = (d, length t)"
    "hd t = CHR ''-'' \<or> is_digit (hd t)" "blank name item"
  shows "parse_value (Suc f) item (bat C D (t @ r)) = Inr (True, CJson cJSON_Number None (valueint_of d) d name [], bat C D r)"
proof -
  obtain y t' where t: "t = y # t'" using assms(4) by (cases t) auto
  have "parse_value (Suc f) item (bat C D (t @ r)) = Inr (parse_number item (bat C D (t @ r)))"
    using assms(1,7) by (simp only: t append_Cons list.sel dispatch(2))
  then show ?thesis using parse_number_text [OF assms(1-6)] assms(8) by (auto simp: blank_def)
qed

section \<open>The round trip\<close>

lemma nest_children:
  assumes "t = cJSON_Array \<or> t = cJSON_Object"
  shows "nest (CJson t vs vi vd s cs) = Suc (fold max (map nest cs) 0)"
  using assms by auto

lemma nest_child: "c \<in> set cs \<Longrightarrow> nest c \<le> fold max (map nest cs) 0"
  using fold_max_le [of "map nest cs" 0 "fold max (map nest cs) 0"] by auto

lemma reads_leaf:
  assumes "json_tree (CJson ty vs vi vd s cs)" "ty AND 0xFF \<noteq> cJSON_Array" "ty AND 0xFF \<noteq> cJSON_Object"
  shows "reads (Suc f) D fmt d name (CJson ty vs vi vd s cs)"
  unfolding reads_def
proof (intro allI impI, elim conjE)
  fix C r t item
  assume t: "text_of fmt d (CJson ty vs vi vd s cs) = Some t" and sf: "suffix (t @ r) C" and st: "stops r" and b: "blank name item"
  obtain bt where b': "item = CJson bt None 0 (DFin 0) name []" using b by (auto simp: blank_def)
  define ty' where "ty' = ty AND 0xFF"
  note val = b' text_of.simps reread.simps ty'_def cJSON_types
  consider "ty' = cJSON_NULL" | "ty' = cJSON_False" | "ty' = cJSON_True" | "ty' = cJSON_Number" | "ty' = cJSON_Raw" | "ty' = cJSON_String"
    using assms by (auto simp: ty'_def Let_def split: if_splits)
  then show "parse_value (Suc f) item (bat C D (t @ r)) = Inr (True, reread name (CJson ty vs vi vd s cs), bat C D r)"
  proof cases
    case 1
    then show ?thesis using t literal_value(1) [OF sf] by (simp add: val del: parse_value.simps)
  next
    case 2
    then show ?thesis using t literal_value(2) [OF sf] by (simp add: val del: parse_value.simps)
  next
    case 3
    then show ?thesis using t literal_value(3) [OF sf] by (simp add: val del: parse_value.simps)
  next
    case 4
    then have "readable vd" "t = number_string vd" using assms(1) t by (simp_all add: val)
    then have "parse_value (Suc f) item (bat C D (t @ r)) = Inr (True, CJson cJSON_Number None (valueint_of vd) vd name [], bat C D r)"
      using sf st readable_text [of vd] b by (intro number_value) auto
    then show ?thesis using 4 by (simp add: val del: parse_value.simps)
  next
    case 5
    then have dt: "digit_text (text_value vs)" "t = text_value vs" using assms(1) t by (auto simp: val text_value_def)
    then have "parse_value (Suc f) item (bat C D (t @ r))
      = Inr (True, CJson cJSON_Number None (valueint_of (fst (strtod t))) (fst (strtod t)) name [], bat C D r)"
      using sf st digit_text_read [OF dt(1)] b by (intro number_value) (auto simp: digit_text_def)
    then show ?thesis using 5 dt(2) by (simp add: val del: parse_value.simps)
  next
    case 6
    then have ts: "t = string_text vs" using t by (simp add: val)
    then have "parse_value (Suc f) item (bat C D (t @ r)) = parse_string item (bat C D (t @ r))"
      using sf by (simp only: string_text_value append_Cons dispatch(1))
    then show ?thesis using 6 parse_string_text [of vs r C item D] sf by (simp add: ts val del: parse_value.simps)
  qed
qed

lemma reads_array:
  assumes "ty AND 0xFF = cJSON_Array" "\<forall>c \<in> set cs. reads f (Suc D) fmt (Suc d) None c \<and> json_tree c" "D < CJSON_NESTING_LIMIT"
  shows "reads (Suc f) D fmt d name (CJson ty vs vi vd s cs)"
  unfolding reads_def
proof (intro allI impI, elim conjE)
  fix C r t item
  assume t: "text_of fmt d (CJson ty vs vi vd s cs) = Some t" and sf: "suffix (t @ r) C" and b: "blank name item"
  obtain u where u: "text_elements fmt (map (text_of fmt (Suc d)) cs) = Some u" "t = CHR ''['' # u @ '']''"
    using t assms(1) by (auto simp: text_of.simps cJSON_types ocat_Some_iff)
  have "parse_array (parse_value f) item (bat C D (CHR ''['' # u @ CHR '']'' # r))
      = Inr (True, CJson cJSON_Array None 0 (DFin 0) name (map (reread None) cs), bat C D r)"
    using u sf assms(2,3) b by (intro parse_array_text) auto
  then show "parse_value (Suc f) item (bat C D (t @ r)) = Inr (True, reread name (CJson ty vs vi vd s cs), bat C D r)"
    using dispatch(3) [of _ "u @ CHR '']'' # r" C f item D] sf assms(1)
    by (simp add: reread.simps cJSON_types u del: parse_value.simps)
qed

lemma reads_object:
  assumes "ty AND 0xFF = cJSON_Object" "D < CJSON_NESTING_LIMIT"
    "\<forall>c \<in> set cs. reads f (Suc D) fmt (Suc d) (Some (text_value (cj_string c))) c \<and> json_tree c"
  shows "reads (Suc f) D fmt d name (CJson ty vs vi vd s cs)"
  unfolding reads_def
proof (intro allI impI, elim conjE)
  fix C r t item
  assume t: "text_of fmt d (CJson ty vs vi vd s cs) = Some t" and sf: "suffix (t @ r) C" and b: "blank name item"
  define nl where "nl = (if fmt then [CHR 0x0A] else [])"
  obtain v where v: "text_members fmt (Suc d) (map (\<lambda>c. (cj_string c, text_of fmt (Suc d) c)) cs) = Some v"
      "t @ r = CHR ''{'' # nl @ v @ indent fmt d @ CHR ''}'' # r"
    using t assms(1) by (auto simp: text_of.simps cJSON_types ocat_Some_iff nl_def indent_def)
  have "parse_object (parse_value f) item (bat C D (CHR ''{'' # nl @ v @ indent fmt d @ CHR ''}'' # r))
      = Inr (True, CJson cJSON_Object None 0 (DFin 0) name (map reread_member cs), bat C D r)"
    using sf v assms(2) b indent_space by (intro parse_object_text [OF assms(3)]) (auto simp: nl_def)
  then show "parse_value (Suc f) item (bat C D (t @ r)) = Inr (True, reread name (CJson ty vs vi vd s cs), bat C D r)"
    using dispatch(4) [of _ "nl @ v @ indent fmt d @ CHR ''}'' # r" C f item D] sf assms(1)
    by (simp add: reread.simps cJSON_types reread_member_def v del: parse_value.simps)
qed

lemma reads_value:
  "json_tree j \<Longrightarrow> nest (reread name j) < f \<Longrightarrow> nest (reread name j) + D \<le> CJSON_NESTING_LIMIT \<Longrightarrow> reads f D fmt d name j"
proof (induction j arbitrary: f D d name)
  case (CJson ty vs vi vd s cs)
  obtain f' where f: "f = Suc f'" using CJson.prems(2) by (cases f) auto
  have jt: "json_tree c" if "c \<in> set cs" "ty AND 0xFF = cJSON_Array \<or> ty AND 0xFF = cJSON_Object" for c
    using CJson.prems(1) that by (auto simp: cJSON_types list_all_iff)
  consider "ty AND 0xFF = cJSON_Array" | "ty AND 0xFF = cJSON_Object"
    | "ty AND 0xFF \<noteq> cJSON_Array \<and> ty AND 0xFF \<noteq> cJSON_Object" by blast
  then show ?case
  proof cases
    case 1
    then have rr: "reread name (CJson ty vs vi vd s cs) = CJson cJSON_Array None 0 (DFin 0) name (map (reread None) cs)"
      by (simp add: reread.simps cJSON_types)
    have "reads f' (Suc D) fmt (Suc d) None c" if "c \<in> set cs" for c
      using CJson.IH [OF that] jt [OF that] nest_child [of "reread None c" "map (reread None) cs"] CJson.prems(2,3) 1 that
      by (simp add: rr f)
    then show ?thesis unfolding f using 1 jt CJson.prems(3) by (intro reads_array) (auto simp: rr)
  next
    case 2
    then have rr: "reread name (CJson ty vs vi vd s cs) = CJson cJSON_Object None 0 (DFin 0) name (map reread_member cs)"
      by (simp add: reread.simps cJSON_types reread_member_def)
    have "reads f' (Suc D) fmt (Suc d) (Some (text_value (cj_string c))) c" if "c \<in> set cs" for c
      using CJson.IH [OF that] jt [OF that] nest_child [of "reread_member c" "map reread_member cs"] CJson.prems(2,3) 2 that
      by (simp add: rr f reread_member_def)
    then show ?thesis unfolding f using 2 jt CJson.prems(3) by (intro reads_object) (auto simp: rr)
  next
    case 3
    then show ?thesis unfolding f using CJson.prems(1) by (intro reads_leaf) auto
  qed
qed

lemma parse_text:
  assumes "json_tree j" "nest (reread None j) \<le> CJSON_NESTING_LIMIT" "text_of fmt 0 j = Some s"
  shows "cJSON_ParseWithOpts (Some s) rq
    = Inr \<lparr>pr_item = Some (reread None j), pr_end = Some (length s), pr_error_at = None\<rparr>"
proof -
  define C where "C = s @ [CHR 0x00]"
  have start: "\<lparr>content = s @ [CHR 0x00], offset = 0, depth = 0\<rparr> = bat C 0 (s @ [CHR 0x00])" by (simp add: bat_def C_def)
  have sf: "suffix (s @ [CHR 0x00]) C" "suffix [CHR 0x00] C" by (simp_all add: C_def)
  have s: "starts s" using assms(1,3) by (rule text_starts)
  then have "take 3 C \<noteq> [CHR 0xEF, CHR 0xBB, CHR 0xBF]" by (cases s) (auto simp: starts_def C_def)
  then have bom: "skip_utf8_bom (bat C 0 (s @ [CHR 0x00])) = Some (bat C 0 (s @ [CHR 0x00]))"
    by (simp add: skip_utf8_bom_def) (simp add: bat_def C_def)
  have ws: "buffer_skip_whitespace (bat C 0 (s @ [CHR 0x00])) = bat C 0 (s @ [CHR 0x00])"
    using skip_to_text [of "[]" s "[CHR 0x00]" C 0] sf(1) s by simp
  have "reads (CJSON_NESTING_LIMIT + 1) 0 fmt 0 None j" using assms(1,2) by (intro reads_value) auto
  then have p: "parse_value (CJSON_NESTING_LIMIT + 1) cJSON_New_Item (bat C 0 (s @ [CHR 0x00]))
      = Inr (True, reread None j, bat C 0 [CHR 0x00])"
    using assms(3) sf(1) marks(14) blank_new by (rule readsD)
  have fin: "buffer_skip_whitespace (bat C 0 [CHR 0x00]) = bat C 0 [CHR 0x00]" "offset (bat C 0 [CHR 0x00]) = length s"
    "C ! length s = CHR 0x00" "length C = Suc (length s)"
    by (simp_all add: buffer_skip_whitespace_def bat_def C_def ahead_def step_back_def json_space_def)
  show ?thesis
    using p fin unfolding cJSON_ParseWithOpts_def option.case Let_def start bom ws
    by (simp del: parse_value.simps)
qed

text \<open>
  C6: Printing and parsing are inverse. A tree of JSON values - at most 1000 levels deep, its numbers readable,
  its text at least four bytes below half of \<open>INT_MAX\<close> - is printed, compact or formatted, and
  \<open>cJSON_ParseWithOpts\<close> reads the whole text back as the same tree: the same structure, names, texts and
  numbers, with the flag bits cleared, the types exact and raw digits read as the number they denote.
\<close>

theorem print_parse_roundtrip:
  assumes "doubles j" "json_tree j" "nest (reread None j) \<le> CJSON_NESTING_LIMIT"
    and "text_of fmt 0 j = Some s" "length s + 4 \<le> INT_MAX_SIZE div 2"
  shows "print (\<lambda>m. True) (Some j) fmt = Inr (Some s)
    \<and> cJSON_ParseWithOpts (Some s) require_null_terminated
      = Inr \<lparr>pr_item = Some (reread None j), pr_end = Some (length s), pr_error_at = None\<rparr>"
  using print_result [OF assms(1), of "\<lambda>m. True" fmt] parse_text [OF assms(2-4)] assms(4,5) by auto

theorem print_parse_roundtrip_witness:
  "cJSON_ParseWithOpts (Some print_example_text) True
    = Inr \<lparr>pr_item = Some print_example, pr_end = Some 26, pr_error_at = None\<rparr>"
proof -
  have r: "reread None print_example = print_example" "json_tree print_example" by code_simp+
  have n: "nest (reread None print_example) \<le> CJSON_NESTING_LIMIT"
    unfolding r(1) by (simp add: print_example_def cJSON_types CJSON_NESTING_LIMIT_def)
  show ?thesis
    using print_parse_roundtrip [OF print_example_facts(1) r(2) n print_example_facts(2), of True]
    by (simp add: r(1) print_example_facts(3) INT_MAX_SIZE_def)
qed

end
