(* ===== verification/Cjson_Minify.thy ===== *)
theory Cjson_Minify
  imports Cjson_Roundtrip
begin

unbundle bit_operations_syntax

text \<open>
  \<open>cJSON_Minify\<close>: white space and comments are removed from a text in place. The state of the loop is the text with
  its NUL and the positions written to and read from. Reading or writing outside the text is
  \<open>Inl BufferOverflow\<close>: a comment or a string that is not closed leads there. The formatted text of a tree is
  minified to its compact text.
\<close>

section \<open>The function\<close>

definition copy_char :: "string \<Rightarrow> nat \<Rightarrow> nat \<Rightarrow> string cres" where
  "copy_char mem into json =
     cbind (rd mem json) (\<lambda>c. if into < length mem then Inr (mem[into := c]) else Inl BufferOverflow)"

function skip_line :: "string \<Rightarrow> nat \<Rightarrow> nat cres" where
  "skip_line mem json =
     (if length mem \<le> json then Inl BufferOverflow
      else if mem ! json \<noteq> CHR 0x00 \<and> mem ! json \<noteq> CHR 0x0A then skip_line mem (Suc json) else Inr json)"
  by pat_completeness auto
termination by (relation "measure (\<lambda>(mem, json). length mem - json)") auto

function skip_block :: "string \<Rightarrow> nat \<Rightarrow> nat cres" where
  "skip_block mem json =
     (if length mem \<le> json then Inl BufferOverflow
      else if mem ! json = CHR 0x00 then Inr (json + 2)
      else if mem ! json = CHR ''*'' \<and> length mem \<le> Suc json then Inl BufferOverflow
      else if mem ! json = CHR ''*'' \<and> mem ! Suc json = CHR ''/'' then Inr (json + 2)
      else skip_block mem (Suc json))"
  by pat_completeness auto
termination by (relation "measure (\<lambda>(mem, json). length mem - json)") auto

text \<open>The inside of a string literal, up to the closing quote or the NUL; each round consumes a character, \<open>k\<close> bounds them.\<close>

fun copy_inside :: "nat \<Rightarrow> string \<Rightarrow> nat \<Rightarrow> nat \<Rightarrow> (string \<times> nat \<times> nat) cres" where
  "copy_inside 0 mem into json = Inl OutOfFuel"
| "copy_inside (Suc k) mem into json =
     cbind (rd mem json) (\<lambda>c.
     if c = CHR 0x00 \<or> c = CHR 0x22 then Inr (mem, into, json)
     else if c = CHR 0x5C then
       cbind (copy_char mem into json) (\<lambda>mem.
       cbind (copy_char mem (Suc into) (Suc json)) (\<lambda>mem. copy_inside k mem (into + 2) (json + 2)))
     else cbind (copy_char mem into json) (\<lambda>mem. copy_inside k mem (Suc into) (Suc json)))"

definition copy_string :: "string \<Rightarrow> nat \<Rightarrow> nat \<Rightarrow> (string \<times> nat \<times> nat) cres" where
  "copy_string mem into json =
     cbind (copy_char mem into json) (\<lambda>mem.
     cbind (copy_inside (Suc (length mem)) mem (Suc into) (Suc json)) (\<lambda>(mem, into, json).
     cbind (copy_char mem into json) (\<lambda>mem. Inr (mem, Suc into, Suc json))))"

definition blank_char :: "char \<Rightarrow> bool" where
  "blank_char c \<longleftrightarrow> c = CHR '' '' \<or> c = CHR 0x09 \<or> c = CHR 0x0D \<or> c = CHR 0x0A"

fun minify_loop :: "nat \<Rightarrow> string \<Rightarrow> nat \<Rightarrow> nat \<Rightarrow> (string \<times> nat) cres" where
  "minify_loop 0 mem into json = Inl OutOfFuel"
| "minify_loop (Suc k) mem into json =
     cbind (rd mem json) (\<lambda>c.
     if c = CHR 0x00 then Inr (mem, into)
     else if blank_char c then minify_loop k mem into (Suc json)
     else cbind (if c = CHR ''/'' then rd mem (Suc json) else Inr c) (\<lambda>c1.
       if c = CHR ''/'' \<and> c1 = CHR ''/'' then cbind (skip_line mem json) (minify_loop k mem into)
       else if c = CHR ''/'' \<and> c1 = CHR ''*'' then cbind (skip_block mem json) (minify_loop k mem into)
       else if c = CHR 0x22 then
         cbind (copy_string mem into json) (\<lambda>(mem, into, json). minify_loop k mem into json)
       else cbind (copy_char mem into json) (\<lambda>mem. minify_loop k mem (Suc into) (Suc json))))"

text \<open>The text the buffer holds afterwards; a round consumes at least one character.\<close>

definition cJSON_Minify :: "cstr \<Rightarrow> cstr cres" where
  "cJSON_Minify json =
     (case json of
        None \<Rightarrow> Inr None
      | Some s \<Rightarrow>
          cbind (minify_loop (length s + 2) (s @ [CHR 0x00]) 0 0) (\<lambda>(mem, into).
          if into < length mem then Inr (Some (c_text (mem[into := CHR 0x00]))) else Inl BufferOverflow))"

declare skip_line.simps [simp del]
declare skip_block.simps [simp del]

section \<open>What a piece of text becomes\<close>

text \<open>Before the position read from, \<open>out\<close> has been written; from it on, \<open>rest\<close> is still to be read.\<close>

definition minifying :: "string \<Rightarrow> nat \<Rightarrow> nat \<Rightarrow> string \<Rightarrow> string \<Rightarrow> bool" where
  "minifying mem into json out rest \<longleftrightarrow>
     into \<le> json \<and> json \<le> length mem \<and> take into mem = out \<and> drop json mem = rest"

lemma copy_minifying:
  assumes "minifying mem into json out (c # rest)"
  shows "rd mem json = Inr c" "copy_char mem into json = Inr (mem[into := c])"
    "minifying (mem[into := c]) (Suc into) (Suc json) (out @ [c]) rest" "minifying mem into (Suc json) out rest"
proof -
  have a: "into \<le> json" "take into mem = out" "drop json mem = c # rest" using assms by (simp_all add: minifying_def)
  then have lt: "json < length mem" by (metis drop_all leI list.distinct(1))
  have nx: "mem ! json = c" "drop (Suc json) mem = rest"
    using a(3) lt by (simp_all flip: Cons_nth_drop_Suc)
  show "rd mem json = Inr c" using lt nx by (simp add: rd_def)
  then show "copy_char mem into json = Inr (mem[into := c])" using a(1) lt by (simp add: copy_char_def)
  show "minifying (mem[into := c]) (Suc into) (Suc json) (out @ [c]) rest"
    using a lt nx(2) by (simp add: minifying_def take_Suc_conv_app_nth)
  show "minifying mem into (Suc json) out rest" using a lt nx(2) by (simp add: minifying_def)
qed

text \<open>
  A loop over the text turns the piece \<open>u\<close> into \<open>v\<close>, in at most as many rounds as \<open>u\<close> has characters. Both loops
  of the function are instances.
\<close>

definition turns :: "(nat \<Rightarrow> string \<Rightarrow> nat \<Rightarrow> nat \<Rightarrow> 'r) \<Rightarrow> string \<Rightarrow> string \<Rightarrow> bool" where
  "turns loop u v \<longleftrightarrow> (\<forall>mem into json out rest. minifying mem into json out (u @ rest) \<longrightarrow>
     (\<exists>n mem' into' json'. n \<le> length u \<and> (\<forall>k. loop (n + k) mem into json = loop k mem' into' json')
        \<and> minifying mem' into' json' (out @ v) rest))"

lemma turns_Nil: "turns loop [] []"
proof -
  have "\<exists>n mem' into' json'. n \<le> length [] \<and> (\<forall>k. loop (n + k) mem into json = loop k mem' into' json')
      \<and> minifying mem' into' json' (out @ []) rest" if "minifying mem into json out ([] @ rest)" for mem into json out rest
    using that by (intro exI [of _ 0] exI [of _ mem] exI [of _ into] exI [of _ json]) simp
  then show ?thesis unfolding turns_def by blast
qed

lemma turnsE:
  assumes "turns loop u v" "minifying mem into json out (u @ rest)"
  obtains n mem' into' json' where "n \<le> length u" "\<And>k. loop (n + k) mem into json = loop k mem' into' json'"
    "minifying mem' into' json' (out @ v) rest"
  using assms unfolding turns_def by blast

lemma turns_round:
  assumes "\<And>k mem into json out rest. minifying mem into json out (u @ rest)
      \<Longrightarrow> \<exists>mem' into' json'. (\<forall>k. loop (Suc k) mem into json = loop k mem' into' json') \<and> minifying mem' into' json' (out @ v) rest"
    "u \<noteq> []"
  shows "turns loop u v"
proof -
  have "\<exists>n mem' into' json'. n \<le> length u \<and> (\<forall>k. loop (n + k) mem into json = loop k mem' into' json')
      \<and> minifying mem' into' json' (out @ v) rest" if "minifying mem into json out (u @ rest)" for mem into json out rest
    using assms(1) [OF that] assms(2) by (intro exI [of _ 1]) (auto simp: Suc_le_eq)
  then show ?thesis unfolding turns_def by blast
qed

lemma turns_append:
  assumes "turns loop u v" "turns loop u' v'"
  shows "turns loop (u @ u') (v @ v')"
proof -
  have "\<exists>n mem' into' json'. n \<le> length (u @ u') \<and> (\<forall>k. loop (n + k) mem into json = loop k mem' into' json')
      \<and> minifying mem' into' json' (out @ v @ v') rest" if m: "minifying mem into json out ((u @ u') @ rest)"
    for mem into json out rest
  proof -
    obtain n1 mem1 into1 json1 where 1: "n1 \<le> length u" "\<And>k. loop (n1 + k) mem into json = loop k mem1 into1 json1"
      "minifying mem1 into1 json1 (out @ v) (u' @ rest)" using turnsE [OF assms(1)] m by (metis append.assoc)
    obtain n2 mem2 into2 json2 where 2: "n2 \<le> length u'" "\<And>k. loop (n2 + k) mem1 into1 json1 = loop k mem2 into2 json2"
      "minifying mem2 into2 json2 ((out @ v) @ v') rest" using turnsE [OF assms(2) 1(3)] by metis
    have "loop (n1 + n2 + k) mem into json = loop k mem2 into2 json2" for k using 1(2) [of "n2 + k"] 2(2) by (simp add: add.assoc)
    then show ?thesis using 1(1) 2(1,3) by (intro exI [of _ "n1 + n2"] exI conjI) auto
  qed
  then show ?thesis unfolding turns_def by blast
qed

lemma turns_concat: "(\<And>x. x \<in> set xs \<Longrightarrow> turns loop (f x) (g x)) \<Longrightarrow> turns loop (concat (map f xs)) (concat (map g xs))"
  by (induction xs) (auto simp: turns_Nil turns_append)

section \<open>The inside of a string\<close>

lemma turns_copy:
  assumes "\<And>k mem into json mem'. rd mem json = Inr c \<Longrightarrow> copy_char mem into json = Inr mem'
      \<Longrightarrow> loop (Suc k) mem into json = loop k mem' (Suc into) (Suc json)"
  shows "turns loop [c] [c]"
proof (rule turns_round)
  fix k :: nat and mem into json out rest
  assume "minifying mem into json out ([c] @ rest)"
  then have m: "minifying mem into json out (c # rest)" by simp
  have "loop (Suc k) mem into json = loop k (mem[into := c]) (Suc into) (Suc json)" for k
    by (rule assms [OF copy_minifying(1,2) [OF m]])
  then show "\<exists>mem' into' json'. (\<forall>k. loop (Suc k) mem into json = loop k mem' into' json') \<and> minifying mem' into' json' (out @ [c]) rest"
    using copy_minifying(3) [OF m] by blast
qed simp

lemma inside_plain: "c \<notin> {CHR 0x00, CHR 0x22, CHR 0x5C} \<Longrightarrow> turns copy_inside [c] [c]"
  by (rule turns_copy) simp

lemma inside_escape: "turns copy_inside [CHR 0x5C, x] [CHR 0x5C, x]"
proof (rule turns_round)
  fix k :: nat and mem into json out rest
  assume m: "minifying mem into json out ([CHR 0x5C, x] @ rest)"
  define mem1 where "mem1 = mem[into := CHR 0x5C]"
  have 1: "rd mem json = Inr (CHR 0x5C)" "copy_char mem into json = Inr mem1" "minifying mem1 (Suc into) (Suc json) (out @ [CHR 0x5C]) (x # rest)"
    using copy_minifying [of mem into json out "CHR 0x5C" "x # rest"] m by (simp_all add: mem1_def)
  note 2 = copy_minifying [OF 1(3)]
  have "copy_inside (Suc k) mem into json = copy_inside k (mem1[Suc into := x]) (into + 2) (json + 2)" for k
    using 1 2(2) by simp
  then show "\<exists>mem' into' json'. (\<forall>k. copy_inside (Suc k) mem into json = copy_inside k mem' into' json')
      \<and> minifying mem' into' json' (out @ [CHR 0x5C, x]) rest"
    using 2(3) by (intro exI [of _ "mem1[Suc into := x]"] exI [of _ "into + 2"] exI [of _ "json + 2"]) simp
qed simp

lemma inside_char:
  assumes "c \<noteq> CHR 0x00"
  shows "turns copy_inside (escape_text c) (escape_text c)"
proof (cases rule: escape_cases [of c])
  case plain
  then show ?thesis using inside_plain [of c] assms by auto
next
  case (short x)
  then show ?thesis by (simp add: inside_escape)
next
  case hex
  define a b where "a = hex_char (of_char c div 16)" and "b = hex_char (of_char c mod 16)"
  have nul: "a \<noteq> CHR 0x00" "b \<noteq> CHR 0x00"
    using hex_char_code [OF of_char_halves(1), of c] hex_char_code [OF of_char_halves(2), of c] of_char_zero
    by (auto simp: a_def b_def split: if_splits)
  have pl: "turns copy_inside [a] [a]" "turns copy_inside [b] [b]" "turns copy_inside ''0'' ''0''"
    using nul hex_char_plain [OF of_char_halves(1), of c] hex_char_plain [OF of_char_halves(2), of c]
    by (auto intro!: inside_plain simp: a_def b_def)
  have "turns copy_inside ([CHR 0x5C, CHR ''u''] @ ''0'' @ ''0'' @ [a] @ [b]) ([CHR 0x5C, CHR ''u''] @ ''0'' @ ''0'' @ [a] @ [b])"
    by (intro turns_append inside_escape pl)
  then show ?thesis using hex by (simp add: a_def b_def)
qed

lemma inside_string: "turns copy_inside (concat (map escape_text (text_value v))) (concat (map escape_text (text_value v)))"
  by (rule turns_concat, rule inside_char) (use c_text_no_nul in \<open>auto simp: text_value_def split: option.splits\<close>)

section \<open>The text of a tree\<close>

lemma minify_blank:
  assumes "blank_char c"
  shows "turns minify_loop [c] []"
proof (rule turns_round)
  fix k :: nat and mem into json out rest
  assume "minifying mem into json out ([c] @ rest)"
  then have m: "minifying mem into json out (c # rest)" by simp
  have "c \<noteq> CHR 0x00" using assms by (auto simp: blank_char_def)
  then have "minify_loop (Suc k) mem into json = minify_loop k mem into (Suc json)" for k
    using copy_minifying(1) [OF m] assms by simp
  then show "\<exists>mem' into' json'. (\<forall>k. minify_loop (Suc k) mem into json = minify_loop k mem' into' json') \<and> minifying mem' into' json' (out @ []) rest"
    using copy_minifying(4) [OF m] by auto
qed simp

definition kept_char :: "char \<Rightarrow> bool" where
  "kept_char c \<longleftrightarrow> \<not> blank_char c \<and> c \<notin> {CHR 0x00, CHR 0x22, CHR ''/''}"

lemma minify_char: "kept_char c \<Longrightarrow> turns minify_loop [c] [c]"
  by (rule turns_copy) (simp add: kept_char_def)

lemma minify_kept: "\<forall>c \<in> set s. kept_char c \<Longrightarrow> turns minify_loop s s"
  using turns_concat [of s minify_loop "\<lambda>c. [c]" "\<lambda>c. [c]"] minify_char by simp

lemma minify_blanks:
  assumes "\<forall>c \<in> set s. blank_char c"
  shows "turns minify_loop s []"
proof -
  have eq: "concat (map (\<lambda>c. []) s) = ([] :: string)" by (induction s) simp_all
  have "turns minify_loop (concat (map (\<lambda>c. [c]) s)) (concat (map (\<lambda>c. []) s))"
    using assms by (intro turns_concat minify_blank) auto
  then show ?thesis unfolding eq by simp
qed

lemma minify_string: "turns minify_loop (string_text v) (string_text v)"
proof (rule turns_round)
  fix k :: nat and mem into json out rest
  define e where "e = concat (map escape_text (text_value v))"
  assume "minifying mem into json out (string_text v @ rest)"
  then have m: "minifying mem into json out (CHR 0x22 # e @ CHR 0x22 # rest)" by (simp add: string_text_value e_def)
  define mem1 where "mem1 = mem[into := CHR 0x22]"
  note 1 = copy_minifying [OF m, folded mem1_def]
  obtain n mem2 into2 json2 where 2: "n \<le> length e" "\<And>k. copy_inside (n + k) mem1 (Suc into) (Suc json) = copy_inside k mem2 into2 json2"
    "minifying mem2 into2 json2 ((out @ [CHR 0x22]) @ e) (CHR 0x22 # rest)"
    using turnsE [OF inside_string [of v, folded e_def] 1(3)] by metis
  note 3 = copy_minifying [OF 2(3)]
  have "length e \<le> length mem1" using m by (auto simp: minifying_def mem1_def dest: arg_cong [of _ _ length])
  then obtain k' where k': "Suc (length mem1) = n + Suc k'" using 2(1) by (metis add_Suc_right le_Suc_ex le_trans)
  have "copy_inside (Suc (length mem1)) mem1 (Suc into) (Suc json) = Inr (mem2, into2, json2)"
    unfolding k' 2(2) using 3(1) by simp
  then have "copy_string mem into json = Inr (mem2[into2 := CHR 0x22], Suc into2, Suc json2)"
    using 1(2) 3(2) by (simp add: copy_string_def)
  then have "minify_loop (Suc k) mem into json = minify_loop k (mem2[into2 := CHR 0x22]) (Suc into2) (Suc json2)" for k
    using 1(1) by (simp add: blank_char_def)
  then show "\<exists>mem' into' json'. (\<forall>k. minify_loop (Suc k) mem into json = minify_loop k mem' into' json')
      \<and> minifying mem' into' json' (out @ string_text v) rest"
    using 3(3) by (auto simp: string_text_value e_def)
qed (simp add: string_text_value)

text \<open>A tree without raw text, which may be anything.\<close>

fun no_raw :: "cjson \<Rightarrow> bool" where
  "no_raw (CJson ty vs vi vd s cs) \<longleftrightarrow> ty AND 0xFF \<noteq> cJSON_Raw \<and> list_all no_raw cs"

lemma minify_elements:
  assumes "\<forall>c \<in> set cs. \<forall>s t. tx c = Some s \<longrightarrow> tx' c = Some t \<longrightarrow> turns minify_loop s t"
    "text_elements True (map tx cs) = Some u" "text_elements False (map tx' cs) = Some v"
  shows "turns minify_loop u v"
  using assms
proof (induction cs arbitrary: u v)
  case Nil
  then show ?case by (simp add: turns_Nil)
next
  case (Cons c cs)
  show ?case
  proof (cases "cs = []")
    case False
    obtain s t u' v' where 1: "tx c = Some s" "tx' c = Some t" "u = s @ '','' @ '' '' @ u'" "v = t @ '','' @ [] @ v'"
      "text_elements True (map tx cs) = Some u'" "text_elements False (map tx' cs) = Some v'"
      using Cons.prems(2,3) False by (auto simp: ocat_Some_iff)
    have "turns minify_loop '','' '',''" "turns minify_loop '' '' []"
      by (auto intro!: minify_char minify_blank simp: kept_char_def blank_char_def)
    then show ?thesis unfolding 1(3,4) using Cons.prems(1) 1 Cons.IH by (intro turns_append) auto
  qed (use Cons.prems in auto)
qed

lemma minify_members:
  assumes "\<forall>c \<in> set cs. \<forall>s t. tx c = Some s \<longrightarrow> tx' c = Some t \<longrightarrow> turns minify_loop s t"
    "text_members True d (map (\<lambda>c. (f c, tx c)) cs) = Some u" "text_members False e (map (\<lambda>c. (f c, tx' c)) cs) = Some v"
  shows "turns minify_loop u v"
  using assms
proof (induction cs arbitrary: u v)
  case Nil
  then show ?case by (simp add: turns_Nil)
next
  case (Cons c cs)
  define sep where "sep = (if cs = [] then [] else '','')"
  obtain s t u' v' where 1: "tx c = Some s" "tx' c = Some t"
    "u = tabs d @ string_text (f c) @ '':'' @ [CHR 0x09] @ s @ sep @ [CHR 0x0A] @ u'"
    "v = [] @ string_text (f c) @ '':'' @ [] @ t @ sep @ [] @ v'"
    "text_members True d (map (\<lambda>c. (f c, tx c)) cs) = Some u'" "text_members False e (map (\<lambda>c. (f c, tx' c)) cs) = Some v'"
    using Cons.prems(2,3) by (auto simp: ocat_Some_iff sep_def)
  have ws: "turns minify_loop (tabs d) []" "turns minify_loop [CHR 0x09] []" "turns minify_loop [CHR 0x0A] []"
    by (auto intro!: minify_blanks simp: blank_char_def tabs_def)
  have kp: "turns minify_loop sep sep" "turns minify_loop '':'' '':''"
    by (auto intro!: minify_kept simp: kept_char_def blank_char_def sep_def)
  show ?case unfolding 1(3,4) using Cons.prems(1) 1 Cons.IH by (intro turns_append minify_string ws kp) auto
qed

lemma number_kept: "\<forall>c \<in> set (number_string d). kept_char c"
proof -
  have "kept_char c" if "number_char c" for c
    using that by (auto simp: kept_char_def blank_char_def number_char_def is_digit_def)
  moreover have "\<forall>c \<in> set (fmt_g P r). number_char c" for P r using fmt_g_shape num_text_chars(1) by blast
  ultimately show ?thesis by (auto simp: number_string_def kept_char_def blank_char_def split: double.split)
qed

lemma minify_text:
  "no_raw j \<Longrightarrow> text_of True d j = Some s \<Longrightarrow> text_of False e j = Some t \<Longrightarrow> turns minify_loop s t"
proof (induction j arbitrary: d e s t)
  case (CJson ty vs vi vd nm cs)
  define t' where "t' = ty AND 0xFF"
  have sub: "\<forall>c \<in> set cs. \<forall>s t. text_of True (Suc d) c = Some s \<longrightarrow> text_of False (Suc e) c = Some t \<longrightarrow> turns minify_loop s t"
    using CJson.IH CJson.prems(1) by (auto simp: list_all_iff)
  have lit: "turns minify_loop x x" if "x \<in> {''null'', ''false'', ''true'', ''['', '']'', ''{'', ''}''}" for x
    using that by (intro minify_kept) (auto simp: kept_char_def blank_char_def)
  have ws: "turns minify_loop (tabs d) []" "turns minify_loop [CHR 0x0A] []"
    by (auto intro!: minify_blanks simp: blank_char_def tabs_def)
  consider "t' \<noteq> cJSON_Array \<and> t' \<noteq> cJSON_Object" | "t' = cJSON_Array" | "t' = cJSON_Object" by blast
  then show ?case
  proof cases
    case 1
    then show ?thesis using CJson.prems lit minify_string number_kept minify_kept
      by (auto simp: text_of.simps Let_def simp flip: t'_def split: if_splits)
  next
    case 2
    then obtain u v where st: "s = ''['' @ u @ '']''" "t = ''['' @ v @ '']''"
      "text_elements True (map (text_of True (Suc d)) cs) = Some u" "text_elements False (map (text_of False (Suc e)) cs) = Some v"
      using CJson.prems(2,3) by (auto simp: text_of.simps t'_def cJSON_types ocat_Some_iff)
    show ?thesis unfolding st(1,2) by (intro turns_append lit minify_elements [OF sub st(3,4)]) simp_all
  next
    case 3
    then obtain u v where st: "s = ''{'' @ [CHR 0x0A] @ u @ tabs d @ ''}''" "t = ''{'' @ [] @ v @ [] @ ''}''"
      "text_members True (Suc d) (map (\<lambda>c. (cj_string c, text_of True (Suc d) c)) cs) = Some u"
      "text_members False (Suc e) (map (\<lambda>c. (cj_string c, text_of False (Suc e) c)) cs) = Some v"
      using CJson.prems(2,3) by (auto simp: text_of.simps t'_def cJSON_types ocat_Some_iff)
    show ?thesis unfolding st(1,2) by (intro turns_append lit ws minify_members [OF sub st(3,4)]) simp_all
  qed
qed

lemma c_text_end: "CHR 0x00 \<notin> set t \<Longrightarrow> c_text (t @ CHR 0x00 # r) = t"
  by (induction t) (auto simp: c_text_def)

text \<open>
  C40: Minifying undoes formatting. For every tree without raw text, \<open>cJSON_Minify\<close> turns the formatted text into the
  compact one, in place and without leaving the buffer: what it removes is what the formatting added,
  and the inside of the strings stays as it is.
\<close>

theorem minify_formatted:
  assumes "no_raw j" "text_of True 0 j = Some s" "text_of False 0 j = Some t"
  shows "cJSON_Minify (Some s) = Inr (Some t)"
proof -
  have m: "minifying (s @ [CHR 0x00]) 0 0 [] (s @ [CHR 0x00])" by (simp add: minifying_def)
  obtain n mem into json where 1: "n \<le> length s" "\<And>k. minify_loop (n + k) (s @ [CHR 0x00]) 0 0 = minify_loop k mem into json"
    "minifying mem into json ([] @ t) [CHR 0x00]"
    using turnsE [OF minify_text [OF assms] m] by metis
  obtain k where k: "length s + 2 = n + Suc k" using 1(1) by (metis add_2_eq_Suc' add_Suc_right le_Suc_ex le_SucI)
  have fin: "minify_loop (length s + 2) (s @ [CHR 0x00]) 0 0 = Inr (mem, into)"
    unfolding k 1(2) using copy_minifying(1) [OF 1(3)] by simp
  have "length (drop json mem) = 1" using 1(3) by (simp add: minifying_def)
  then have 2: "take into mem = t" "into < length mem" using 1(3) by (auto simp: minifying_def)
  have "CHR 0x00 \<notin> set t"
    using text_no_nul assms(3) by blast
  then have "c_text (mem[into := CHR 0x00]) = t"
    using 2 c_text_end [of t] by (simp add: upd_conv_take_nth_drop)
  then show ?thesis using fin 2(2) by (simp add: cJSON_Minify_def)
qed

theorem minify_formatted_witness:
  "\<exists>s. text_of True 0 print_example = Some s \<and> cJSON_Minify (Some s) = Inr (Some print_example_text)"
proof -
  have r: "no_raw print_example" by code_simp
  have "text_of True 0 print_example \<noteq> None" by code_simp
  then obtain s where "text_of True 0 print_example = Some s" by auto
  then show ?thesis using minify_formatted [OF r _ print_example_facts(2)] by auto
qed

text \<open>A comment that is not closed takes the function past the end of the text.\<close>

lemma minify_open_comment: "cJSON_Minify (Some ''/*'') = Inl BufferOverflow" "cJSON_Minify (Some [CHR 0x22]) = Inl BufferOverflow"
  by code_simp+

end
