(* ===== verification/Http.thy ===== *)
theory Http
  imports Cjson_Roundtrip
begin

text \<open>
  \<open>http.c\<close>: a request over HTTP with libcurl. The libraries are parameters: whether a handle can be had, what a
  transfer with the options set on it does, given the write callback and the data it works on, and what a write to the
  buffer that collects the body leaves in it. The requests keep the answer apart from its pieces: however the body is
  cut, the tree that comes back is the one the text of the body denotes.
\<close>

section \<open>The libraries\<close>

datatype curl_code = CURLE_OK | CURLE_WRITE_ERROR | CURLE_OTHER nat

record curl_request =
  cr_headers :: "string list"
  cr_url :: string
  cr_postfields :: "cstr option"
  cr_useragent :: string
  cr_timeout_ms :: nat
  cr_nosignal :: bool

type_synonym write_function = "string \<Rightarrow> nat \<Rightarrow> nat \<Rightarrow> string \<Rightarrow> nat \<times> string"

record curl =
  easy_init :: bool
  easy_perform :: "curl_request \<Rightarrow> write_function \<Rightarrow> string \<Rightarrow> curl_code \<times> nat \<times> string"
  buffer_write :: "string \<Rightarrow> string \<Rightarrow> string"

section \<open>Collecting the body\<close>

text \<open>
  The callback gets a piece as \<open>nmemb\<close> elements of \<open>size\<close> bytes, appends them to the buffer and returns the number of
  elements. What the write returns is not looked at.
\<close>

definition write_callback :: "curl \<Rightarrow> write_function" where
  "write_callback c ptr sz nmemb pBuffer = (nmemb, buffer_write c pBuffer (take (sz * nmemb) ptr))"

text \<open>
  After a transfer that went well the body is terminated and parsed up to its first NUL; the status is only logged. If
  the write of the terminator failed the parser would read past the buffer.
\<close>

definition http_response :: "curl \<Rightarrow> curl_code \<times> nat \<times> string \<Rightarrow> cjson option cres" where
  "http_response c r =
     (case r of (curl_status, httpRes, pBody) \<Rightarrow>
        if curl_status = CURLE_OK then
          (let pBodyStr = buffer_write c pBody [CHR 0x00]
           in if CHR 0x00 \<in> set pBodyStr then cJSON_Parse (Some (c_text pBodyStr)) else Inl BufferOverflow)
        else Inr None)"

section \<open>The requests\<close>

definition USER_AGENT :: string where "USER_AGENT = ''freeswitch-janus/1.0''"

definition post_request :: "string \<Rightarrow> nat \<Rightarrow> cstr \<Rightarrow> curl_request" where
  "post_request url timeout json =
     \<lparr>cr_headers = [''Content-Type: application/json'', ''Accept: application/json''], cr_url = url, cr_postfields = Some json,
      cr_useragent = USER_AGENT, cr_timeout_ms = timeout, cr_nosignal = (timeout \<noteq> 0)\<rparr>"

definition get_request :: "string \<Rightarrow> nat \<Rightarrow> curl_request" where
  "get_request url timeout =
     \<lparr>cr_headers = [''Accept: application/json''], cr_url = url, cr_postfields = None,
      cr_useragent = USER_AGENT, cr_timeout_ms = timeout, cr_nosignal = (timeout \<noteq> 0)\<rparr>"

definition httpPost :: "(nat \<Rightarrow> bool) \<Rightarrow> curl \<Rightarrow> cstr \<Rightarrow> nat \<Rightarrow> cjson option \<Rightarrow> cjson option cres" where
  "httpPost alloc c pUrl timeout pJsonRequest =
     (case pUrl of
        None \<Rightarrow> Inl AssertFailed
      | Some url \<Rightarrow>
          if \<not> easy_init c then Inr None
          else cbind (cJSON_PrintUnformatted alloc pJsonRequest) (\<lambda>pJsonStr.
               http_response c (easy_perform c (post_request url timeout pJsonStr) (write_callback c) [])))"

definition httpGet :: "curl \<Rightarrow> cstr \<Rightarrow> nat \<Rightarrow> cjson option cres" where
  "httpGet c pUrl timeout =
     (case pUrl of
        None \<Rightarrow> Inl AssertFailed
      | Some url \<Rightarrow>
          if \<not> easy_init c then Inr None else http_response c (easy_perform c (get_request url timeout) (write_callback c) []))"

section \<open>What the libraries document\<close>

text \<open>A write to a dynamic buffer appends the data.\<close>

definition buffer_appends :: "curl \<Rightarrow> bool" where
  "buffer_appends c \<longleftrightarrow> (\<forall>b d. buffer_write c b d = b @ d)"

text \<open>
  A transfer hands the body over in pieces whose elements are bytes, and stops with an error when the callback does not
  report all bytes of a piece as taken.
\<close>

fun hand_over :: "write_function \<Rightarrow> string list \<Rightarrow> string \<Rightarrow> bool \<times> string" where
  "hand_over f [] d = (True, d)"
| "hand_over f (p # ps) d = (let (taken, d) = f p 1 (length p) d in if taken \<noteq> length p then (False, d) else hand_over f ps d)"

definition transfers :: "curl \<Rightarrow> curl_request \<Rightarrow> string list \<Rightarrow> bool" where
  "transfers c r ps \<longleftrightarrow> (\<forall>f d. \<exists>status. easy_perform c r f d =
     (case hand_over f ps d of (all_taken, d) \<Rightarrow> (if all_taken then CURLE_OK else CURLE_WRITE_ERROR, status, d)))"

section \<open>Properties\<close>

lemma hand_over_all: "buffer_appends c \<Longrightarrow> hand_over (write_callback c) ps d = (True, d @ concat ps)"
  by (induction ps arbitrary: d) (auto simp: buffer_appends_def write_callback_def)

lemma c_text_append_nul: "c_text (s @ [CHR 0x00]) = c_text s"
  by (induction s) (auto simp: c_text_def)

lemma perform_text:
  assumes "buffer_appends c" "transfers c r ps"
  shows "http_response c (easy_perform c r (write_callback c) []) = cJSON_Parse (Some (c_text (concat ps)))"
proof -
  obtain status where "easy_perform c r (write_callback c) [] = (CURLE_OK, status, concat ps)"
    using assms(2) [unfolded transfers_def, rule_format, of "write_callback c" "[]"] hand_over_all [OF assms(1), of ps "[]"]
    by auto
  then show ?thesis using assms(1) by (simp add: http_response_def buffer_appends_def c_text_append_nul)
qed

lemma parse_returns: "\<exists>r. cJSON_Parse (Some t) = Inr r"
proof -
  have "\<exists>r. cJSON_ParseWithOpts (Some t) False = Inr r"
    using parse_run [OF refl, of t False] by (auto simp: Let_def)
  then show ?thesis by (auto simp: cJSON_Parse_def)
qed

lemma response_total: "buffer_appends c \<Longrightarrow> \<exists>r. http_response c x = Inr r"
  using parse_returns by (cases x) (auto simp: http_response_def buffer_appends_def Let_def)

text \<open>
  C35: The HTTP requests are defined on everything the network can do: with an address and a request whose numbers are
  doubles, whatever libcurl delivers and whenever allocation fails in the printer, \<open>httpPost\<close> and \<open>httpGet\<close>
  return a tree or NULL; no handle and a failed transfer give NULL.
\<close>

theorem http_total:
  assumes "doubles req" "buffer_appends c"
  shows "(\<exists>r. httpPost alloc c (Some url) timeout (Some req) = Inr r) \<and> (\<exists>r. httpGet c (Some url) timeout = Inr r)
    \<and> (\<not> easy_init c \<longrightarrow> httpPost alloc c (Some url) timeout (Some req) = Inr None \<and> httpGet c (Some url) timeout = Inr None)
    \<and> ((\<forall>r f d. fst (easy_perform c r f d) \<noteq> CURLE_OK) \<longrightarrow>
        httpPost alloc c (Some url) timeout (Some req) = Inr None \<and> httpGet c (Some url) timeout = Inr None)"
proof -
  obtain t where t: "cJSON_PrintUnformatted alloc (Some req) = Inr t"
    using print_result [OF assms(1), of alloc False] by (auto simp: cJSON_PrintUnformatted_def)
  have "http_response c x = Inr None" if "fst x \<noteq> CURLE_OK" for x
    using that by (cases x) (auto simp: http_response_def)
  then show ?thesis using t response_total [OF assms(2)] by (auto simp: httpPost_def httpGet_def)
qed

definition curl_down :: curl where
  "curl_down = \<lparr>easy_init = True, easy_perform = (\<lambda>r f d. (CURLE_OTHER 7, 0, d)), buffer_write = (@)\<rparr>"

theorem http_total_witness: "httpPost (\<lambda>n. True) curl_down (Some ''http://janus'') 0 (Some print_example) = Inr None"
  using http_total [OF print_example_facts(1), of curl_down "\<lambda>n. True" "''http://janus''" 0]
  by (simp add: curl_down_def buffer_appends_def)

lemma exchange_text:
  assumes "easy_init c" "buffer_appends c" "doubles req" "json_tree req" "nest (reread None req) \<le> CJSON_NESTING_LIMIT"
    and "text_of False 0 req = Some q" "length q + 4 \<le> INT_MAX_SIZE div 2"
    and "transfers c (post_request url timeout (Some q)) ps"
    and "text_of fmt 0 resp = Some (concat ps)" "json_tree resp" "nest (reread None resp) \<le> CJSON_NESTING_LIMIT"
  shows "cJSON_Parse (Some q) = Inr (Some (reread None req))
    \<and> httpPost (\<lambda>n. True) c (Some url) timeout (Some req) = Inr (Some (reread None resp))"
proof -
  have "print (\<lambda>n. True) (Some req) False = Inr (Some q)" using print_result [OF assms(3), of "\<lambda>n. True" False] assms(6,7) by auto
  moreover have "cJSON_Parse (Some (concat ps)) = Inr (Some (reread None resp))"
    using parse_text [OF assms(10,11,9)] by (simp add: cJSON_Parse_def)
  moreover have "c_text (concat ps) = concat ps" using text_no_nul [OF assms(9)] by (rule c_text_id)
  ultimately show ?thesis
    using parse_text [OF assms(4-6)] perform_text [OF assms(2,8)] assms(1)
    by (simp add: httpPost_def cJSON_PrintUnformatted_def cJSON_Parse_def)
qed

text \<open>
  A request and its response arrive as they were sent. The peer that parses the body of the POST gets the request
  tree; and if it answers with the text of a JSON tree, compact or formatted, in whatever pieces libcurl
  hands it over, \<open>httpPost\<close> returns that tree. The trees are the ones of the round trip of printing and parsing.
\<close>

theorem http_exchange:
  assumes "easy_init c" "buffer_appends c" "doubles req" "json_tree req" "nest (reread None req) \<le> CJSON_NESTING_LIMIT"
    and "text_of False 0 req = Some q" "length q + 4 \<le> INT_MAX_SIZE div 2"
    and "transfers c (post_request url timeout (Some q)) ps"
    and "text_of fmt 0 resp = Some (concat ps)" "json_tree resp" "nest (reread None resp) \<le> CJSON_NESTING_LIMIT"
  shows "cJSON_Parse (Some q) = Inr (Some (reread None req))
    \<and> httpPost (\<lambda>n. True) c (Some url) timeout (Some req) = Inr (Some (reread None resp))"
  by (rule exchange_text [OF assms])

text \<open>A library that hands a given body over in two pieces.\<close>

definition curl_sending :: "string \<Rightarrow> curl" where
  "curl_sending t =
     \<lparr>easy_init = True,
      easy_perform = (\<lambda>r f d. case hand_over f [take 5 t, drop 5 t] d of
                        (all_taken, d) \<Rightarrow> (if all_taken then CURLE_OK else CURLE_WRITE_ERROR, 200, d)),
      buffer_write = (@)\<rparr>"

lemma curl_sending_facts:
  "easy_init (curl_sending t)" "buffer_appends (curl_sending t)" "transfers (curl_sending t) r [take 5 t, drop 5 t]"
  unfolding buffer_appends_def transfers_def by (simp_all add: curl_sending_def split: prod.split)

theorem http_exchange_witness:
  "httpPost (\<lambda>n. True) (curl_sending print_example_text) (Some ''http://janus'') 0 (Some print_example) = Inr (Some print_example)"
proof -
  have r: "reread None print_example = print_example" "json_tree print_example" by code_simp+
  have n: "nest (reread None print_example) \<le> CJSON_NESTING_LIMIT"
    unfolding r(1) by (simp add: print_example_def cJSON_types CJSON_NESTING_LIMIT_def)
  show ?thesis
    using http_exchange [where url = "''http://janus''" and timeout = 0 and fmt = False, OF curl_sending_facts(1,2)
        print_example_facts(1) r(2) n print_example_facts(2) _ curl_sending_facts(3) _ r(2) n, of print_example_text]
      r print_example_facts(2,3)
    by (simp add: INT_MAX_SIZE_def)
qed

end
