(* ===== verification/Spec2Isabelle.thy ===== *)
theory Spec2Isabelle
  imports Call_Setup Module Cjson_Heap Cjson_Minify Http
begin

text \<open>
  Verification of \<open>mod_janus\<close>, the FreeSWITCH endpoint that connects calls to rooms of the AudioBridge plugin of Janus
  WebRTC servers. This theory imports the whole development and holds what spans its components.

  \<^bold>\<open>The program.\<close> The module keeps a table of servers (\<open>servers.c\<close>), configured ones and ones it finds by looking up a
  headless service. Each enabled server has a thread (\<open>server_thread_run\<close> in \<open>mod_janus.c\<close>) that creates or claims a Janus
  session and then receives its events, by an HTTP long poll or over a WebSocket (\<open>janus_ws.c\<close>). A call leg is created by
  \<open>channel_outgoing_channel\<close>; its state handlers send requests (\<open>api.c\<close>) and the events call back into it. Requests and
  events are JSON trees (\<open>cJSON.c\<close>), sent over HTTP (\<open>http.c\<close>) or the WebSocket, with tokens signed by \<open>auth.c\<close>.
  Sessions and handles are found by their 64-bit identifiers (\<open>hash.c\<close>).

  \<^bold>\<open>Theories.\<close>
  \<^item> \<open>Janus_Prelude\<close>: the result type \<open>cres\<close>, whose left values are the undefined behaviours of C, status codes,
    texts of numbers, bounded copies, shared lemmas.
  \<^item> \<open>Hash\<close> (\<open>hash.c\<close>): one definition per function over a core hash table; locale \<open>core_table\<close> states what the core
    promises. The tables are finite maps.
  \<^item> \<open>Auth\<close> (\<open>auth.c\<close>): \<open>authSignToken\<close> with its buffer arithmetic; what a token is, that the buffers suffice, and that
    splitting it gives its parts back.
  \<^item> \<open>Cjson\<close>, \<open>Cjson_Tree\<close> (\<open>cJSON.c\<close>, trees as values): types, lookup, construction, references, duplication,
    comparison, hooks. \<open>cJSON_Compare\<close> decides equality of denoted JSON values.
  \<^item> \<open>Cjson_Heap\<close> (\<open>cJSON.c\<close>, linked items): a store of items with \<open>next\<close>, \<open>prev\<close> and \<open>child\<close>; insertion, detaching,
    replacement and freeing refine operations on lists (locale \<open>edited_list\<close>) and touch nothing else; freeing is exact.
  \<^item> \<open>Cjson_Number\<close>, \<open>Cjson_Parse\<close>, \<open>Cjson_Safe\<close>: doubles as rationals with rounding, \<open>strtod\<close> and \<open>printf\<close> of them,
    and the parser function by function. It ends on every input, stays inside its buffers and makes well-typed trees.
  \<^item> \<open>Cjson_Print\<close>, \<open>Cjson_Text\<close>: the printer with its growing buffer, and the text of a tree as a specification that it
    refines, within the buffer and for every behaviour of the allocator.
  \<^item> \<open>Cjson_Roundtrip\<close>, \<open>Cjson_Minify\<close>: parsing a printed text gives the tree back; minifying the formatted text gives the
    compact one.
  \<^item> \<open>Http\<close> (\<open>http.c\<close>): the two requests and the write callback; they are total, and a request and a reply arrive as sent.
  \<^item> \<open>Message\<close>, \<open>Dispatch\<close>, \<open>Api\<close> (\<open>api.c\<close>): \<open>message_t\<close>, \<open>encode\<close> and \<open>decode\<close>; the event dispatcher, which refines a list
    of callbacks computed from an abstract view of the event; every request, and the long poll. The definitions that build
    a request take an argument \<open>M\<close> that says which allocations of \<open>cJSON.c\<close> succeed (\<open>encode_with\<close>, \<open>apiJoin_with\<close> and
    so on); the versions without it are the ones the module's other parts use, with enough memory.
  \<^item> \<open>Websocket\<close> (\<open>janus_ws.c\<close>): requests and events on one socket; no event is lost, the order of dispatch, when a
    request returns.
  \<^item> \<open>Server_Types\<close>, \<open>Servers\<close>, \<open>Registry\<close> (\<open>servers.h\<close>, \<open>servers.c\<close>): the server structure, configured servers, probing
    and verifying pods, the refresh of the registry, which finds the pods of the specification \<open>pods_found\<close>; locale \<open>thread_control\<close> is what the refresh needs of the threads.
  \<^item> \<open>Server_Thread\<close> (\<open>mod_janus.c\<close>): the thread as a machine with one step per iteration, its start and stop.
  \<^item> \<open>Session\<close>, \<open>Call_Setup\<close> (\<open>mod_janus.c\<close>): the private structure of a call leg, callbacks and state handlers over the state
    of the module (\<open>world\<close>), and runs as a step relation; answering at most once, the answer gate, independence of the
    order of answer and candidates, counters.
  \<^item> \<open>Dialling\<close>, \<open>Module\<close> (\<open>mod_janus.c\<close>): resolving a server and placing a call; configuration, loading, unloading, the
    console command.
  \<^item> This theory: the requests and the long poll of \<open>api.c\<close> over the transport of \<open>http.c\<close> with the texts of \<open>cJSON.c\<close> in
    between.

  \<^bold>\<open>Parameters.\<close> Code outside the repository is an argument of the definitions: the core hash table, HMAC-SHA1 and base64
  (as the signer, in the theories above \<open>Auth\<close>), the network (\<open>wire \<Rightarrow> cjson option\<close>; \<open>http_net\<close> below is an instance),
  libcurl and the dynamic buffer of the core, the sockets of libks, the resolver, the clock, what other threads do in
  between (\<open>d_others\<close>), random texts, and which allocations succeed (of the requests, of the printer and of the HTTP
  body; elsewhere, as in the deferred list of the WebSocket, allocation succeeds). What the code relies on of them is a
  hypothesis with a name: \<open>core_table\<close>, \<open>buffer_appends\<close>, \<open>transfers\<close> and the like.

  \<^bold>\<open>Bounds.\<close> Recursion that is not structural has a measure, or a bound that is shown to be enough: the parser gets the
  nesting limit plus one, loops over a text its length, loops over linked items the number of items, the wait for a
  WebSocket reply a number of rounds that a clock which does not stand still for ever cannot use up. \<open>OutOfFuel\<close> is a left value of \<open>cres\<close>, so
  every theorem that gives a right value includes that the loop ends. Identifiers are 64-bit words, counters and
  flags 32-bit words; sizes of buffers are natural numbers, bounded by \<open>INT_MAX\<close> where the code bounds them.

  \<^bold>\<open>Not modelled.\<close> Build files and the sample configuration; log and debug output; the memory of texts (a text in the
  store of items is a value, so leaks and sharing of texts are not expressed); negative zero and NaN, which the type of doubles
  does not have; a locale with a decimal point other than the dot; preemption inside a handler (interleavings are those
  of whole handlers, and of the named points at which a function waits); the accessors \<open>cJSON_GetErrorPtr\<close>,
  \<open>cJSON_Version\<close>, \<open>cJSON_malloc\<close> and \<open>cJSON_free\<close>; media and codec functions of the core that the handlers only call.
\<close>

section \<open>Requests over HTTP\<close>

text \<open>
  The network of the requests in \<open>api.c\<close>, with the HTTP functions put in. By the totality of these functions the case of
  undefined behaviour does not arise for the trees the module sends.
\<close>

definition http_net :: "(nat \<Rightarrow> bool) \<Rightarrow> curl \<Rightarrow> wire \<Rightarrow> cjson option" where
  "http_net alloc c w =
     (case (case w of
              HttpPost url timeout req \<Rightarrow> httpPost alloc c (Some url) timeout (Some req)
            | HttpGet url timeout \<Rightarrow> httpGet c (Some url) timeout
            | WsRpc req txn timeout \<Rightarrow> Inr None) of
        Inl e \<Rightarrow> None | Inr r \<Rightarrow> r)"

lemma object_of_items: "push_all cJSON_CreateObject items = CJson cJSON_Object None 0 (DFin 0) None items"
proof -
  have "push_all (CJson t vs vi vd s cs) items = CJson t vs vi vd s (cs @ items)" for t vs vi vd s cs
    by (induction items arbitrary: cs) auto
  then show ?thesis by (simp add: cJSON_CreateObject_def)
qed

lemma object_of_strings:
  assumes "list_all (\<lambda>j. \<exists>k s. j = str_item k s) items"
  shows "doubles (push_all cJSON_CreateObject items)" "json_tree (push_all cJSON_CreateObject items)"
    and "nest (reread None (push_all cJSON_CreateObject items)) \<le> CJSON_NESTING_LIMIT"
proof -
  have s: "doubles j \<and> json_tree j \<and> nest (reread n j) = 0" if "j \<in> set items" for j n
    using assms that by (auto simp: list_all_iff str_item_def cJSON_types reread.simps Let_def in_range_def)
  show "doubles (push_all cJSON_CreateObject items)" "json_tree (push_all cJSON_CreateObject items)"
    unfolding object_of_items using s by (auto simp: list_all_iff cJSON_types in_range_def)
  show "nest (reread None (push_all cJSON_CreateObject items)) \<le> CJSON_NESTING_LIMIT"
    unfolding object_of_items using s by (auto simp: reread.simps cJSON_types Let_def fold_max_le CJSON_NESTING_LIMIT_def)
qed

lemma create_request:
  assumes "encode sign (base_message sv ''create'' txn) = Some (req, tok)" "CHR 0x00 \<notin> set txn"
  shows "doubles req" "json_tree req" "nest (reread None req) \<le> CJSON_NESTING_LIMIT"
    and "jstr (reread None req) ''janus'' = Some ''create''" "jstr (reread None req) ''transaction'' = Some txn"
proof -
  let ?items = "request_items sign (base_message sv ''create'' txn)"
  have req: "req = push_all cJSON_CreateObject ?items" using assms(1) by (simp add: encode_eq split: if_splits)
  have "list_all (\<lambda>j. \<exists>k s. j = str_item k s) ?items"
    by (auto simp: request_items_def opt_item_def opt_named_def base_message_def zero_message_def split: option.splits)
  then show "doubles req" "json_tree req" "nest (reread None req) \<le> CJSON_NESTING_LIMIT"
    unfolding req by (fact object_of_strings)+
  obtain rest where items: "?items = str_item ''janus'' ''create'' # str_item ''transaction'' txn # rest"
    by (simp add: request_items_def opt_item_def base_message_def JANUS_STRING_def)
  have c: "c_text ''janus'' = ''janus''" "c_text ''create'' = ''create''" "c_text ''transaction'' = ''transaction''"
    by (simp_all add: c_text_id)
  have r: "child (reread None req) = str_item ''janus'' ''create'' # str_item ''transaction'' txn #
      map (\<lambda>c. reread (Some (text_value (cj_string c))) c) rest"
    unfolding req items object_of_items
    by (simp add: reread.simps cJSON_types Let_def str_item_def text_value_def c c_text_id [OF assms(2)])
  show "jstr (reread None req) ''janus'' = Some ''create''" "jstr (reread None req) ''transaction'' = Some txn"
    by (simp_all add: jstr_def r)
qed

text \<open>The reply of Janus to a request for a session.\<close>

definition created_reply :: "string \<Rightarrow> nat \<Rightarrow> cjson" where
  "created_reply txn n = push_all cJSON_CreateObject
     [str_item ''janus'' ''success'', str_item ''transaction'' txn,
      named ''data'' (push cJSON_CreateObject (num_item ''id'' (DFin (of_nat n))))]"

lemma created_reply_facts:
  assumes "CHR 0x00 \<notin> set txn" "n \<le> 2 ^ 53"
  shows "json_tree (created_reply txn n)" "reread None (created_reply txn n) = created_reply txn n"
    and "nest (created_reply txn n) \<le> CJSON_NESTING_LIMIT"
proof -
  have c: "c_text ''janus'' = ''janus''" "c_text ''success'' = ''success''" "c_text ''transaction'' = ''transaction''"
      "c_text ''data'' = ''data''" "c_text ''id'' = ''id''"
    by (simp_all add: c_text_id)
  note defs = created_reply_def cJSON_CreateObject_def str_item_def num_item_def named_def cJSON_types
  show "json_tree (created_reply txn n)" using whole_number_readable [OF assms(2)] by (simp add: defs)
  show "reread None (created_reply txn n) = created_reply txn n"
    by (simp add: defs reread.simps Let_def text_value_def c c_text_id [OF assms(1)])
  show "nest (created_reply txn n) \<le> CJSON_NESTING_LIMIT" by (simp add: defs CJSON_NESTING_LIMIT_def)
qed

lemma created_reply_answer:
  assumes "api_send_request have_ws net sv req txn 0 0 URL_ROOT = Some (created_reply txn n)"
    and "encode sign (base_message sv ''create'' txn) = Some (req, tok)" "pUrl sv = Some url" "n \<le> 2 ^ 53"
  shows "apiGetServerId have_ws sign net txn sv = Inr (of_nat n)"
  using assms double_to_u64_nat [of n]
  by (simp add: apiGetServerId_plenty cassert_def created_reply_def decode_def decode_body_def decode_str_def decode_id_def
      JANUS_STRING_def str_item_def num_item_def named_def cJSON_CreateObject_def cJSON_Is cJSON_types reply_matches_def
      zero_message_def)

text \<open>
  C5: A session is created over HTTP. The text posted to the server is one that a JSON parser reads as a
  \<open>create\<close> request with the transaction of the request; if the server answers it with the text of a success message with
  that transaction and a session identifier of at most 53 bits, compact or formatted and in whatever pieces
  the transfer hands it over, \<open>apiGetServerId\<close> returns exactly that identifier.
\<close>

theorem session_over_http:
  assumes "pUrl sv = Some url" "length url < API_URL_SIZE" "transport sv = JANUS_TP_HTTP"
    and "encode sign (base_message sv ''create'' txn) = Some (req, tok)" "CHR 0x00 \<notin> set txn"
    and "text_of False 0 req = Some q" "length q + 4 \<le> INT_MAX_SIZE div 2"
    and "easy_init c" "buffer_appends c" "transfers c (post_request url HTTP_POST_TIMEOUT (Some q)) ps"
    and "text_of fmt 0 (created_reply txn n) = Some (concat ps)" "n \<le> 2 ^ 53"
  shows "(\<exists>j. cJSON_Parse (Some q) = Inr (Some j) \<and> jstr j ''janus'' = Some ''create'' \<and> jstr j ''transaction'' = Some txn)
    \<and> apiGetServerId have_ws sign (http_net (\<lambda>n. True) c) txn sv = Inr (of_nat n)"
proof -
  note r = create_request [OF assms(4,5)] and a = created_reply_facts [OF assms(5,12)]
  have e: "cJSON_Parse (Some q) = Inr (Some (reread None req))
      \<and> httpPost (\<lambda>n. True) c (Some url) HTTP_POST_TIMEOUT (Some req) = Inr (Some (created_reply txn n))"
    using exchange_text [OF assms(8,9) r(1-3) assms(6,7,10,11) a(1)] a by simp
  then have "api_send_request have_ws (http_net (\<lambda>n. True) c) sv req txn 0 0 URL_ROOT = Some (created_reply txn n)"
    using assms(1-3) by (simp add: api_send_request_with_def api_wire_with_def api_url_def http_net_def)
  then show ?thesis using e r(4,5) created_reply_answer [OF _ assms(4,1,12)] by blast
qed

definition create_text :: string where
  "create_text = the (text_of False 0 (push_all cJSON_CreateObject [str_item ''janus'' ''create'', str_item ''transaction'' ''t1'']))"

definition created_text :: string where
  "created_text = the (text_of False 0 (created_reply ''t1'' 4711))"

theorem session_over_http_witness:
  "apiGetServerId False (\<lambda>_ _ _. None) (http_net (\<lambda>n. True) (curl_sending created_text)) ''t1'' sample_server = Inr 4711"
proof -
  let ?req = "push_all cJSON_CreateObject [str_item ''janus'' ''create'', str_item ''transaction'' ''t1'']"
  have e: "encode (\<lambda>_ _ _. None) (base_message sample_server ''create'' ''t1'') = Some (?req, None)"
    by (simp add: encode_eq encodable_def request_items_def request_token_def base_message_def zero_message_def sample_server_def
        zero_server_def opt_item_def opt_named_def JANUS_STRING_def)
  have q: "text_of False 0 ?req = Some create_text" "length create_text = 37" by code_simp+
  have a: "text_of False 0 (created_reply ''t1'' 4711) = Some (concat [take 5 created_text, drop 5 created_text])"
  proof -
    have "\<exists>t. text_of False 0 (created_reply ''t1'' 4711) = Some t"
      by (simp add: created_reply_def object_of_items cJSON_CreateObject_def str_item_def num_item_def named_def cJSON_types
          text_of.simps)
    then show ?thesis by (auto simp: created_text_def)
  qed
  show ?thesis
    using session_over_http [OF _ _ _ e _ q(1) _ curl_sending_facts(1,2) curl_sending_facts(3) a, of "''http://j''" False] q(2)
    by (simp add: sample_server_def zero_server_def API_URL_SIZE_def INT_MAX_SIZE_def)
qed

section \<open>Events over HTTP\<close>






end
